(* ===== verification/Prelude.thy ===== *)
theory Prelude
  imports
    Complex_Main
    "HOL-Library.AList"
    "HOL-Library.Char_ord"
    "HOL-Library.List_Lexorder"
    "HOL-Library.Product_Lexorder"
begin

text \<open>
  The vocabulary the component theories share.

  \<^item> Numbers: Python's unbounded ints are \<open>int\<close>. A finite Python float is a rational,
    so floats are \<open>rat\<close>; comparisons of floats are exact, and the rounding of a float sum,
    product or quotient is not modelled (it is exact here).
  \<^item> Time: a \<open>datetime\<close> is its number of microseconds since the epoch (the resolution of
    Python's type), so the difference of two datetimes and \<open>total_seconds\<close> are exact.
  \<^item> Strings are \<open>char list\<close>s over ASCII; an empty string is Python's false.
  \<^item> A dict is an association list with distinct keys in insertion order.
    \<open>AList.update\<close> overwrites in place or appends, \<open>AList.delete\<close> removes: what
    Python's item assignment and \<open>pop\<close> do.
\<close>

named_theorems py_defs \<open>definitions of the Python built-ins\<close>

type_synonym datetime = int
type_synonym ('k, 'v) dict = "('k \<times> 'v) list"

section \<open>Numbers and time\<close>

text \<open>\<open>timedelta.total_seconds()\<close> of a difference in microseconds.\<close>

definition total_seconds :: "int \<Rightarrow> rat" where
  "total_seconds d = of_int d / 1000000"

text \<open>\<open>int(x)\<close> of a float truncates towards zero.\<close>

definition py_int :: "rat \<Rightarrow> int" where
  "py_int x = (if 0 \<le> x then \<lfloor>x\<rfloor> else \<lceil>x\<rceil>)"

definition math_ceil :: "rat \<Rightarrow> int" where
  "math_ceil x = \<lceil>x\<rceil>"

lemma total_seconds_ge_iff [simp]:
  "of_int s \<le> total_seconds d \<longleftrightarrow> s * 1000000 \<le> d"
proof -
  have "of_int s \<le> total_seconds d \<longleftrightarrow> (of_int (s * 1000000) :: rat) \<le> of_int d"
    by (simp add: total_seconds_def field_simps)
  then show ?thesis by (simp only: of_int_le_iff)
qed

lemma total_seconds_less_iff [simp]:
  "total_seconds d < of_int s \<longleftrightarrow> d < s * 1000000"
  using total_seconds_ge_iff [of s d] by linarith

lemma total_seconds_le_iff [simp]:
  "total_seconds d \<le> of_int s \<longleftrightarrow> d \<le> s * 1000000"
proof -
  have "total_seconds d \<le> of_int s \<longleftrightarrow> (of_int d :: rat) \<le> of_int (s * 1000000)"
    by (simp add: total_seconds_def field_simps)
  then show ?thesis by (simp only: of_int_le_iff)
qed

lemma total_seconds_nonneg_iff [simp]: "0 \<le> total_seconds d \<longleftrightarrow> 0 \<le> d"
  by (simp add: total_seconds_def)

lemma py_int_nonneg: "0 \<le> x \<Longrightarrow> 0 \<le> py_int x"
  by (simp add: py_int_def)

lemma py_int_le: "0 \<le> x \<Longrightarrow> of_int (py_int x) \<le> x"
  by (simp add: py_int_def)

lemma math_ceil_nonneg: "0 \<le> x \<Longrightarrow> 0 \<le> math_ceil x"
  by (simp add: math_ceil_def)

section \<open>Strings\<close>

definition char_lower :: "char \<Rightarrow> char" where
  "char_lower c =
     (let n = of_char c :: nat in if 65 \<le> n \<and> n \<le> 90 then char_of (n + 32) else c)"

definition str_lower :: "string \<Rightarrow> string" where
  "str_lower s = map char_lower s"

definition rstrip_slash :: "string \<Rightarrow> string" where
  "rstrip_slash s = rev (dropWhile (\<lambda>c. c = CHR ''/'') (rev s))"

text \<open>The ASCII characters \<open>str.strip()\<close> removes: 9 to 13, 28 to 31, and the space.\<close>

definition is_space :: "char \<Rightarrow> bool" where
  "is_space c =
     (let n = of_char c :: nat in 9 \<le> n \<and> n \<le> 13 \<or> 28 \<le> n \<and> n \<le> 31 \<or> n = 32)"

definition str_strip :: "string \<Rightarrow> string" where
  "str_strip s = rev (dropWhile is_space (rev (dropWhile is_space s)))"

definition starts_with :: "string \<Rightarrow> string \<Rightarrow> bool" where
  "starts_with p s \<longleftrightarrow> take (length p) s = p"

text \<open>\<open>s or d\<close> for an optional string \<open>s\<close>: the default replaces both None and the empty string.\<close>

definition str_or :: "string option \<Rightarrow> string \<Rightarrow> string" where
  "str_or s d = (case s of None \<Rightarrow> d | Some t \<Rightarrow> if t = [] then d else t)"

definition truthy_str :: "string option \<Rightarrow> bool" where
  "truthy_str s \<longleftrightarrow> (case s of None \<Rightarrow> False | Some t \<Rightarrow> t \<noteq> [])"

section \<open>Lists\<close>

text \<open>The slice \<open>xs[:n]\<close>: a negative bound counts from the end.\<close>

definition py_prefix :: "int \<Rightarrow> 'a list \<Rightarrow> 'a list" where
  "py_prefix n xs = (if 0 \<le> n then take (nat n) xs else take (length xs - nat (- n)) xs)"

text \<open>
  \<open>sorted(xs, key=k, reverse=True)\<close> is stable: Python reverses, sorts and reverses again.
  \<open>min(xs, key=k)\<close> and \<open>max(xs, key=k)\<close> take the first extremal element.
\<close>

definition sorted_desc :: "('a \<Rightarrow> 'k::linorder) \<Rightarrow> 'a list \<Rightarrow> 'a list" where
  "sorted_desc k xs = rev (sort_key k (rev xs))"

fun min_key :: "('a \<Rightarrow> 'k::linorder) \<Rightarrow> 'a \<Rightarrow> 'a list \<Rightarrow> 'a" where
  "min_key k x [] = x"
| "min_key k x (y # ys) = (if k y < k x then min_key k y ys else min_key k x ys)"

fun max_key :: "('a \<Rightarrow> 'k::linorder) \<Rightarrow> 'a \<Rightarrow> 'a list \<Rightarrow> 'a" where
  "max_key k x [] = x"
| "max_key k x (y # ys) = (if k x < k y then max_key k y ys else max_key k x ys)"

definition max_default :: "'a::linorder \<Rightarrow> 'a list \<Rightarrow> 'a" where
  "max_default d xs = (case xs of [] \<Rightarrow> d | y # ys \<Rightarrow> fold max ys y)"

lemma set_py_prefix: "set (py_prefix n xs) \<subseteq> set xs"
  by (auto simp: py_prefix_def dest: in_set_takeD)

lemma length_py_prefix: "0 \<le> n \<Longrightarrow> int (length (py_prefix n xs)) \<le> n"
  by (simp add: py_prefix_def)

lemma distinct_py_prefix: "distinct (map f xs) \<Longrightarrow> distinct (map f (py_prefix n xs))"
  by (auto simp: py_prefix_def take_map [symmetric] distinct_take)

lemma set_sorted_desc [simp]: "set (sorted_desc k xs) = set xs"
  by (simp add: sorted_desc_def)

lemma min_key_in: "min_key k x xs \<in> set (x # xs)"
  by (induction k x xs rule: min_key.induct) auto

lemma min_key_le: "y \<in> set (x # xs) \<Longrightarrow> k (min_key k x xs) \<le> k y"
  by (induction k x xs arbitrary: y rule: min_key.induct) (fastforce split: if_splits)+

lemma max_key_in: "max_key k x xs \<in> set (x # xs)"
  by (induction k x xs rule: max_key.induct) auto

lemma max_key_ge: "y \<in> set (x # xs) \<Longrightarrow> k y \<le> k (max_key k x xs)"
  by (induction k x xs arbitrary: y rule: max_key.induct) (fastforce split: if_splits)+

lemma fold_max_ge: "y \<le> fold max ys (y :: 'a::linorder)"
  by (induction ys arbitrary: y) (simp, metis fold_simps(2) max.bounded_iff max.cobounded2 order_refl)

lemma fold_max_le: "y \<le> b \<Longrightarrow> \<forall>x \<in> set ys. x \<le> b \<Longrightarrow> fold max ys y \<le> (b :: 'a::linorder)"
  by (induction ys arbitrary: y) auto

lemma max_default_bounds:
  assumes "a \<le> d" "d \<le> b" "\<forall>x \<in> set xs. a \<le> x \<and> x \<le> b"
  shows "a \<le> max_default d xs" "max_default d xs \<le> b"
proof -
  show "a \<le> max_default d xs"
    using assms order_trans [OF _ fold_max_ge]
    by (auto simp: max_default_def split: list.splits)
  show "max_default d xs \<le> b"
    using assms by (auto simp: max_default_def intro: fold_max_le split: list.splits)
qed

section \<open>Dicts\<close>

abbreviation dict_get :: "('k, 'v) dict \<Rightarrow> 'k \<Rightarrow> 'v option" where
  "dict_get d k \<equiv> map_of d k"

abbreviation dict_keys_ok :: "('k, 'v) dict \<Rightarrow> bool" where
  "dict_keys_ok d \<equiv> distinct (map fst d)"

lemma dict_update_new: "k \<notin> fst ` set d \<Longrightarrow> AList.update k v d = d @ [(k, v)]"
  by (induction d) auto

lemma dict_delete_absent: "k \<notin> fst ` set d \<Longrightarrow> AList.delete k d = d"
  by (induction d) auto

lemma dict_keys_ok_update [simp]: "dict_keys_ok d \<Longrightarrow> dict_keys_ok (AList.update k v d)"
  by (rule distinct_update)

lemma dict_keys_ok_delete [simp]: "dict_keys_ok d \<Longrightarrow> dict_keys_ok (AList.delete k d)"
  by (rule distinct_delete)

lemma dict_in_delete: "p \<in> set (AList.delete k d) \<longleftrightarrow> p \<in> set d \<and> fst p \<noteq> k"
  by (auto simp: AList.delete_eq)

lemma dict_in_update: "p \<in> set (AList.update k v d) \<Longrightarrow> p = (k, v) \<or> p \<in> set d"
  by (induction d) (auto split: if_splits)

lemma dict_get_None_iff: "dict_get d k = None \<longleftrightarrow> k \<notin> fst ` set d"
  by (rule map_of_eq_None_iff)

text \<open>Removing a key removes its entry's contribution to a sum over the dict.\<close>

lemma sum_list_dict_delete:
  fixes g :: "'k \<times> 'v \<Rightarrow> int"
  assumes "dict_keys_ok d"
  shows "sum_list (map g (AList.delete k d))
         = sum_list (map g d) - (case dict_get d k of None \<Rightarrow> 0 | Some v \<Rightarrow> g (k, v))"
  using assms
proof (induction d)
  case (Cons p d)
  obtain k' v' where p: "p = (k', v')" by (cases p)
  show ?case
  proof (cases "k' = k")
    case True
    with Cons.prems p have "AList.delete k d = d" by (auto intro!: dict_delete_absent)
    with True p show ?thesis by simp
  next
    case False
    with Cons p show ?thesis by simp
  qed
qed simp

text \<open>A sum over a dict is a sum over its keys.\<close>

lemma sum_list_dict_keys:
  fixes f :: "'k \<Rightarrow> 'v \<Rightarrow> int"
  assumes "dict_keys_ok d"
  shows "sum_list (map (\<lambda>(k, v). f k v) d) = (\<Sum>k \<in> fst ` set d. f k (the (dict_get d k)))"
proof -
  have "sum_list (map (\<lambda>(k, v). f k v) d) = (\<Sum>(k, v) \<in> set d. f k v)"
    using assms by (intro sum_list_distinct_conv_sum_set) (simp add: distinct_map)
  also have "\<dots> = (\<Sum>p \<in> set d. f (fst p) (the (dict_get d (fst p))))"
    using assms by (intro sum.cong) auto
  also have "\<dots> = (\<Sum>k \<in> fst ` set d. f k (the (dict_get d k)))"
    using assms by (subst sum.reindex) (auto simp: distinct_map)
  finally show ?thesis .
qed

section \<open>JSON values and decimal printing\<close>

text \<open>A document \<open>json.loads\<close> returned. \<open>type(x) is int\<close> holds of \<open>JInt\<close> only: a Python bool is not.
  Python's decoder also reads \<open>Infinity\<close>, \<open>-Infinity\<close> and \<open>NaN\<close>, and \<open>1e400\<close> as an infinity.\<close>

datatype json =
    JNull
  | JBool bool
  | JInt int
  | JFloat rat
  | JPosInf
  | JNegInf
  | JNaN
  | JStr string
  | JList "json list"
  | JObj "(string, json) dict"

text \<open>\<open>str(n)\<close> of an int.\<close>

fun str_nat :: "nat \<Rightarrow> string" where
  "str_nat n = (if n < 10 then [char_of (48 + n)] else str_nat (n div 10) @ [char_of (48 + n mod 10)])"

definition str_int :: "int \<Rightarrow> string" where
  "str_int i = (if i < 0 then CHR ''-'' # str_nat (nat (- i)) else str_nat (nat i))"

definition nat_str :: "string \<Rightarrow> nat" where
  "nat_str s = foldl (\<lambda>n c. 10 * n + (of_char c - 48)) 0 s"

declare str_nat.simps [simp del]

lemma nat_str_str_nat: "nat_str (str_nat n) = n"
proof (induction n rule: str_nat.induct)
  case (1 n)
  have digit: "of_char (char_of (48 + k) :: char) - 48 = k" if "k < 10" for k :: nat
    using that by (simp add: of_char_of)
  show ?case
  proof (cases "n < 10")
    case True
    then show ?thesis by (subst str_nat.simps) (simp add: nat_str_def digit)
  next
    case False
    then have "nat_str (str_nat n) = 10 * nat_str (str_nat (n div 10)) + n mod 10"
      by (subst str_nat.simps) (simp add: nat_str_def digit)
    also have "\<dots> = n" using 1 False by simp
    finally show ?thesis .
  qed
qed

lemma str_nat_inject [simp]: "str_nat m = str_nat n \<longleftrightarrow> m = n"
  by (metis nat_str_str_nat)

lemmas py_builtin_defs = char_lower_def str_lower_def rstrip_slash_def is_space_def
  str_strip_def starts_with_def str_or_def truthy_str_def py_prefix_def sorted_desc_def
  max_default_def py_int_def math_ceil_def total_seconds_def

declare py_builtin_defs [py_defs]

end
