(* ===== verification/Fair_Capacity.thy ===== *)
theory Fair_Capacity
  imports Prelude
begin

text \<open>
  \<open>src/ucloud_sandboxes/admission.py\<close>: the FIFO capacity queue \<open>FairCapacity\<close> and the
  reentrant mutex \<open>FairRLock\<close> built on it. Every method of \<open>FairCapacity\<close> is a sequence of
  sections under one condition lock, so each section is one function on the state:
  \<open>acquire\<close> up to its wait is \<open>acquire_enter\<close>, its normal return after the wait is
  \<open>acquire_resume\<close> and its exception handler is \<open>acquire_abort\<close>. A blocked call may
  resume at any time (its timeout is over-approximated), and any interleaving of sections of any
  number of callers is a run of the step relation \<open>fc_step\<close>.
\<close>

section \<open>FairCapacity\<close>

text \<open>
  A ticket is an object shared by its caller and the deque, so tickets live in a store and are
  passed by reference. \<open>owner\<close> is None or a caller-chosen tag.
\<close>

record Waiter =
  w_weight :: int
  w_owner :: "nat option"
  w_ready :: bool
  w_granted :: bool
  w_cancelled :: bool

record FairCapacity =
  fc_capacity :: int
  fc_available :: int
  fc_waiters :: "nat list"
  fc_tickets :: "nat \<Rightarrow> Waiter"
  fc_next :: nat

datatype capacity_error =
  CapacityNotPositive | WeightExceedsCapacity | ReleasedWithoutReservation

definition new_ticket :: "int \<Rightarrow> nat option \<Rightarrow> Waiter" where
  "new_ticket weight owner =
     \<lparr>w_weight = weight, w_owner = owner, w_ready = False, w_granted = False, w_cancelled = False\<rparr>"

definition new_capacity :: "int \<Rightarrow> capacity_error + FairCapacity" where
  "new_capacity capacity =
     (if capacity < 1 then Inl CapacityNotPositive
      else Inr \<lparr>fc_capacity = capacity, fc_available = capacity, fc_waiters = [],
                fc_tickets = (\<lambda>_. new_ticket 1 None), fc_next = 0\<rparr>)"

text \<open>\<open>_grant_waiters\<close>: pop eligible heads, reserving before notifying.\<close>

fun grant_loop ::
  "int \<Rightarrow> nat list \<Rightarrow> (nat \<Rightarrow> Waiter) \<Rightarrow> int \<times> nat list \<times> (nat \<Rightarrow> Waiter)" where
  "grant_loop available [] tickets = (available, [], tickets)"
| "grant_loop available (t # q) tickets =
     (if w_weight (tickets t) \<le> available
      then grant_loop (available - w_weight (tickets t)) q
             (tickets(t := (tickets t)\<lparr>w_granted := True, w_ready := True\<rparr>))
      else (available, t # q, tickets))"

definition grant_waiters :: "FairCapacity \<Rightarrow> FairCapacity" where
  "grant_waiters fc =
     (case grant_loop (fc_available fc) (fc_waiters fc) (fc_tickets fc) of
        (available, waiters, tickets) \<Rightarrow>
          fc\<lparr>fc_available := available, fc_waiters := waiters, fc_tickets := tickets\<rparr>)"

datatype enter_result = Granted | Refused | Queued nat

definition acquire_enter ::
  "FairCapacity \<Rightarrow> bool \<Rightarrow> int \<Rightarrow> nat option \<Rightarrow> capacity_error + enter_result \<times> FairCapacity" where
  "acquire_enter fc blocking weight owner =
     (if \<not> (0 < weight \<and> weight \<le> fc_capacity fc) then Inl WeightExceedsCapacity
      else if fc_waiters fc = [] \<and> weight \<le> fc_available fc
      then Inr (Granted, fc\<lparr>fc_available := fc_available fc - weight\<rparr>)
      else if \<not> blocking then Inr (Refused, fc)
      else Inr (Queued (fc_next fc),
                fc\<lparr>fc_waiters := fc_waiters fc @ [fc_next fc],
                   fc_tickets := (fc_tickets fc)(fc_next fc := new_ticket weight owner),
                   fc_next := Suc (fc_next fc)\<rparr>))"

definition acquire_resume :: "FairCapacity \<Rightarrow> nat \<Rightarrow> bool \<times> FairCapacity" where
  "acquire_resume fc t =
     (if w_granted (fc_tickets fc t) then (True, fc)
      else (False,
            grant_waiters
              (if \<not> w_cancelled (fc_tickets fc t)
               then fc\<lparr>fc_waiters := remove1 t (fc_waiters fc)\<rparr> else fc)))"

definition acquire_abort :: "FairCapacity \<Rightarrow> nat \<Rightarrow> FairCapacity" where
  "acquire_abort fc t =
     grant_waiters
       (if w_granted (fc_tickets fc t)
        then fc\<lparr>fc_available := fc_available fc + w_weight (fc_tickets fc t)\<rparr>
        else if t \<in> set (fc_waiters fc) then fc\<lparr>fc_waiters := remove1 t (fc_waiters fc)\<rparr>
        else fc)"

definition release :: "FairCapacity \<Rightarrow> int \<Rightarrow> capacity_error + FairCapacity" where
  "release fc weight =
     (if weight \<le> 0 \<or> fc_capacity fc < fc_available fc + weight
      then Inl ReleasedWithoutReservation
      else Inr (grant_waiters (fc\<lparr>fc_available := fc_available fc + weight\<rparr>)))"

fun cancel_loop :: "nat list \<Rightarrow> FairCapacity \<Rightarrow> FairCapacity" where
  "cancel_loop [] fc = fc"
| "cancel_loop (t # ts) fc =
     cancel_loop ts
       (fc\<lparr>fc_waiters := remove1 t (fc_waiters fc),
           fc_tickets := (fc_tickets fc)
             (t := (fc_tickets fc t)\<lparr>w_cancelled := True, w_ready := True\<rparr>)\<rparr>)"

definition cancel_waiters :: "FairCapacity \<Rightarrow> nat option \<Rightarrow> int \<times> FairCapacity" where
  "cancel_waiters fc owner =
     (let selected = filter (\<lambda>t. owner = None \<or> w_owner (fc_tickets fc t) = owner) (fc_waiters fc)
      in (int (length selected), grant_waiters (cancel_loop selected fc)))"

section \<open>What the grant loop does\<close>

definition mark_granted :: "nat list \<Rightarrow> (nat \<Rightarrow> Waiter) \<Rightarrow> nat \<Rightarrow> Waiter" where
  "mark_granted g f t = (if t \<in> set g then (f t)\<lparr>w_granted := True, w_ready := True\<rparr> else f t)"

definition weights :: "(nat \<Rightarrow> Waiter) \<Rightarrow> nat list \<Rightarrow> int" where
  "weights f g = sum_list (map (\<lambda>t. w_weight (f t)) g)"

lemma weights_simps [simp]:
  "weights f [] = 0" "weights f (t # g) = w_weight (f t) + weights f g"
  by (simp_all add: weights_def)

lemma weights_cong: "(\<And>t. t \<in> set g \<Longrightarrow> w_weight (f t) = w_weight (f' t)) \<Longrightarrow> weights f g = weights f' g"
  unfolding weights_def by (intro arg_cong [where f = sum_list] map_cong) auto

lemma mark_granted_sel [simp]:
  "w_weight (mark_granted g f t) = w_weight (f t)"
  "w_granted (mark_granted g f t) \<longleftrightarrow> t \<in> set g \<or> w_granted (f t)"
  "w_cancelled (mark_granted g f t) = w_cancelled (f t)"
  "w_owner (mark_granted g f t) = w_owner (f t)"
  by (simp_all add: mark_granted_def)

lemma mark_granted_Nil [simp]: "mark_granted [] f = f"
  by (rule ext) (simp add: mark_granted_def)

text \<open>
  The loop grants exactly the longest prefix of the queue whose weights fit one after another:
  order is kept, nobody is skipped, and the remaining head does not fit.
\<close>

lemma grant_loop_prefix:
  assumes "distinct q"
  shows "\<exists>g q'. q = g @ q'
     \<and> grant_loop a q f = (a - weights f g, q', mark_granted g f)
     \<and> (q' = [] \<or> a - weights f g < w_weight (f (hd q')))
     \<and> (0 \<le> a \<longrightarrow> 0 \<le> a - weights f g)"
  using assms
proof (induction a q f rule: grant_loop.induct)
  case (1 a f)
  then show ?case by simp
next
  case (2 a t q f)
  show ?case
  proof (cases "w_weight (f t) \<le> a")
    case True
    let ?f = "f(t := (f t)\<lparr>w_granted := True, w_ready := True\<rparr>)"
    let ?a = "a - w_weight (f t)"
    from 2 True obtain g q' where IH: "q = g @ q'"
      "grant_loop ?a q ?f = (?a - weights ?f g, q', mark_granted g ?f)"
      "q' = [] \<or> ?a - weights ?f g < w_weight (?f (hd q'))"
      "0 \<le> ?a \<longrightarrow> 0 \<le> ?a - weights ?f g"
      by (metis distinct.simps(2))
    have notin: "t \<notin> set g" "t \<notin> set q'" using 2(2) IH(1) by auto
    have w: "weights ?f g = weights f g" using notin by (intro weights_cong) auto
    have m: "mark_granted g ?f = mark_granted (t # g) f"
      using notin by (auto simp: mark_granted_def)
    have h: "w_weight (?f x) = w_weight (f x)" for x by simp
    have "grant_loop a (t # q) f = (a - weights f (t # g), q', mark_granted (t # g) f)"
      using IH(2) True by (simp add: w m)
    moreover have "q' = [] \<or> a - weights f (t # g) < w_weight (f (hd q'))"
      using IH(3) unfolding w h by (simp add: algebra_simps)
    moreover have "0 \<le> a - weights f (t # g)"
      using IH(4) True by (simp add: w)
    ultimately show ?thesis
      using IH(1) by (intro exI [of _ "t # g"] exI [of _ q']) simp
  next
    case False
    then show ?thesis by (intro exI [of _ "[]"] exI [of _ "t # q"]) simp
  qed
qed

lemma grant_waiters_prefix:
  assumes "distinct (fc_waiters fc)"
  obtains g q' where "fc_waiters fc = g @ q'"
    and "grant_waiters fc = fc\<lparr>
           fc_available := fc_available fc - weights (fc_tickets fc) g,
           fc_waiters := q', fc_tickets := mark_granted g (fc_tickets fc)\<rparr>"
    and "q' = [] \<or> fc_available (grant_waiters fc) < w_weight (fc_tickets fc (hd q'))"
    and "0 \<le> fc_available fc \<Longrightarrow> 0 \<le> fc_available (grant_waiters fc)"
proof -
  from grant_loop_prefix [OF assms, of "fc_available fc" "fc_tickets fc"]
  obtain g q' where *: "fc_waiters fc = g @ q'"
    "grant_loop (fc_available fc) (fc_waiters fc) (fc_tickets fc)
       = (fc_available fc - weights (fc_tickets fc) g, q',
          mark_granted g (fc_tickets fc))"
    "q' = [] \<or> fc_available fc - weights (fc_tickets fc) g
                 < w_weight (fc_tickets fc (hd q'))"
    "0 \<le> fc_available fc \<longrightarrow> 0 \<le> fc_available fc - weights (fc_tickets fc) g"
    by blast
  show thesis by (rule that [of g q']) (use * in \<open>simp_all add: grant_waiters_def\<close>)
qed

lemma cancel_loop_eq:
  "distinct ts \<Longrightarrow> cancel_loop ts fc = fc\<lparr>
     fc_waiters := fold remove1 ts (fc_waiters fc),
     fc_tickets := (\<lambda>t. if t \<in> set ts
        then (fc_tickets fc t)\<lparr>w_cancelled := True, w_ready := True\<rparr> else fc_tickets fc t)\<rparr>"
  by (induction ts arbitrary: fc) (auto simp: fun_eq_iff)

lemma fold_remove1_filter:
  "distinct xs \<Longrightarrow> fold remove1 (filter P xs) xs = filter (\<lambda>x. \<not> P x) xs"
proof -
  have "distinct ys \<Longrightarrow> fold remove1 zs ys = filter (\<lambda>x. x \<notin> set zs) ys" for zs ys :: "'a list"
    by (induction zs arbitrary: ys) (auto simp: distinct_remove1_removeAll removeAll_filter_not_eq
        intro!: filter_cong)
  then show "distinct xs \<Longrightarrow> ?thesis" by (auto intro!: filter_cong)
qed

section \<open>Any number of callers\<close>

text \<open>
  \<open>sys_pending\<close> are the tickets of \<open>acquire\<close> calls that have not returned and
  \<open>sys_holds\<close> the weights that calls returned True for and nobody released yet.
\<close>

record fc_sys =
  sys_fc :: FairCapacity
  sys_pending :: "nat list"
  sys_holds :: "int list"

definition init_sys :: "FairCapacity \<Rightarrow> fc_sys" where
  "init_sys fc = \<lparr>sys_fc = fc, sys_pending = [], sys_holds = []\<rparr>"

text \<open>
  The label says what a section does for its caller: an \<open>acquire\<close> that returns True hands out
  capacity, \<open>release\<close> takes it back, everything else is internal to the queue.
\<close>

datatype fc_label = Hand_Out | Take_Back | Internal

inductive fc_step :: "fc_sys \<Rightarrow> fc_label \<Rightarrow> fc_sys \<Rightarrow> bool" where
  enter_granted: "acquire_enter (sys_fc s) blocking w owner = Inr (Granted, fc) \<Longrightarrow>
     fc_step s Hand_Out (s\<lparr>sys_fc := fc, sys_holds := w # sys_holds s\<rparr>)"
| enter_refused: "acquire_enter (sys_fc s) blocking w owner = Inr (Refused, fc) \<Longrightarrow>
     fc_step s Internal (s\<lparr>sys_fc := fc\<rparr>)"
| enter_queued: "acquire_enter (sys_fc s) blocking w owner = Inr (Queued t, fc) \<Longrightarrow>
     fc_step s Internal (s\<lparr>sys_fc := fc, sys_pending := t # sys_pending s\<rparr>)"
| resume_granted: "t \<in> set (sys_pending s) \<Longrightarrow> acquire_resume (sys_fc s) t = (True, fc) \<Longrightarrow>
     fc_step s Hand_Out (s\<lparr>sys_fc := fc, sys_pending := remove1 t (sys_pending s),
                  sys_holds := w_weight (fc_tickets (sys_fc s) t) # sys_holds s\<rparr>)"
| resume_failed: "t \<in> set (sys_pending s) \<Longrightarrow> acquire_resume (sys_fc s) t = (False, fc) \<Longrightarrow>
     fc_step s Internal (s\<lparr>sys_fc := fc, sys_pending := remove1 t (sys_pending s)\<rparr>)"
| abort: "t \<in> set (sys_pending s) \<Longrightarrow>
     fc_step s Internal (s\<lparr>sys_fc := acquire_abort (sys_fc s) t, sys_pending := remove1 t (sys_pending s)\<rparr>)"
| released: "w \<in> set (sys_holds s) \<Longrightarrow> release (sys_fc s) w = Inr fc \<Longrightarrow>
     fc_step s Take_Back (s\<lparr>sys_fc := fc, sys_holds := remove1 w (sys_holds s)\<rparr>)"
| cancelled: "cancel_waiters (sys_fc s) owner = (n, fc) \<Longrightarrow> fc_step s Internal (s\<lparr>sys_fc := fc\<rparr>)"

inductive fc_reachable :: "int \<Rightarrow> fc_sys \<Rightarrow> bool" for capacity where
  start: "new_capacity capacity = Inr fc \<Longrightarrow> fc_reachable capacity (init_sys fc)"
| step: "fc_reachable capacity s \<Longrightarrow> fc_step s l s' \<Longrightarrow> fc_reachable capacity s'"

section \<open>The invariant\<close>

definition granted_sum :: "(nat \<Rightarrow> Waiter) \<Rightarrow> nat list \<Rightarrow> int" where
  "granted_sum f ts = sum_list (map (\<lambda>t. if w_granted (f t) then w_weight (f t) else 0) ts)"

text \<open>
  \<open>fc_core\<close> holds at every point under the lock; \<open>fc_inv\<close> adds what holds between
  sections: the head of the queue does not fit, so no wakeup is lost.
\<close>

definition fc_core :: "fc_sys \<Rightarrow> bool" where
  "fc_core s \<longleftrightarrow>
     (let fc = sys_fc s; f = fc_tickets fc in
        0 \<le> fc_available fc \<and> distinct (fc_waiters fc) \<and> distinct (sys_pending s)
        \<and> set (fc_waiters fc) \<subseteq> set (sys_pending s)
        \<and> (\<forall>t \<in> set (sys_pending s). t < fc_next fc \<and> 0 < w_weight (f t)
             \<and> (t \<in> set (fc_waiters fc) \<longleftrightarrow> \<not> w_granted (f t) \<and> \<not> w_cancelled (f t)))
        \<and> (\<forall>w \<in> set (sys_holds s). 0 < w)
        \<and> fc_available fc + sum_list (sys_holds s) + granted_sum f (sys_pending s)
            = fc_capacity fc)"

definition head_blocked :: "FairCapacity \<Rightarrow> bool" where
  "head_blocked fc \<longleftrightarrow>
     fc_waiters fc = [] \<or> fc_available fc < w_weight (fc_tickets fc (hd (fc_waiters fc)))"

definition fc_inv :: "fc_sys \<Rightarrow> bool" where
  "fc_inv s \<longleftrightarrow> fc_core s \<and> head_blocked (sys_fc s)"

lemma granted_sum_cong:
  "(\<And>t. t \<in> set ts \<Longrightarrow> w_weight (f t) = w_weight (f' t) \<and> w_granted (f t) = w_granted (f' t)) \<Longrightarrow>
     granted_sum f ts = granted_sum f' ts"
  unfolding granted_sum_def by (intro arg_cong [where f = sum_list] map_cong) auto

lemma granted_sum_nonneg: "\<forall>t \<in> set ts. 0 < w_weight (f t) \<Longrightarrow> 0 \<le> granted_sum f ts"
  unfolding granted_sum_def by (rule sum_list_nonneg) auto

lemma granted_sum_remove:
  "t \<in> set ts \<Longrightarrow> granted_sum f ts =
     (if w_granted (f t) then w_weight (f t) else 0) + granted_sum f (remove1 t ts)"
  unfolding granted_sum_def by (rule sum_list_map_remove1)

lemma granted_sum_mark:
  assumes "distinct ts" "distinct g" "set g \<subseteq> set ts" "\<forall>t \<in> set g. \<not> w_granted (f t)"
  shows "granted_sum (mark_granted g f) ts = granted_sum f ts + weights f g"
proof -
  have "granted_sum (mark_granted g f) ts
      = (\<Sum>t \<in> set ts. (if w_granted (f t) then w_weight (f t) else 0)
                       + (if t \<in> set g then w_weight (f t) else 0))"
    unfolding granted_sum_def sum_list_distinct_conv_sum_set [OF assms(1)]
    using assms(4) by (intro sum.cong) auto
  also have "\<dots> = granted_sum f ts + (\<Sum>t \<in> set ts \<inter> set g. w_weight (f t))"
    by (simp add: granted_sum_def sum_list_distinct_conv_sum_set [OF assms(1)] sum.distrib
        sum.inter_restrict)
  also have "set ts \<inter> set g = set g" using assms(3) by auto
  finally show ?thesis
    by (simp add: weights_def sum_list_distinct_conv_sum_set [OF assms(2)])
qed

lemma grant_waiters_inv:
  assumes "fc_core s"
  shows "fc_inv (s\<lparr>sys_fc := grant_waiters (sys_fc s)\<rparr>)"
proof -
  let ?fc = "sys_fc s"
  have d: "distinct (fc_waiters ?fc)" "distinct (sys_pending s)"
    using assms by (auto simp: fc_core_def Let_def)
  from grant_waiters_prefix [OF d(1)] obtain g q' where g: "fc_waiters ?fc = g @ q'"
    "grant_waiters ?fc = ?fc\<lparr>fc_available := fc_available ?fc - weights (fc_tickets ?fc) g,
       fc_waiters := q', fc_tickets := mark_granted g (fc_tickets ?fc)\<rparr>"
    "q' = [] \<or> fc_available (grant_waiters ?fc) < w_weight (fc_tickets ?fc (hd q'))"
    "0 \<le> fc_available ?fc \<Longrightarrow> 0 \<le> fc_available (grant_waiters ?fc)" by blast
  have sub: "set g \<subseteq> set (sys_pending s)" "\<forall>t \<in> set g. \<not> w_granted (fc_tickets ?fc t)"
    using assms g(1) by (auto simp: fc_core_def Let_def)
  have sum: "granted_sum (mark_granted g (fc_tickets ?fc)) (sys_pending s)
      = granted_sum (fc_tickets ?fc) (sys_pending s) + weights (fc_tickets ?fc) g"
    using granted_sum_mark [OF d(2) _ sub] d(1) g(1) by simp
  have "0 \<le> fc_available (grant_waiters ?fc)"
    using assms g(4) by (simp add: fc_core_def Let_def)
  moreover have "set q' \<inter> set g = {}" using d(1) g(1) by auto
  ultimately have "fc_core (s\<lparr>sys_fc := grant_waiters ?fc\<rparr>)"
    using assms g(1,2) sum by (auto simp: fc_core_def Let_def)
  moreover have "head_blocked (grant_waiters ?fc)"
    using g(2,3) by (auto simp: head_blocked_def)
  ultimately show ?thesis by (simp add: fc_inv_def)
qed

lemma grant_waiters_inv_eq:
  assumes "fc_core s" "sys_fc s' = grant_waiters (sys_fc s)" "sys_pending s' = sys_pending s"
    and "sys_holds s' = sys_holds s"
  shows "fc_inv s'"
proof -
  have "s' = s\<lparr>sys_fc := grant_waiters (sys_fc s)\<rparr>"
    using assms(2-4) by (cases s; cases s') simp
  then show ?thesis using grant_waiters_inv [OF assms(1)] by simp
qed

lemma granted_sum_Cons [simp]:
  "granted_sum f (t # ts) = (if w_granted (f t) then w_weight (f t) else 0) + granted_sum f ts"
  by (simp add: granted_sum_def)

lemma fc_coreI_remove:
  assumes "fc_core s" "t \<in> set (sys_pending s)" "\<not> w_granted (fc_tickets (sys_fc s) t)"
  shows "fc_core (s\<lparr>sys_fc := (sys_fc s)\<lparr>fc_waiters := remove1 t (fc_waiters (sys_fc s))\<rparr>,
                   sys_pending := remove1 t (sys_pending s)\<rparr>)"
  using assms granted_sum_remove [OF assms(2), of "fc_tickets (sys_fc s)"]
  by (auto simp: fc_core_def Let_def)

lemma remove1_absent: "t \<notin> set xs \<Longrightarrow> remove1 t xs = xs"
  by (rule remove1_idem)

lemma enter_queued_inv:
  assumes "fc_inv s" "acquire_enter (sys_fc s) blocking w owner = Inr (Queued t, fc)"
  shows "fc_inv (s\<lparr>sys_fc := fc, sys_pending := t # sys_pending s\<rparr>)"
proof -
  have t: "t = fc_next (sys_fc s)" "0 < w" "fc_waiters (sys_fc s) \<noteq> [] \<or> fc_available (sys_fc s) < w"
    and fc: "fc = (sys_fc s)\<lparr>fc_waiters := fc_waiters (sys_fc s) @ [t],
       fc_tickets := (fc_tickets (sys_fc s))(t := new_ticket w owner), fc_next := Suc t\<rparr>"
    using assms(2) by (auto simp: acquire_enter_def split: if_splits)
  have fresh: "t \<notin> set (sys_pending s)" "t \<notin> set (fc_waiters (sys_fc s))"
    using assms(1) t(1) by (auto simp: fc_inv_def fc_core_def Let_def)
  have "granted_sum (fc_tickets fc) (sys_pending s)
      = granted_sum (fc_tickets (sys_fc s)) (sys_pending s)"
    using fresh by (intro granted_sum_cong) (auto simp: fc)
  then have sum: "granted_sum (fc_tickets fc) (t # sys_pending s)
      = granted_sum (fc_tickets (sys_fc s)) (sys_pending s)"
    by (simp add: fc new_ticket_def)
  have "fc_core (s\<lparr>sys_fc := fc, sys_pending := t # sys_pending s\<rparr>)"
    using assms(1) fresh t sum
    by (auto simp: fc_inv_def fc_core_def Let_def fc new_ticket_def less_Suc_eq)
  moreover have "head_blocked fc"
    using assms(1) t(3) fresh
    by (cases "fc_waiters (sys_fc s)") (auto simp: fc_inv_def head_blocked_def fc new_ticket_def)
  ultimately show ?thesis by (simp add: fc_inv_def)
qed

lemma resume_failed_inv:
  assumes "fc_inv s" "t \<in> set (sys_pending s)" "acquire_resume (sys_fc s) t = (False, fc)"
  shows "fc_inv (s\<lparr>sys_fc := fc, sys_pending := remove1 t (sys_pending s)\<rparr>)"
proof -
  let ?s = "s\<lparr>sys_fc := (sys_fc s)\<lparr>fc_waiters := remove1 t (fc_waiters (sys_fc s))\<rparr>,
              sys_pending := remove1 t (sys_pending s)\<rparr>"
  have ng: "\<not> w_granted (fc_tickets (sys_fc s) t)"
    using assms(3) by (auto simp: acquire_resume_def split: if_splits)
  have "w_cancelled (fc_tickets (sys_fc s) t) \<Longrightarrow> t \<notin> set (fc_waiters (sys_fc s))"
    using assms(1,2) by (auto simp: fc_inv_def fc_core_def Let_def)
  then have "fc = grant_waiters (sys_fc ?s)"
    using assms(3) ng by (auto simp: acquire_resume_def remove1_absent)
  moreover have "fc_core ?s"
    using assms(1,2) ng by (simp add: fc_coreI_remove fc_inv_def)
  ultimately show ?thesis by (intro grant_waiters_inv_eq [of ?s]) simp_all
qed

lemma abort_inv:
  assumes "fc_inv s" "t \<in> set (sys_pending s)"
  shows "fc_inv (s\<lparr>sys_fc := acquire_abort (sys_fc s) t, sys_pending := remove1 t (sys_pending s)\<rparr>)"
proof (cases "w_granted (fc_tickets (sys_fc s) t)")
  case True
  let ?s = "s\<lparr>sys_fc := (sys_fc s)\<lparr>fc_available := fc_available (sys_fc s)
                + w_weight (fc_tickets (sys_fc s) t)\<rparr>, sys_pending := remove1 t (sys_pending s)\<rparr>"
  have "granted_sum (fc_tickets (sys_fc s)) (sys_pending s) = w_weight (fc_tickets (sys_fc s) t)
      + granted_sum (fc_tickets (sys_fc s)) (remove1 t (sys_pending s))"
    using granted_sum_remove [OF assms(2)] True by simp
  moreover have "0 < w_weight (fc_tickets (sys_fc s) t)" "t \<notin> set (fc_waiters (sys_fc s))"
    using assms True by (auto simp: fc_inv_def fc_core_def Let_def)
  ultimately have "fc_core ?s"
    using assms by (auto simp: fc_inv_def fc_core_def Let_def)
  then show ?thesis by (rule grant_waiters_inv_eq) (simp_all add: True acquire_abort_def)
next
  case False
  let ?s = "s\<lparr>sys_fc := (sys_fc s)\<lparr>fc_waiters := remove1 t (fc_waiters (sys_fc s))\<rparr>,
              sys_pending := remove1 t (sys_pending s)\<rparr>"
  have "acquire_abort (sys_fc s) t = grant_waiters (sys_fc ?s)"
    using False by (simp add: acquire_abort_def remove1_absent)
  moreover have "fc_core ?s" using assms False by (simp add: fc_coreI_remove fc_inv_def)
  ultimately show ?thesis by (intro grant_waiters_inv_eq [of ?s]) simp_all
qed

lemma held_le_capacity:
  assumes "fc_core s" "w \<in> set (sys_holds s)"
  shows "0 < w" "fc_available (sys_fc s) + w \<le> fc_capacity (sys_fc s)"
proof -
  show "0 < w" using assms by (auto simp: fc_core_def Let_def)
  have "0 \<le> sum_list (remove1 w (sys_holds s))"
    using assms(1) set_remove1_subset [of w "sys_holds s"]
    by (intro sum_list_nonneg) (fastforce simp: fc_core_def Let_def)
  moreover have "sum_list (sys_holds s) = w + sum_list (remove1 w (sys_holds s))"
    using sum_list_map_remove1 [OF assms(2), of "\<lambda>x. x"] by simp
  moreover have "0 \<le> granted_sum (fc_tickets (sys_fc s)) (sys_pending s)"
    using assms(1) by (intro granted_sum_nonneg) (auto simp: fc_core_def Let_def)
  ultimately show "fc_available (sys_fc s) + w \<le> fc_capacity (sys_fc s)"
    using assms(1) by (simp add: fc_core_def Let_def)
qed

lemma released_inv:
  assumes "fc_inv s" "w \<in> set (sys_holds s)" "release (sys_fc s) w = Inr fc"
  shows "fc_inv (s\<lparr>sys_fc := fc, sys_holds := remove1 w (sys_holds s)\<rparr>)"
proof -
  let ?s = "s\<lparr>sys_fc := (sys_fc s)\<lparr>fc_available := fc_available (sys_fc s) + w\<rparr>,
              sys_holds := remove1 w (sys_holds s)\<rparr>"
  have "sum_list (sys_holds s) = w + sum_list (remove1 w (sys_holds s))"
    using sum_list_map_remove1 [OF assms(2), of "\<lambda>x. x"] by simp
  then have "fc_core ?s"
    using assms(1) held_le_capacity(1) [of s w] assms(2)
    by (auto simp: fc_inv_def fc_core_def Let_def dest: notin_set_remove1)
  moreover have "fc = grant_waiters (sys_fc ?s)"
    using assms(3) by (auto simp: release_def split: if_splits)
  ultimately show ?thesis by (intro grant_waiters_inv_eq [of ?s]) simp_all
qed

lemma cancelled_inv:
  assumes "fc_inv s" "cancel_waiters (sys_fc s) owner = (n, fc)"
  shows "fc_inv (s\<lparr>sys_fc := fc\<rparr>)"
proof -
  let ?fc = "sys_fc s"
  let ?P = "\<lambda>t. owner = None \<or> w_owner (fc_tickets ?fc t) = owner"
  let ?sel = "filter ?P (fc_waiters ?fc)"
  have d: "distinct (fc_waiters ?fc)" using assms(1) by (simp add: fc_inv_def fc_core_def Let_def)
  have fc: "fc = grant_waiters (cancel_loop ?sel ?fc)"
    using assms(2) by (simp add: cancel_waiters_def Let_def)
  have loop: "cancel_loop ?sel ?fc = ?fc\<lparr>fc_waiters := filter (\<lambda>t. \<not> ?P t) (fc_waiters ?fc),
     fc_tickets := (\<lambda>t. if t \<in> set ?sel
        then (fc_tickets ?fc t)\<lparr>w_cancelled := True, w_ready := True\<rparr> else fc_tickets ?fc t)\<rparr>"
    using d by (simp add: cancel_loop_eq fold_remove1_filter)
  have sum: "granted_sum (fc_tickets (cancel_loop ?sel ?fc)) (sys_pending s)
      = granted_sum (fc_tickets ?fc) (sys_pending s)"
    by (intro granted_sum_cong) (simp add: loop)
  have "fc_core (s\<lparr>sys_fc := cancel_loop ?sel ?fc\<rparr>)"
    using assms(1) sum by (auto simp: fc_inv_def fc_core_def Let_def loop)
  then show ?thesis by (rule grant_waiters_inv_eq) (simp_all add: fc)
qed

lemma fc_step_inv: "fc_step s l s' \<Longrightarrow> fc_inv s \<Longrightarrow> fc_inv s'"
proof (induction rule: fc_step.induct)
  case (enter_granted s blocking w owner fc)
  then have "fc_waiters (sys_fc s) = []" "0 < w" "w \<le> fc_available (sys_fc s)"
    and "fc = (sys_fc s)\<lparr>fc_available := fc_available (sys_fc s) - w\<rparr>"
    by (auto simp: acquire_enter_def split: if_splits)
  with enter_granted(2) show ?case by (simp add: fc_inv_def fc_core_def Let_def head_blocked_def)
next
  case (enter_refused s blocking w owner fc)
  then show ?case by (auto simp: acquire_enter_def split: if_splits)
next
  case (resume_granted t s fc)
  then have "fc = sys_fc s" "w_granted (fc_tickets (sys_fc s) t)"
    by (auto simp: acquire_resume_def split: if_splits)
  moreover from this have "granted_sum (fc_tickets fc) (sys_pending s)
      = w_weight (fc_tickets fc t) + granted_sum (fc_tickets fc) (remove1 t (sys_pending s))"
    using granted_sum_remove [OF resume_granted(1)] by simp
  ultimately have "fc_core (s\<lparr>sys_fc := fc, sys_pending := remove1 t (sys_pending s),
      sys_holds := w_weight (fc_tickets (sys_fc s) t) # sys_holds s\<rparr>)"
    using resume_granted by (auto simp: fc_inv_def fc_core_def Let_def)
  then show ?case using resume_granted(3) \<open>fc = sys_fc s\<close> by (simp add: fc_inv_def)
next
  case enter_queued
  show ?case by (rule enter_queued_inv [OF enter_queued(2) enter_queued(1)])
next
  case resume_failed
  show ?case by (rule resume_failed_inv [OF resume_failed(3) resume_failed(1) resume_failed(2)])
next
  case abort
  show ?case by (rule abort_inv [OF abort(2) abort(1)])
next
  case released
  show ?case by (rule released_inv [OF released(3) released(1) released(2)])
next
  case cancelled
  show ?case by (rule cancelled_inv [OF cancelled(2) cancelled(1)])
qed

lemma grant_waiters_capacity [simp]: "fc_capacity (grant_waiters fc) = fc_capacity fc"
  by (simp add: grant_waiters_def split: prod.split)

lemma cancel_loop_capacity [simp]: "fc_capacity (cancel_loop ts fc) = fc_capacity fc"
  by (induction ts arbitrary: fc) auto

lemma fc_step_capacity: "fc_step s l s' \<Longrightarrow> fc_capacity (sys_fc s') = fc_capacity (sys_fc s)"
  by (induction rule: fc_step.induct)
    (simp_all add: acquire_enter_def acquire_resume_def acquire_abort_def release_def
      cancel_waiters_def Let_def split: if_splits, force+)

lemma fc_reachable_inv:
  "fc_reachable capacity s \<Longrightarrow> fc_inv s \<and> fc_capacity (sys_fc s) = capacity"
proof (induction rule: fc_reachable.induct)
  case (start fc)
  then show ?case
    by (auto simp: init_sys_def new_capacity_def fc_inv_def fc_core_def head_blocked_def
        granted_sum_def Let_def split: if_splits)
next
  case (step s l s')
  then show ?case by (simp add: fc_step_inv fc_step_capacity)
qed

lemma release_held:
  assumes "fc_inv s" "w \<in> set (sys_holds s)"
  shows "\<exists>fc. release (sys_fc s) w = Inr fc"
  using held_le_capacity [of s w] assms by (auto simp: release_def fc_inv_def)

section \<open>FairRLock\<close>

text \<open>
  A thread is outside the lock (perhaps queued), has been handed the unit of capacity but not
  yet written \<open>_owner\<close> and \<open>_depth\<close>, is inside, or has cleared the owner and not yet
  returned the unit. The fields are written outside the condition lock, so these are separate
  steps. The lock is parametric in the labelled steps of the gate it is built on.
\<close>

datatype rl_pc = Outside | Handed | Inside | Leaving

record 'g FairRLock =
  rl_gate :: 'g
  rl_owner :: "nat option"
  rl_depth :: int
  rl_pc :: "nat \<Rightarrow> rl_pc"

inductive rl_step ::
  "('g \<Rightarrow> fc_label \<Rightarrow> 'g \<Rightarrow> bool) \<Rightarrow> 'g FairRLock \<Rightarrow> 'g FairRLock \<Rightarrow> bool" for gate_step where
  reenter: "rl_owner r = Some i \<Longrightarrow>
     rl_step gate_step r (r\<lparr>rl_depth := rl_depth r + 1\<rparr>)"
| queue: "gate_step (rl_gate r) Internal g \<Longrightarrow> rl_step gate_step r (r\<lparr>rl_gate := g\<rparr>)"
| handed: "rl_owner r \<noteq> Some i \<Longrightarrow> rl_pc r i = Outside \<Longrightarrow> gate_step (rl_gate r) Hand_Out g \<Longrightarrow>
     rl_step gate_step r (r\<lparr>rl_gate := g, rl_pc := (rl_pc r)(i := Handed)\<rparr>)"
| own: "rl_pc r i = Handed \<Longrightarrow>
     rl_step gate_step r
       (r\<lparr>rl_owner := Some i, rl_depth := 1, rl_pc := (rl_pc r)(i := Inside)\<rparr>)"
| release_nested: "rl_owner r = Some i \<Longrightarrow> rl_depth r - 1 \<noteq> 0 \<Longrightarrow>
     rl_step gate_step r (r\<lparr>rl_depth := rl_depth r - 1\<rparr>)"
| release_last: "rl_owner r = Some i \<Longrightarrow> rl_depth r - 1 = 0 \<Longrightarrow>
     rl_step gate_step r
       (r\<lparr>rl_owner := None, rl_depth := rl_depth r - 1, rl_pc := (rl_pc r)(i := Leaving)\<rparr>)"
| give_back: "rl_pc r i = Leaving \<Longrightarrow> gate_step (rl_gate r) Take_Back g \<Longrightarrow>
     rl_step gate_step r (r\<lparr>rl_gate := g, rl_pc := (rl_pc r)(i := Outside)\<rparr>)"

definition rl_init :: "'g \<Rightarrow> 'g FairRLock" where
  "rl_init g = \<lparr>rl_gate = g, rl_owner = None, rl_depth = 0, rl_pc = (\<lambda>_. Outside)\<rparr>"

inductive rl_reachable ::
  "('g \<Rightarrow> fc_label \<Rightarrow> 'g \<Rightarrow> bool) \<Rightarrow> 'g \<Rightarrow> 'g FairRLock \<Rightarrow> bool" for gate_step g where
  start: "rl_reachable gate_step g (rl_init g)"
| step: "rl_reachable gate_step g r \<Longrightarrow> rl_step gate_step r r' \<Longrightarrow> rl_reachable gate_step g r'"

text \<open>
  What the lock relies on: the gate hands out at most one unit at a time, accounts for it
  exactly, and takes a unit back whenever one is out.
\<close>

locale unit_gate =
  fixes gate_step :: "'g \<Rightarrow> fc_label \<Rightarrow> 'g \<Rightarrow> bool"
    and gate_ok :: "'g \<Rightarrow> bool"
    and units_out :: "'g \<Rightarrow> nat"
  assumes gate_bound: "gate_ok g \<Longrightarrow> units_out g \<le> 1"
    and gate_keeps: "gate_ok g \<Longrightarrow> gate_step g l g' \<Longrightarrow> gate_ok g'"
    and gate_hand_out: "gate_ok g \<Longrightarrow> gate_step g Hand_Out g' \<Longrightarrow> units_out g' = units_out g + 1"
    and gate_take_back: "gate_ok g \<Longrightarrow> gate_step g Take_Back g' \<Longrightarrow> units_out g' + 1 = units_out g"
    and gate_internal: "gate_ok g \<Longrightarrow> gate_step g Internal g' \<Longrightarrow> units_out g' = units_out g"
    and gate_accepts: "gate_ok g \<Longrightarrow> 0 < units_out g \<Longrightarrow> \<exists>g'. gate_step g Take_Back g'"
begin

definition all_outside :: "'g FairRLock \<Rightarrow> bool" where
  "all_outside r \<longleftrightarrow> units_out (rl_gate r) = 0 \<and> rl_owner r = None \<and> rl_pc r = (\<lambda>_. Outside)"

definition one_active :: "'g FairRLock \<Rightarrow> nat \<Rightarrow> bool" where
  "one_active r i \<longleftrightarrow> units_out (rl_gate r) = 1 \<and> rl_pc r i \<noteq> Outside
     \<and> (\<forall>j. j \<noteq> i \<longrightarrow> rl_pc r j = Outside)
     \<and> rl_owner r = (if rl_pc r i = Inside then Some i else None)
     \<and> (rl_pc r i = Inside \<longrightarrow> 1 \<le> rl_depth r)"

definition rl_inv :: "'g FairRLock \<Rightarrow> bool" where
  "rl_inv r \<longleftrightarrow> gate_ok (rl_gate r) \<and> (all_outside r \<or> (\<exists>i. one_active r i))"

lemma active_thread: "rl_inv r \<Longrightarrow> rl_pc r i \<noteq> Outside \<Longrightarrow> one_active r i"
  unfolding rl_inv_def all_outside_def one_active_def by metis

lemma owner_inside: "rl_inv r \<Longrightarrow> rl_owner r = Some i \<Longrightarrow> rl_pc r i = Inside \<and> one_active r i"
  unfolding rl_inv_def all_outside_def one_active_def by (auto split: if_splits)

lemma rl_step_inv:
  assumes "rl_step gate_step r r'" "rl_inv r"
  shows "rl_inv r'"
  using assms
proof (induction rule: rl_step.induct)
  case (handed r i g)
  have out: "units_out g = units_out (rl_gate r) + 1" "gate_ok g"
    using handed gate_hand_out gate_keeps by (auto simp: rl_inv_def)
  with gate_bound [of g] have "units_out (rl_gate r) = 0" by simp
  with handed(4) have "all_outside r" by (auto simp: rl_inv_def one_active_def)
  with out have "one_active (r\<lparr>rl_gate := g, rl_pc := (rl_pc r)(i := Handed)\<rparr>) i"
    by (simp add: all_outside_def one_active_def)
  with out(2) show ?case by (auto simp: rl_inv_def)
next
  case (give_back r i g)
  have out: "units_out g + 1 = units_out (rl_gate r)" "gate_ok g"
    using give_back gate_take_back gate_keeps by (auto simp: rl_inv_def)
  have act: "one_active r i" using give_back by (simp add: active_thread)
  have "(rl_pc r)(i := Outside) = (\<lambda>_. Outside)"
    using act by (auto simp: one_active_def)
  with out act give_back(1) show ?case by (auto simp: rl_inv_def all_outside_def one_active_def)
next
  case (queue r g)
  then have "units_out g = units_out (rl_gate r)" "gate_ok g"
    using gate_internal gate_keeps by (auto simp: rl_inv_def)
  with queue(2) show ?case by (auto simp: rl_inv_def all_outside_def one_active_def)
next
  case (own r i)
  then have "one_active (r\<lparr>rl_owner := Some i, rl_depth := 1, rl_pc := (rl_pc r)(i := Inside)\<rparr>) i"
    using active_thread [OF own(2), of i] by (simp add: one_active_def)
  with own(2) show ?case by (auto simp: rl_inv_def)
next
  case (release_last r i)
  then have "one_active (r\<lparr>rl_owner := None, rl_depth := rl_depth r - 1,
      rl_pc := (rl_pc r)(i := Leaving)\<rparr>) i"
    using owner_inside [OF release_last(3,1)] by (simp add: one_active_def)
  with release_last(3) show ?case by (auto simp: rl_inv_def)
next
  case (reenter r i)
  then have "one_active (r\<lparr>rl_depth := rl_depth r + 1\<rparr>) i"
    using owner_inside [OF reenter(2,1)] by (auto simp: one_active_def)
  with reenter(2) show ?case by (auto simp: rl_inv_def)
next
  case (release_nested r i)
  then have "one_active (r\<lparr>rl_depth := rl_depth r - 1\<rparr>) i"
    using owner_inside [OF release_nested(3,1)] by (auto simp: one_active_def)
  with release_nested(3) show ?case by (auto simp: rl_inv_def)
qed

lemma rl_reachable_inv:
  "rl_reachable gate_step g r \<Longrightarrow> gate_ok g \<Longrightarrow> units_out g = 0 \<Longrightarrow> rl_inv r"
proof (induction rule: rl_reachable.induct)
  case start
  then show ?case by (simp add: rl_inv_def rl_init_def all_outside_def)
next
  case (step r r')
  then show ?case by (blast intro: rl_step_inv)
qed

lemma mutual_exclusion:
  assumes "rl_reachable gate_step g r" "gate_ok g" "units_out g = 0"
    and "rl_pc r i = Inside" "rl_pc r j = Inside"
  shows "i = j"
  using active_thread [OF rl_reachable_inv [OF assms(1-3)], of i] assms(4,5)
  by (auto simp: one_active_def)

lemma inside_owns:
  assumes "rl_reachable gate_step g r" "gate_ok g" "units_out g = 0"
  shows "rl_owner r = Some i \<longleftrightarrow> rl_pc r i = Inside" "rl_owner r = Some i \<Longrightarrow> 1 \<le> rl_depth r"
proof -
  note inv = rl_reachable_inv [OF assms]
  have "rl_pc r i = Inside \<Longrightarrow> rl_owner r = Some i"
    using active_thread [OF inv, of i] by (simp add: one_active_def)
  then show "rl_owner r = Some i \<longleftrightarrow> rl_pc r i = Inside"
    using owner_inside [OF inv, of i] by blast
  show "1 \<le> rl_depth r" if "rl_owner r = Some i"
    using owner_inside [OF inv that] by (simp add: one_active_def)
qed

lemma leaving_returns:
  assumes "rl_reachable gate_step g r" "gate_ok g" "units_out g = 0" "rl_pc r i = Leaving"
  shows "\<exists>g'. gate_step (rl_gate r) Take_Back g'"
proof -
  note inv = rl_reachable_inv [OF assms(1-3)]
  have "one_active r i" using active_thread [OF inv] assms(4) by simp
  with inv show ?thesis by (intro gate_accepts) (auto simp: rl_inv_def one_active_def)
qed

end

text \<open>A \<open>FairCapacity(1)\<close> is such a gate.\<close>

definition fc_unit_ok :: "fc_sys \<Rightarrow> bool" where
  "fc_unit_ok s \<longleftrightarrow> fc_inv s \<and> fc_capacity (sys_fc s) = 1"

lemma length_le_sum_list:
  "\<forall>w \<in> set ws. (0 :: int) < w \<Longrightarrow> int (length ws) \<le> sum_list ws"
  by (induction ws) auto

lemma fc_unit_holds:
  assumes "fc_unit_ok s"
  shows "sys_holds s = [] \<or> sys_holds s = [1]"
proof -
  have pos: "\<forall>w \<in> set (sys_holds s). 0 < w" and le: "sum_list (sys_holds s) \<le> 1"
    using assms granted_sum_nonneg [of "sys_pending s" "fc_tickets (sys_fc s)"]
    by (auto simp: fc_unit_ok_def fc_inv_def fc_core_def Let_def)
  with length_le_sum_list [OF pos] have "length (sys_holds s) \<le> 1" by linarith
  with pos le show ?thesis by (cases "sys_holds s") auto
qed

lemma length_remove1_Suc: "x \<in> set xs \<Longrightarrow> Suc (length (remove1 x xs)) = length xs"
  by (induction xs) auto

inductive_cases hand_outE: "fc_step s Hand_Out s'"
inductive_cases take_backE: "fc_step s Take_Back s'"
inductive_cases internalE: "fc_step s Internal s'"

interpretation fc_gate: unit_gate fc_step fc_unit_ok "\<lambda>s. length (sys_holds s)"
proof unfold_locales
  fix s l s'
  show "length (sys_holds s) \<le> 1" if "fc_unit_ok s"
    using fc_unit_holds [OF that] by auto
  show "fc_unit_ok s'" if "fc_unit_ok s" "fc_step s l s'"
    using that by (simp add: fc_unit_ok_def fc_step_inv fc_step_capacity)
  show "length (sys_holds s') = length (sys_holds s) + 1" if "fc_step s Hand_Out s'"
    using that by (auto elim: hand_outE)
  show "length (sys_holds s') + 1 = length (sys_holds s)" if "fc_step s Take_Back s'"
    using that by (auto elim!: take_backE simp: length_remove1_Suc simp del: length_remove1)
  show "length (sys_holds s') = length (sys_holds s)" if "fc_step s Internal s'"
    using that by (auto elim: internalE)
  show "\<exists>s'. fc_step s Take_Back s'" if "fc_unit_ok s" "0 < length (sys_holds s)"
  proof -
    have "1 \<in> set (sys_holds s)" using fc_unit_holds [OF that(1)] that(2) by auto
    with release_held [of s 1] that(1) show ?thesis
      by (auto simp: fc_unit_ok_def intro: fc_step.released)
  qed
qed

section \<open>Order\<close>

definition before :: "nat list \<Rightarrow> nat \<Rightarrow> nat \<Rightarrow> bool" where
  "before q t u \<longleftrightarrow> (\<exists>as bs. q = as @ t # bs \<and> u \<in> set bs)"

lemma before_append: "before q t u \<Longrightarrow> before (q @ r) t u"
  by (fastforce simp: before_def)

lemma before_filter: "before q t u \<Longrightarrow> P t \<Longrightarrow> P u \<Longrightarrow> before (filter P q) t u"
  by (fastforce simp: before_def)

lemma before_suffix:
  assumes "before (g @ q) t u" "distinct (g @ q)" "t \<in> set q"
  shows "u \<in> set q"
proof -
  from assms(1) obtain as bs where e: "g @ q = as @ t # bs" "u \<in> set bs"
    by (auto simp: before_def)
  from assms(3) obtain cs ds where q: "q = cs @ t # ds" by (meson split_list)
  have "(g @ cs) @ t # ds = as @ t # bs" using e(1) q by simp
  moreover have "t \<notin> set (g @ cs)" "t \<notin> set ds" using assms(2) unfolding q by auto
  ultimately have "bs = ds" by (metis append_Cons_eq_iff)
  then show ?thesis using e(2) q by simp
qed

lemma before_remove1:
  assumes "before q t u" "t \<noteq> x" "u \<noteq> x" "distinct q"
  shows "before (remove1 x q) t u"
  using before_filter [OF assms(1), of "\<lambda>y. x \<noteq> y"] assms(2-4)
  by (simp add: distinct_remove1_removeAll removeAll_filter_not_eq)

text \<open>If a ticket is still queued after the grant loop, the loop granted nobody behind it.\<close>

lemma grant_waiters_order:
  assumes "distinct (fc_waiters fc)" "u \<in> set (fc_waiters fc) \<Longrightarrow> before (fc_waiters fc) t u"
    and "t \<in> set (fc_waiters (grant_waiters fc))"
  shows "w_granted (fc_tickets (grant_waiters fc) u) \<longleftrightarrow> w_granted (fc_tickets fc u)"
    and "t \<in> set (fc_waiters fc)"
proof -
  from grant_waiters_prefix [OF assms(1)] obtain g q where gq: "fc_waiters fc = g @ q"
    "grant_waiters fc = fc\<lparr>fc_available := fc_available fc - weights (fc_tickets fc) g,
       fc_waiters := q, fc_tickets := mark_granted g (fc_tickets fc)\<rparr>" by blast
  have t: "t \<in> set q" using assms(3) gq(2) by simp
  have "u \<notin> set g"
    using before_suffix [of g q t u] assms(1,2) gq(1) t by auto
  then show "w_granted (fc_tickets (grant_waiters fc) u) \<longleftrightarrow> w_granted (fc_tickets fc u)"
    using gq(2) by simp
  show "t \<in> set (fc_waiters fc)" using t gq(1) by simp
qed

lemma before_in: "before q t u \<Longrightarrow> t \<in> set q \<and> u \<in> set q"
  by (auto simp: before_def)

lemma remove_order:
  assumes "distinct (fc_waiters fc)" "before (fc_waiters fc) t u"
    and "t \<in> set (fc_waiters (grant_waiters (fc\<lparr>fc_waiters := remove1 x (fc_waiters fc)\<rparr>)))"
  shows "w_granted (fc_tickets (grant_waiters (fc\<lparr>fc_waiters := remove1 x (fc_waiters fc)\<rparr>)) u)
         \<longleftrightarrow> w_granted (fc_tickets fc u)"
proof -
  let ?fc = "fc\<lparr>fc_waiters := remove1 x (fc_waiters fc)\<rparr>"
  obtain g q where "fc_waiters ?fc = g @ q" "fc_waiters (grant_waiters ?fc) = q"
    by (rule grant_waiters_prefix [of ?fc]) (use assms(1) in auto)
  with assms(3) have "t \<in> set (fc_waiters ?fc)" by (metis Un_iff set_append)
  with assms(1) have tx: "t \<noteq> x" by simp
  have "before (fc_waiters ?fc) t u" if "u \<in> set (fc_waiters ?fc)"
    using before_remove1 [OF assms(2) tx _ assms(1)] that assms(1) by auto
  then show ?thesis using grant_waiters_order(1) [of ?fc u t] assms(1,3) by simp
qed

lemma step_order:
  assumes "fc_inv s" "fc_step s l s'" "before (fc_waiters (sys_fc s)) t u"
    and "t \<in> set (fc_waiters (sys_fc s'))"
  shows "\<not> w_granted (fc_tickets (sys_fc s') u)"
proof -
  have d: "distinct (fc_waiters (sys_fc s))" and u: "\<not> w_granted (fc_tickets (sys_fc s) u)"
    and lt: "u < fc_next (sys_fc s)"
    using assms(1) before_in [OF assms(3)] by (auto simp: fc_inv_def fc_core_def Let_def)
  from assms(2,3,4) d u lt show ?thesis
  proof (induction rule: fc_step.induct)
    case (resume_failed x s fc)
    then show ?case
      using remove_order [of "sys_fc s" t u x] grant_waiters_order(1) [of "sys_fc s" u t]
      by (auto simp: acquire_resume_def split: if_splits)
  next
    case (abort x s)
    then show ?case
      using remove_order [of "sys_fc s" t u x] grant_waiters_order(1) [of "sys_fc s" u t]
        grant_waiters_order(1) [of "(sys_fc s)\<lparr>fc_available := fc_available (sys_fc s)
                + w_weight (fc_tickets (sys_fc s) x)\<rparr>" u t]
      by (auto simp: acquire_abort_def split: if_splits)
  next
    case (released w s fc)
    then show ?case
      using grant_waiters_order(1) [of "(sys_fc s)\<lparr>fc_available := fc_available (sys_fc s) + w\<rparr>" u t]
      by (auto simp: release_def split: if_splits)
  next
    case (cancelled s owner n fc)
    let ?P = "\<lambda>t. owner = None \<or> w_owner (fc_tickets (sys_fc s) t) = owner"
    let ?fc = "cancel_loop (filter ?P (fc_waiters (sys_fc s))) (sys_fc s)"
    have q: "fc_waiters ?fc = filter (\<lambda>t. \<not> ?P t) (fc_waiters (sys_fc s))"
      and f: "w_granted (fc_tickets ?fc u) = w_granted (fc_tickets (sys_fc s) u)"
      using cancelled(4) by (simp_all add: cancel_loop_eq fold_remove1_filter)
    have fc: "fc = grant_waiters ?fc" using cancelled(1) by (simp add: cancel_waiters_def Let_def)
    obtain g q' where "fc_waiters ?fc = g @ q'" "fc_waiters (grant_waiters ?fc) = q'"
      by (rule grant_waiters_prefix [of ?fc]) (use cancelled(4) q in auto)
    with cancelled(3) fc have "t \<in> set (fc_waiters ?fc)" by auto
    then have "before (fc_waiters ?fc) t u" if "u \<in> set (fc_waiters ?fc)"
      using before_filter [OF cancelled(2), of "\<lambda>t. \<not> ?P t"] that unfolding q by simp
    then show ?case
      using grant_waiters_order(1) [of ?fc u t] cancelled(3,4,5) fc f q by simp
  qed (auto simp: acquire_enter_def acquire_resume_def new_ticket_def split: if_splits)
qed

section \<open>Properties\<close>

text \<open>
  C5. Whatever the interleaving of acquires, timeouts, aborts, releases and cancellations, the
  queue never loses or double-grants capacity: the free capacity, what callers hold and what is
  granted to callers that have not resumed yet add up to the configured capacity, none of it is
  negative, the head of the queue does not fit into what is free (no wakeup is lost), and
  releasing a held weight never raises.
\<close>

theorem fair_capacity_conserved:
  assumes "fc_reachable capacity s"
  shows "fc_available (sys_fc s) + sum_list (sys_holds s)
           + granted_sum (fc_tickets (sys_fc s)) (sys_pending s) = capacity
         \<and> 0 \<le> fc_available (sys_fc s)
         \<and> (fc_waiters (sys_fc s) \<noteq> [] \<longrightarrow>
              fc_available (sys_fc s) < w_weight (fc_tickets (sys_fc s) (hd (fc_waiters (sys_fc s)))))
         \<and> (\<forall>w \<in> set (sys_holds s). \<exists>fc. release (sys_fc s) w = Inr fc)"
  using fc_reachable_inv [OF assms] release_held [of s]
  by (auto simp: fc_inv_def fc_core_def head_blocked_def Let_def)

text \<open>A caller takes both units of a capacity of two and a second caller queues.\<close>

definition sample_fc :: FairCapacity where
  "sample_fc = \<lparr>fc_capacity = 2, fc_available = 2, fc_waiters = [],
                fc_tickets = (\<lambda>_. new_ticket 1 None), fc_next = 0\<rparr>"

definition sample_held :: fc_sys where
  "sample_held = (init_sys sample_fc)\<lparr>sys_fc := sample_fc\<lparr>fc_available := 0\<rparr>, sys_holds := [2]\<rparr>"

definition sample_queued :: fc_sys where
  "sample_queued = sample_held\<lparr>
     sys_fc := (sys_fc sample_held)\<lparr>fc_waiters := [0],
       fc_tickets := (fc_tickets sample_fc)(0 := new_ticket 1 None), fc_next := 1\<rparr>,
     sys_pending := [0]\<rparr>"

definition sample_two_queued :: fc_sys where
  "sample_two_queued = sample_queued\<lparr>
     sys_fc := (sys_fc sample_queued)\<lparr>fc_waiters := [0, 1],
       fc_tickets := (fc_tickets (sys_fc sample_queued))(1 := new_ticket 2 None), fc_next := 2\<rparr>,
     sys_pending := [1, 0]\<rparr>"

lemmas sample_defs = sample_fc_def sample_held_def sample_queued_def sample_two_queued_def
  init_sys_def new_ticket_def

lemma sample_queued_reachable: "fc_reachable 2 sample_queued"
proof -
  have "fc_reachable 2 (init_sys sample_fc)"
    by (rule fc_reachable.start) (simp add: new_capacity_def sample_fc_def)
  moreover have "fc_step (init_sys sample_fc) Hand_Out sample_held"
    using fc_step.enter_granted [of "init_sys sample_fc" True 2 None "sample_fc\<lparr>fc_available := 0\<rparr>"]
    by (simp add: acquire_enter_def sample_defs)
  moreover have "fc_step sample_held Internal sample_queued"
    using fc_step.enter_queued [of sample_held True 1 None 0 "sys_fc sample_queued"]
    by (simp add: acquire_enter_def sample_defs)
  ultimately show ?thesis by (blast intro: fc_reachable.step)
qed

lemma sample_two_queued_reachable: "fc_reachable 2 sample_two_queued"
proof -
  have "fc_step sample_queued Internal sample_two_queued"
    using fc_step.enter_queued [of sample_queued True 2 None 1 "sys_fc sample_two_queued"]
    by (simp add: acquire_enter_def sample_defs)
  then show ?thesis using sample_queued_reachable by (blast intro: fc_reachable.step)
qed

theorem fair_capacity_conserved_witness:
  "fc_reachable 2 sample_queued \<and> fc_waiters (sys_fc sample_queued) = [0]
   \<and> fc_available (sys_fc sample_queued) + sum_list (sys_holds sample_queued)
       + granted_sum (fc_tickets (sys_fc sample_queued)) (sys_pending sample_queued) = 2"
  using sample_queued_reachable fair_capacity_conserved [OF sample_queued_reachable]
  by (simp add: sample_defs)

text \<open>
  C6. No caller overtakes another: while a ticket stays queued, no section grants a ticket that
  is queued behind it; and a newcomer takes capacity without queueing only when nobody waits.
\<close>

theorem fair_capacity_fifo:
  assumes "fc_reachable capacity s" "fc_step s l s'"
  shows "(\<forall>t u. before (fc_waiters (sys_fc s)) t u \<longrightarrow> t \<in> set (fc_waiters (sys_fc s'))
            \<longrightarrow> \<not> w_granted (fc_tickets (sys_fc s') u))
         \<and> (\<forall>blocking w owner fc. acquire_enter (sys_fc s) blocking w owner = Inr (Granted, fc)
            \<longrightarrow> fc_waiters (sys_fc s) = [])"
proof -
  from assms(1) have "fc_inv s" using fc_reachable_inv by blast
  then show ?thesis using step_order assms(2) by (auto simp: acquire_enter_def split: if_splits)
qed

theorem fair_capacity_fifo_witness:
  "\<not> w_granted (fc_tickets (sys_fc sample_two_queued) 1)
   \<and> before (fc_waiters (sys_fc sample_two_queued)) 0 1
   \<and> (\<exists>s'. fc_step sample_two_queued Internal s' \<and> 0 \<in> set (fc_waiters (sys_fc s'))
          \<and> \<not> w_granted (fc_tickets (sys_fc s') 1))"
proof -
  have b: "before (fc_waiters (sys_fc sample_two_queued)) 0 1"
    unfolding before_def by (rule exI [of _ "[]"], rule exI [of _ "[1]"]) (simp add: sample_defs)
  have st: "fc_step sample_two_queued Internal sample_two_queued"
    using fc_step.enter_refused [of sample_two_queued False 1 None "sys_fc sample_two_queued"]
    by (simp add: acquire_enter_def sample_defs)
  have z: "0 \<in> set (fc_waiters (sys_fc sample_two_queued))" by (simp add: sample_defs)
  then show ?thesis
    using fair_capacity_fifo [OF sample_two_queued_reachable st] b st by blast
qed

text \<open>
  C20. \<open>FairRLock\<close> is a mutex: at most one thread is inside, \<open>_owner\<close> names exactly the
  thread that is inside and its depth is positive, and the \<open>release\<close> of the underlying
  capacity by the leaving thread never raises.
\<close>

theorem fair_rlock_mutual_exclusion:
  assumes "new_capacity 1 = Inr fc" "rl_reachable fc_step (init_sys fc) r"
  shows "(rl_pc r i = Inside \<longrightarrow> rl_pc r j = Inside \<longrightarrow> i = j)
         \<and> (rl_owner r = Some i \<longleftrightarrow> rl_pc r i = Inside)
         \<and> (rl_owner r = Some i \<longrightarrow> 1 \<le> rl_depth r)
         \<and> (rl_pc r i = Leaving \<longrightarrow> (\<exists>g. fc_step (rl_gate r) Take_Back g))"
proof -
  have ok: "fc_unit_ok (init_sys fc)" "length (sys_holds (init_sys fc)) = 0"
    using fc_reachable_inv [OF fc_reachable.start [OF assms(1)]]
    by (simp_all add: fc_unit_ok_def init_sys_def)
  show ?thesis
    using fc_gate.mutual_exclusion [OF assms(2) ok] fc_gate.inside_owns [OF assms(2) ok]
      fc_gate.leaving_returns [OF assms(2) ok] by blast
qed

theorem fair_rlock_mutual_exclusion_witness:
  "\<exists>fc r. new_capacity 1 = Inr fc \<and> rl_reachable fc_step (init_sys fc) r
     \<and> rl_pc r 7 = Inside \<and> rl_owner r = Some 7 \<and> 1 \<le> rl_depth r"
proof -
  let ?fc = "sample_fc\<lparr>fc_capacity := 1, fc_available := 1\<rparr>"
  let ?g = "(init_sys ?fc)\<lparr>sys_fc := ?fc\<lparr>fc_available := 0\<rparr>, sys_holds := [1]\<rparr>"
  let ?r1 = "(rl_init (init_sys ?fc))\<lparr>rl_gate := ?g,
     rl_pc := (rl_pc (rl_init (init_sys ?fc)))(7 := Handed)\<rparr>"
  let ?r2 = "?r1\<lparr>rl_owner := Some 7, rl_depth := 1, rl_pc := (rl_pc ?r1)(7 := Inside)\<rparr>"
  have new: "new_capacity 1 = Inr ?fc" by (simp add: new_capacity_def sample_defs)
  have gate: "fc_step (init_sys ?fc) Hand_Out ?g"
    using fc_step.enter_granted [of "init_sys ?fc" True 1 None "?fc\<lparr>fc_available := 0\<rparr>"]
    by (simp add: acquire_enter_def sample_defs)
  have "rl_step fc_step (rl_init (init_sys ?fc)) ?r1"
    using gate by (intro rl_step.handed) (simp_all add: rl_init_def)
  moreover have "rl_step fc_step ?r1 ?r2" by (rule rl_step.own) simp
  ultimately have r: "rl_reachable fc_step (init_sys ?fc) ?r2"
    by (blast intro: rl_reachable.intros)
  have "rl_pc ?r2 7 = Inside" by simp
  then show ?thesis using new r fair_rlock_mutual_exclusion [OF new r, of 7 7] by blast
qed

end
