(* ===== verification/Models.thy ===== *)
theory Models
  imports Prelude
begin

text \<open>
  The data model of \<open>src/ucloud_sandboxes/models.py\<close>: resource quantities, the worker's
  inventory and heartbeat, its runtime metrics, provider instances, the autoscaler's node view,
  demand, live signals, policy and decision, each with the properties the class defines.
  Field names carry a short prefix (\<open>hb_\<close>, \<open>inv_\<close>, \<open>job_\<close>, \<open>nd_\<close>, \dots)
  where two classes share a name. The telemetry payloads \<open>resource_evidence\<close>,
  \<open>resident_wait\<close> and \<open>environment_io\<close> of the metrics and the provider's \<open>raw\<close> object
  are left out: no modelled operation reads them.
\<close>

section \<open>Resource quantities\<close>

datatype ResourceQuantity = ResourceQuantity (vcpu: rat) (memory_mb: int) (disk_mb: int)

text \<open>
  The default quantity is the zero and \<open>__add__\<close> the sum of a commutative monoid;
  \<open>fits_within\<close> is its component-wise order.
\<close>

instantiation ResourceQuantity :: comm_monoid_add
begin

definition zero_ResourceQuantity :: ResourceQuantity where
  "zero_ResourceQuantity = ResourceQuantity 0 0 0"

definition plus_ResourceQuantity :: "ResourceQuantity \<Rightarrow> ResourceQuantity \<Rightarrow> ResourceQuantity" where
  "plus_ResourceQuantity a b =
     ResourceQuantity (vcpu a + vcpu b) (memory_mb a + memory_mb b) (disk_mb a + disk_mb b)"

instance
  by intro_classes (simp_all add: zero_ResourceQuantity_def plus_ResourceQuantity_def)

end

instantiation ResourceQuantity :: ordered_comm_monoid_add
begin

definition less_eq_ResourceQuantity :: "ResourceQuantity \<Rightarrow> ResourceQuantity \<Rightarrow> bool" where
  "less_eq_ResourceQuantity a b \<longleftrightarrow>
     vcpu a \<le> vcpu b \<and> memory_mb a \<le> memory_mb b \<and> disk_mb a \<le> disk_mb b"

definition less_ResourceQuantity :: "ResourceQuantity \<Rightarrow> ResourceQuantity \<Rightarrow> bool" where
  "less_ResourceQuantity a b \<longleftrightarrow> a \<le> b \<and> \<not> b \<le> (a :: ResourceQuantity)"

instance
proof
  fix a b :: ResourceQuantity
  assume "a \<le> b" and "b \<le> a"
  then show "a = b"
    by (cases a; cases b) (simp add: less_eq_ResourceQuantity_def)
qed (auto simp: less_eq_ResourceQuantity_def less_ResourceQuantity_def plus_ResourceQuantity_def)

end

definition rq_add :: "ResourceQuantity \<Rightarrow> ResourceQuantity \<Rightarrow> ResourceQuantity" where
  "rq_add a b =
     ResourceQuantity (vcpu a + vcpu b) (memory_mb a + memory_mb b) (disk_mb a + disk_mb b)"

definition fits_within :: "ResourceQuantity \<Rightarrow> ResourceQuantity \<Rightarrow> bool" where
  "fits_within r capacity \<longleftrightarrow>
     vcpu r \<le> vcpu capacity \<and> memory_mb r \<le> memory_mb capacity \<and> disk_mb r \<le> disk_mb capacity"

text \<open>\<open>math.isfinite\<close> holds of every rational.\<close>

definition rq_is_valid :: "ResourceQuantity \<Rightarrow> bool" where
  "rq_is_valid r \<longleftrightarrow> 0 \<le> vcpu r \<and> 0 \<le> memory_mb r \<and> 0 \<le> disk_mb r"

definition rq_scaled :: "ResourceQuantity \<Rightarrow> rat \<Rightarrow> rat \<Rightarrow> rat \<Rightarrow> ResourceQuantity" where
  "rq_scaled r cpu memory disk =
     ResourceQuantity (vcpu r * cpu) (py_int (of_int (memory_mb r) * memory))
       (py_int (of_int (disk_mb r) * disk))"

lemma rq_zero_sel [simp]: "vcpu 0 = 0" "memory_mb 0 = 0" "disk_mb 0 = 0"
  by (simp_all add: zero_ResourceQuantity_def)

lemma rq_plus_sel [simp]:
  "vcpu (a + b) = vcpu a + vcpu b"
  "memory_mb (a + b) = memory_mb a + memory_mb b"
  "disk_mb (a + b) = disk_mb a + disk_mb b"
  by (simp_all add: plus_ResourceQuantity_def)

lemma rq_add_eq_plus [simp]: "rq_add a b = a + b"
  by (simp add: rq_add_def plus_ResourceQuantity_def)

lemma fits_within_eq_le: "fits_within a b \<longleftrightarrow> a \<le> b"
  by (simp add: fits_within_def less_eq_ResourceQuantity_def)

lemma rq_is_valid_eq: "rq_is_valid r \<longleftrightarrow> 0 \<le> r"
  by (simp add: rq_is_valid_def less_eq_ResourceQuantity_def)

lemma rq_eq_iff: "a = b \<longleftrightarrow> vcpu a = vcpu b \<and> memory_mb a = memory_mb b \<and> disk_mb a = disk_mb b"
  by (cases a; cases b) simp

lemma rq_scaled_nonneg:
  assumes "0 \<le> r" "0 \<le> c" "0 \<le> m" "0 \<le> d"
  shows "0 \<le> rq_scaled r c m d"
  using assms by (simp add: rq_scaled_def less_eq_ResourceQuantity_def py_int_nonneg)

lemma rq_scaled_le:
  assumes "0 \<le> r" "0 \<le> w" "w \<le> 1"
  shows "rq_scaled r w w w \<le> r"
proof -
  have int_le: "py_int (of_int n * w) \<le> n" if "0 \<le> n" for n :: int
  proof -
    have "of_int n * w \<le> of_int n"
      using that assms(3) by (simp add: mult_left_le)
    moreover have "of_int (py_int (of_int n * w)) \<le> of_int n * w"
      using that assms(2) by (simp add: py_int_le)
    ultimately have "(of_int (py_int (of_int n * w)) :: rat) \<le> of_int n" by simp
    then show ?thesis by (simp only: of_int_le_iff)
  qed
  show ?thesis
    using assms int_le by (simp add: rq_scaled_def less_eq_ResourceQuantity_def mult_left_le)
qed

section \<open>Inventory and runtime metrics\<close>

record SandboxMemoryObservation =
  memory_bytes :: int
  sampled_at :: string

record SandboxInventoryEntry =
  inv_sandbox_id :: string
  inv_generation :: int
  inv_operation_id :: string
  inv_spec_hash :: string
  inv_state :: string
  inv_resources :: ResourceQuantity
  inv_storage_schema :: string
  inv_snapshot_manifest_digest :: string
  inv_snapshot_repository :: string
  inv_snapshot_tag :: string
  inv_storage_snapshot :: "(string, json) dict"
  inv_storage_dependency :: "(string, json) dict option"
  inv_memory_observation :: "SandboxMemoryObservation option"
  inv_managed_process :: "(string, json) dict option"

text \<open>Configured RAM backing (\<open>resource_evidence.py\<close>); absent counters mean unknown.\<close>

record MemoryBackingCapacity =
  total_bytes :: "int option"
  available_bytes :: "int option"
  backing_identity :: "string option"

record NodeRuntimeMetrics =
  collected_at :: datetime
  cpu_percent :: "rat option"
  cpu_vcpu :: "rat option"
  cpu_count :: int
  memory_total_mb :: int
  memory_used_mb :: int
  memory_available_mb :: int
  memory_percent :: "rat option"
  memory_working_set_mb :: int
  swap_total_mb :: int
  swap_used_mb :: int
  swap_free_mb :: int
  memory_psi_some_avg10 :: "rat option"
  memory_psi_full_avg10 :: "rat option"
  io_psi_some_avg10 :: "rat option"
  io_psi_full_avg10 :: "rat option"
  load_average_1m :: "rat option"
  load_average_5m :: "rat option"
  load_average_15m :: "rat option"
  storage_hard_capacity_mb :: int
  storage_hard_reserved_mb :: int
  storage_cache_mb :: int
  storage_active_operations :: int
  storage_waiting_operations :: int
  storage_max_concurrent_operations :: int
  storage_publication_active :: int
  storage_publication_waiting :: int
  storage_publication_limit :: int
  storage_publication_queue_wait_ms_total :: int
  storage_publication_queue_wait_ms_max :: int
  storage_publication_duration_ms_total :: int
  storage_publication_duration_ms_max :: int
  storage_snapshot_publications :: int
  storage_snapshot_compactions :: int
  storage_snapshot_uploaded_bytes :: int
  storage_published_volumes :: int
  storage_error_volumes :: int
  storage_device_pool_enabled :: bool
  storage_device_pool_low_watermark :: int
  storage_device_pool_high_watermark :: int
  storage_device_pool_idle_devices :: int
  storage_ublk_active_devices :: int
  storage_ublk_live_devices :: int
  storage_ublk_max_devices :: int
  storage_device_pool_acquires :: int
  storage_device_pool_reused_acquires :: int
  storage_device_pool_new_acquires :: int
  storage_device_pool_releases :: int
  storage_device_pool_discards :: int
  storage_workspace_grant_mb :: int
  storage_memory_idle_claim_mb :: int
  storage_workspace_growths :: int
  storage_workspace_growth_refusals :: int
  image_materialization_active_operations :: int
  image_materialization_waiting_operations :: int
  image_materialization_max_concurrent_operations :: int
  image_pull_active_operations :: int
  image_pull_waiting_operations :: int
  image_pull_max_concurrent_operations :: int
  memory_backing :: "MemoryBackingCapacity option"
  cpu_check_ms :: int

section \<open>Provider instances\<close>

datatype InstancePhase = PROVISIONING | RUNNING | UNAVAILABLE | LOST | TERMINAL

record ProviderInstance =
  job_id_of :: string
  job_name :: string
  job_application_name :: string
  job_application_version :: string
  job_product_id :: string
  job_product_category :: string
  job_state :: string
  job_phase :: InstancePhase
  job_hostname :: "string option"
  job_created_at :: "datetime option"
  job_started_at :: "datetime option"
  job_expires_at :: "datetime option"
  job_cpu :: "int option"
  job_memory_gb :: "int option"
  job_disk_gb :: "int option"
  job_ssh_enabled :: "bool option"
  job_private_network_ids :: "string list"
  job_queue_status :: "string option"
  job_latest_note :: "string option"
  job_labels :: "(string, string) dict"
  job_interrupted_at :: "datetime option"

definition job_is_final :: "ProviderInstance \<Rightarrow> bool" where
  "job_is_final j \<longleftrightarrow> job_phase j = TERMINAL"

definition job_is_running :: "ProviderInstance \<Rightarrow> bool" where
  "job_is_running j \<longleftrightarrow> job_phase j = RUNNING"

definition job_is_provisioning :: "ProviderInstance \<Rightarrow> bool" where
  "job_is_provisioning j \<longleftrightarrow> job_phase j = PROVISIONING"

definition job_is_lost :: "ProviderInstance \<Rightarrow> bool" where
  "job_is_lost j \<longleftrightarrow> job_phase j = LOST"

definition job_is_unavailable :: "ProviderInstance \<Rightarrow> bool" where
  "job_is_unavailable j \<longleftrightarrow> job_phase j = UNAVAILABLE"

lemmas job_phase_defs = job_is_final_def job_is_running_def job_is_provisioning_def
  job_is_lost_def job_is_unavailable_def

section \<open>Heartbeats\<close>

text \<open>
  \<open>hb_identity\<close> stands for the identity of the Python object (\<open>is\<close>), which the placement
  overlay compares. An optional datetime is never Python's false.
\<close>

record NodeHeartbeat =
  hb_identity :: nat
  hb_node_id :: string
  hb_job_id :: string
  hb_updated_at :: datetime
  hb_active_sandboxes :: int
  hb_active_image_builds :: int
  hb_active_sandbox_creates :: int
  hb_idle_since :: "datetime option"
  hb_draining :: bool
  hb_node_url :: "string option"
  hb_agent_version :: string
  hb_deployment_id :: string
  hb_init_version :: string
  hb_capabilities :: "string list"
  hb_total_resources :: ResourceQuantity
  hb_resources_known :: bool
  hb_used_resources :: ResourceQuantity
  hb_labels :: "(string, string) dict"
  hb_cached_images :: "string list"
  hb_cached_images_known :: bool
  hb_runtime_metrics :: "NodeRuntimeMetrics option"
  hb_reported_at :: "datetime option"
  hb_received_at :: "datetime option"
  hb_node_epoch :: string
  hb_retired_node_epochs :: "string list"
  hb_activity_epoch :: int
  hb_inventory :: "SandboxInventoryEntry list"
  hb_inventory_complete :: bool
  hb_reserved_resources :: ResourceQuantity
  hb_build_reserved_resources :: ResourceQuantity
  hb_physical_disk_total_mb :: int
  hb_physical_disk_free_mb :: int
  hb_drain_token :: string
  hb_drain_activity_epoch :: int
  hb_admission_open :: bool

definition freshness_at :: "NodeHeartbeat \<Rightarrow> datetime" where
  "freshness_at h = (case hb_received_at h of Some t \<Rightarrow> t | None \<Rightarrow> hb_updated_at h)"

definition hb_is_fresh :: "NodeHeartbeat \<Rightarrow> datetime \<Rightarrow> int \<Rightarrow> bool" where
  "hb_is_fresh h now ttl_seconds =
     (let age = total_seconds (now - freshness_at h)
      in 0 \<le> ttl_seconds \<and> 0 \<le> age \<and> age \<le> of_int ttl_seconds)"

definition free_resources :: "NodeHeartbeat \<Rightarrow> ResourceQuantity" where
  "free_resources h =
     (let unavailable = rq_add (rq_add (hb_used_resources h) (hb_reserved_resources h))
            (hb_build_reserved_resources h);
          disk = max 0 (disk_mb (hb_total_resources h) - disk_mb unavailable);
          disk' =
            (case hb_runtime_metrics h of
               None \<Rightarrow> disk
             | Some m \<Rightarrow>
                 if ''storage-native-v1'' \<in> set (hb_capabilities h) \<and> 0 < storage_hard_capacity_mb m
                 then if 0 < storage_ublk_max_devices m
                         \<and> storage_ublk_max_devices m \<le> storage_ublk_active_devices m
                      then 0
                      else min disk
                             (max 0 (storage_hard_capacity_mb m - storage_hard_reserved_mb m))
                 else disk)
      in ResourceQuantity
           (max 0 (vcpu (hb_total_resources h) - vcpu unavailable))
           (max 0 (memory_mb (hb_total_resources h) - memory_mb unavailable))
           disk')"

definition active_workloads :: "NodeHeartbeat \<Rightarrow> int" where
  "active_workloads h =
     (let reserved = rq_add (hb_reserved_resources h) (hb_build_reserved_resources h);
          reserved_work =
            (if 0 < vcpu reserved \<or> 0 < memory_mb reserved \<or> 0 < disk_mb reserved then 1 else 0)
      in max 0 (hb_active_sandboxes h) + max 0 (hb_active_image_builds h)
         + max 0 (hb_active_sandbox_creates h) + reserved_work)"

lemma free_resources_nonneg: "0 \<le> free_resources h"
  by (auto simp: free_resources_def Let_def less_eq_ResourceQuantity_def split: option.splits)

text \<open>
  Free resources never exceed the advertised total when the reported use is non-negative.
\<close>

lemma free_resources_le_total:
  assumes "0 \<le> hb_total_resources h" "0 \<le> hb_used_resources h"
    and "0 \<le> hb_reserved_resources h" "0 \<le> hb_build_reserved_resources h"
  shows "free_resources h \<le> hb_total_resources h"
  using assms
  by (auto simp: free_resources_def Let_def less_eq_ResourceQuantity_def split: option.splits)

text \<open>The storage daemon's ledger caps what a storage-native heartbeat credits.\<close>

lemma free_resources_disk_le_storage:
  assumes "hb_runtime_metrics h = Some m" "''storage-native-v1'' \<in> set (hb_capabilities h)"
    and "0 < storage_hard_capacity_mb m"
  shows "disk_mb (free_resources h)
           \<le> max 0 (storage_hard_capacity_mb m - storage_hard_reserved_mb m)"
  using assms by (simp add: free_resources_def Let_def)

lemma active_workloads_nonneg: "0 \<le> active_workloads h"
  by (simp add: active_workloads_def Let_def)

section \<open>Controller labels\<close>

definition SOFT_DRAIN_LABEL :: string where
  "SOFT_DRAIN_LABEL = ''ucloud-sandboxes/soft-drain''"

definition EPOCH_RETIREMENTS_LABEL :: string where
  "EPOCH_RETIREMENTS_LABEL = ''ucloud-sandboxes/controller-epoch-retirements''"

definition REPEATED_REBOOTS :: int where
  "REPEATED_REBOOTS = 2"

text \<open>24 hours in microseconds.\<close>

definition REPEATED_REBOOT_WINDOW :: int where
  "REPEATED_REBOOT_WINDOW = 24 * 60 * 60 * 1000000"

definition is_soft_drained :: "NodeHeartbeat option \<Rightarrow> bool" where
  "is_soft_drained h \<longleftrightarrow>
     (case h of None \<Rightarrow> False | Some b \<Rightarrow> truthy_str (dict_get (hb_labels b) SOFT_DRAIN_LABEL))"

text \<open>\<open>raw.split(",")\<close>: the parts between commas, at least one.\<close>

fun split_comma :: "string \<Rightarrow> string list" where
  "split_comma [] = [[]]"
| "split_comma (c # cs) =
     (if c = CHR '','' then [] # split_comma cs
      else (case split_comma cs of [] \<Rightarrow> [[c]] | p # ps \<Rightarrow> (c # p) # ps))"

text \<open>
  \<open>parse\<close> stands for \<open>parse_iso_datetime\<close>, Python's ISO 8601 parser after a normalisation
  of the fraction; the result is None for a string that is not a timestamp.
\<close>

definition epoch_retirements ::
  "(string \<Rightarrow> datetime option) \<Rightarrow> NodeHeartbeat option \<Rightarrow> datetime list" where
  "epoch_retirements parse h =
     (let raw = (case h of None \<Rightarrow> []
                 | Some b \<Rightarrow> (case dict_get (hb_labels b) EPOCH_RETIREMENTS_LABEL of
                     None \<Rightarrow> [] | Some s \<Rightarrow> s))
      in List.map_filter parse (split_comma raw))"

definition repeatedly_rebooted ::
  "(string \<Rightarrow> datetime option) \<Rightarrow> NodeHeartbeat option \<Rightarrow> datetime \<Rightarrow> bool" where
  "repeatedly_rebooted parse h now \<longleftrightarrow>
     REPEATED_REBOOTS \<le>
       int (length (filter (\<lambda>t. now - t \<le> REPEATED_REBOOT_WINDOW) (epoch_retirements parse h)))"

text \<open>
  The reasons a worker retires. The source returns the message; the model keeps the values
  the message prints.
\<close>

datatype RetiringReason = RepeatedReboots int | SlowCpuCheck int int

definition retiring_reason ::
  "(string \<Rightarrow> datetime option) \<Rightarrow> NodeHeartbeat option \<Rightarrow> datetime \<Rightarrow> int \<Rightarrow> RetiringReason option"
where
  "retiring_reason parse h now max_cpu_check_ms =
     (if repeatedly_rebooted parse h now then Some (RepeatedReboots REPEATED_REBOOTS)
      else case Option.bind h hb_runtime_metrics of
             None \<Rightarrow> None
           | Some m \<Rightarrow>
               if 0 < max_cpu_check_ms \<and> max_cpu_check_ms < cpu_check_ms m
               then Some (SlowCpuCheck (cpu_check_ms m) max_cpu_check_ms) else None)"

section \<open>The autoscaler's view of a node\<close>

record SandboxNode =
  nd_job :: ProviderInstance
  nd_heartbeat :: "NodeHeartbeat option"
  nd_active_sandboxes :: int
  nd_heartbeat_fresh :: bool
  nd_agent_version_compatible :: bool
  nd_permanently_lost :: bool

definition nd_job_id :: "SandboxNode \<Rightarrow> string" where
  "nd_job_id n = job_id_of (nd_job n)"

definition nd_is_ready :: "SandboxNode \<Rightarrow> bool" where
  "nd_is_ready n \<longleftrightarrow> \<not> nd_permanently_lost n \<and> job_is_running (nd_job n) \<and> nd_heartbeat_fresh n"

definition nd_is_schedulable :: "SandboxNode \<Rightarrow> bool" where
  "nd_is_schedulable n \<longleftrightarrow>
     nd_is_ready n \<and> nd_agent_version_compatible n
     \<and> (case nd_heartbeat n of None \<Rightarrow> False | Some h \<Rightarrow> \<not> hb_draining h \<and> hb_admission_open h)"

definition nd_is_provisioning :: "SandboxNode \<Rightarrow> bool" where
  "nd_is_provisioning n \<longleftrightarrow>
     \<not> nd_permanently_lost n
     \<and> (job_is_provisioning (nd_job n)
        \<or> job_is_running (nd_job n) \<and> nd_heartbeat n = None \<and> \<not> nd_heartbeat_fresh n)"

definition nd_is_unreachable :: "SandboxNode \<Rightarrow> bool" where
  "nd_is_unreachable n \<longleftrightarrow>
     \<not> nd_permanently_lost n \<and> job_is_running (nd_job n)
     \<and> nd_heartbeat n \<noteq> None \<and> \<not> nd_heartbeat_fresh n"

definition nd_is_idle :: "SandboxNode \<Rightarrow> bool" where
  "nd_is_idle n =
     (let heartbeat_workloads = (case nd_heartbeat n of None \<Rightarrow> 0 | Some h \<Rightarrow> active_workloads h)
      in nd_is_ready n \<and> nd_active_sandboxes n = 0 \<and> heartbeat_workloads = 0)"

lemma schedulable_heartbeat: "nd_is_schedulable n \<Longrightarrow> \<exists>h. nd_heartbeat n = Some h"
  by (auto simp: nd_is_schedulable_def split: option.splits)

lemma schedulable_running: "nd_is_schedulable n \<Longrightarrow> job_is_running (nd_job n)"
  by (simp add: nd_is_schedulable_def nd_is_ready_def)

lemma schedulable_not_provisioning: "nd_is_schedulable n \<Longrightarrow> \<not> nd_is_provisioning n"
  by (auto simp: nd_is_schedulable_def nd_is_provisioning_def nd_is_ready_def job_phase_defs
      split: option.splits)

section \<open>Demand, signals, policy and decision\<close>

record SandboxPlacementRequest =
  pr_resources :: ResourceQuantity
  pr_count :: int
  pr_excluded_job_ids :: "string list"
  pr_image :: string

record SandboxDemand =
  dm_pending_resources :: ResourceQuantity
  dm_suppressed_pending_resources :: ResourceQuantity
  dm_pending_count :: int
  dm_suppressed_pending_count :: int
  dm_oldest_pending_seconds :: int
  dm_oldest_capacity_pending_seconds :: int
  dm_placement_requests :: "SandboxPlacementRequest list"
  dm_prepared_placement_requests :: "SandboxPlacementRequest list"

definition prepared_resources :: "SandboxDemand \<Rightarrow> ResourceQuantity" where
  "prepared_resources d =
     foldl (\<lambda>total r. rq_add total
        (rq_scaled (pr_resources r) (of_int (pr_count r)) (of_int (pr_count r)) (of_int (pr_count r))))
       0 (dm_prepared_placement_requests d)"

record LiveScaleSignals =
  ls_window_seconds :: int
  ls_observation_samples :: int
  ls_latest_observation_age_seconds :: "int option"
  ls_pressure_samples :: int
  ls_latest_pressure_age_seconds :: "int option"
  ls_cpu_utilization :: "rat option"
  ls_memory_utilization :: "rat option"
  ls_memory_psi_full_avg10 :: "rat option"
  ls_io_psi_full_avg10 :: "rat option"
  ls_storage_queue_utilization :: "rat option"
  ls_image_materialization_queue_utilization :: "rat option"
  ls_create_pressure_samples :: int
  ls_latest_create_pressure_age_seconds :: "int option"
  ls_sandbox_create_rejections :: int
  ls_sandbox_create_limit :: int
  ls_provisioning_samples :: int
  ls_provisioning_p95_seconds :: "rat option"
  ls_scale_up_wait_samples :: int
  ls_scale_up_wait_p95_seconds :: "rat option"
  ls_latest_schedule_age_seconds :: "int option"

record ScalePolicy =
  min_nodes :: int
  max_nodes :: int
  warm_resources :: ResourceQuantity
  max_create_per_cycle :: int
  max_stop_per_cycle :: int
  max_provisioning_nodes :: int
  provisioning_capacity_weight :: rat
  stale_provisioning_after_seconds :: int
  max_cpu_check_ms :: int
  stale_provisioning_capacity_weight :: rat
  unreachable_stop_after_seconds :: int
  scale_down_idle_seconds :: int
  builder_scale_down_idle_seconds :: int
  heartbeat_ttl_seconds :: int
  live_pressure_enabled :: bool
  live_pressure_window_seconds :: int
  live_pressure_min_samples :: int
  live_pressure_fresh_seconds :: int
  target_cpu_utilization :: rat
  target_memory_utilization :: rat
  max_memory_psi_full_avg10 :: rat
  max_io_psi_full_avg10 :: rat
  target_storage_queue_utilization :: rat
  create_pressure_enabled :: bool
  create_pressure_window_seconds :: int
  create_pressure_min_samples :: int
  create_pressure_fresh_seconds :: int
  create_target_concurrency_per_node :: int
  create_pressure_max_headroom_nodes :: int
  pressure_scale_down_cooldown_seconds :: int
  provisioning_latency_lookback_seconds :: int
  provisioning_scale_down_multiplier :: rat
  parked_wake_consolidation_enabled :: bool
  drain_on_park_enabled :: bool
  drain_on_park_moves_per_cycle :: int
  default_node_resources :: ResourceQuantity

text \<open>The policy's field defaults.\<close>

definition default_policy :: ScalePolicy where
  "default_policy = \<lparr>
     min_nodes = 0, max_nodes = 10, warm_resources = 0, max_create_per_cycle = 4,
     max_stop_per_cycle = 1, max_provisioning_nodes = 8, provisioning_capacity_weight = 1,
     stale_provisioning_after_seconds = 300, max_cpu_check_ms = 0,
     stale_provisioning_capacity_weight = 0, unreachable_stop_after_seconds = 1800,
     scale_down_idle_seconds = 600, builder_scale_down_idle_seconds = 900,
     heartbeat_ttl_seconds = 120, live_pressure_enabled = True,
     live_pressure_window_seconds = 60, live_pressure_min_samples = 3,
     live_pressure_fresh_seconds = 30, target_cpu_utilization = 7 / 10,
     target_memory_utilization = 8 / 10, max_memory_psi_full_avg10 = 5,
     max_io_psi_full_avg10 = 10, target_storage_queue_utilization = 3 / 4,
     create_pressure_enabled = True, create_pressure_window_seconds = 30,
     create_pressure_min_samples = 2, create_pressure_fresh_seconds = 15,
     create_target_concurrency_per_node = 8, create_pressure_max_headroom_nodes = 1,
     pressure_scale_down_cooldown_seconds = 300,
     provisioning_latency_lookback_seconds = 7 * 24 * 60 * 60,
     provisioning_scale_down_multiplier = 2, parked_wake_consolidation_enabled = False,
     drain_on_park_enabled = True, drain_on_park_moves_per_cycle = 4,
     default_node_resources = ResourceQuantity 32 98304 1449984\<rparr>"

datatype ActionKind = Create | Stop

record 'r ScaleAction =
  act_kind :: ActionKind
  act_count :: int
  act_job_ids :: "string list"
  act_reason :: 'r

record 'r ScaleDecision =
  sd_actions :: "'r ScaleAction list"
  sd_ready_nodes :: int
  sd_provisioning_nodes :: int
  sd_total_nodes :: int
  sd_reasons :: "'r list"
  sd_unreachable_nodes :: int
  sd_pending_resources :: ResourceQuantity
  sd_suppressed_pending_resources :: ResourceQuantity
  sd_pending_count :: int
  sd_suppressed_pending_count :: int
  sd_prepared_resources :: ResourceQuantity
  sd_desired_resources :: ResourceQuantity
  sd_projected_free_resources :: ResourceQuantity
  sd_resource_deficit :: ResourceQuantity
  sd_live_signals :: "LiveScaleSignals option"
  sd_pressure_scale_up :: bool
  sd_create_pressure_scale_up :: bool
  sd_effective_scale_down_idle_seconds :: int
  sd_soft_drain_job_id :: string
  sd_soft_drain_selected :: bool
  sd_soft_drain_clear_job_ids :: "string list"

definition creates :: "'r ScaleDecision \<Rightarrow> int" where
  "creates d = sum_list (map act_count (filter (\<lambda>a. act_kind a = Create) (sd_actions d)))"

definition stops :: "'r ScaleDecision \<Rightarrow> string list" where
  "stops d = concat (map act_job_ids (filter (\<lambda>a. act_kind a = Stop) (sd_actions d)))"

section \<open>Dataclass constructors\<close>

text \<open>The records as their dataclass constructors build them from the required fields.\<close>

definition new_metrics :: "datetime \<Rightarrow> NodeRuntimeMetrics" where
  "new_metrics collected = \<lparr>
     collected_at = collected, cpu_percent = None, cpu_vcpu = None, cpu_count = 0,
     memory_total_mb = 0, memory_used_mb = 0, memory_available_mb = 0, memory_percent = None,
     memory_working_set_mb = 0, swap_total_mb = 0, swap_used_mb = 0, swap_free_mb = 0,
     memory_psi_some_avg10 = None, memory_psi_full_avg10 = None, io_psi_some_avg10 = None,
     io_psi_full_avg10 = None, load_average_1m = None, load_average_5m = None,
     load_average_15m = None, storage_hard_capacity_mb = 0, storage_hard_reserved_mb = 0,
     storage_cache_mb = 0, storage_active_operations = 0, storage_waiting_operations = 0,
     storage_max_concurrent_operations = 0, storage_publication_active = 0,
     storage_publication_waiting = 0, storage_publication_limit = 0,
     storage_publication_queue_wait_ms_total = 0, storage_publication_queue_wait_ms_max = 0,
     storage_publication_duration_ms_total = 0, storage_publication_duration_ms_max = 0,
     storage_snapshot_publications = 0, storage_snapshot_compactions = 0,
     storage_snapshot_uploaded_bytes = 0, storage_published_volumes = 0,
     storage_error_volumes = 0, storage_device_pool_enabled = False,
     storage_device_pool_low_watermark = 0, storage_device_pool_high_watermark = 0,
     storage_device_pool_idle_devices = 0, storage_ublk_active_devices = 0,
     storage_ublk_live_devices = 0, storage_ublk_max_devices = 0,
     storage_device_pool_acquires = 0, storage_device_pool_reused_acquires = 0,
     storage_device_pool_new_acquires = 0, storage_device_pool_releases = 0,
     storage_device_pool_discards = 0, storage_workspace_grant_mb = 0,
     storage_memory_idle_claim_mb = 0, storage_workspace_growths = 0,
     storage_workspace_growth_refusals = 0, image_materialization_active_operations = 0,
     image_materialization_waiting_operations = 0,
     image_materialization_max_concurrent_operations = 0, image_pull_active_operations = 0,
     image_pull_waiting_operations = 0, image_pull_max_concurrent_operations = 0,
     memory_backing = None, cpu_check_ms = 0\<rparr>"

definition new_inventory_entry :: "string \<Rightarrow> int \<Rightarrow> string \<Rightarrow> string \<Rightarrow> SandboxInventoryEntry" where
  "new_inventory_entry sandbox_id generation operation_id spec_hash = \<lparr>
     inv_sandbox_id = sandbox_id, inv_generation = generation, inv_operation_id = operation_id,
     inv_spec_hash = spec_hash, inv_state = [], inv_resources = 0, inv_storage_schema = [],
     inv_snapshot_manifest_digest = [], inv_snapshot_repository = [], inv_snapshot_tag = [],
     inv_storage_snapshot = [], inv_storage_dependency = None, inv_memory_observation = None,
     inv_managed_process = None\<rparr>"

definition new_instance :: "string \<Rightarrow> string \<Rightarrow> string \<Rightarrow> string \<Rightarrow> string \<Rightarrow> string \<Rightarrow> string \<Rightarrow> InstancePhase \<Rightarrow> ProviderInstance" where
  "new_instance i n a v p c s phase = \<lparr>
     job_id_of = i, job_name = n, job_application_name = a, job_application_version = v,
     job_product_id = p, job_product_category = c, job_state = s, job_phase = phase,
     job_hostname = None, job_created_at = None, job_started_at = None, job_expires_at = None,
     job_cpu = None, job_memory_gb = None, job_disk_gb = None, job_ssh_enabled = None,
     job_private_network_ids = [], job_queue_status = None, job_latest_note = None,
     job_labels = [], job_interrupted_at = None\<rparr>"

definition new_heartbeat :: "nat \<Rightarrow> string \<Rightarrow> string \<Rightarrow> datetime \<Rightarrow> int \<Rightarrow> NodeHeartbeat" where
  "new_heartbeat identity node_id job_id updated_at active = \<lparr>
     hb_identity = identity, hb_node_id = node_id, hb_job_id = job_id, hb_updated_at = updated_at,
     hb_active_sandboxes = active, hb_active_image_builds = 0, hb_active_sandbox_creates = 0,
     hb_idle_since = None, hb_draining = False, hb_node_url = None, hb_agent_version = [],
     hb_deployment_id = [], hb_init_version = [], hb_capabilities = [], hb_total_resources = 0,
     hb_resources_known = False, hb_used_resources = 0, hb_labels = [], hb_cached_images = [],
     hb_cached_images_known = False, hb_runtime_metrics = None, hb_reported_at = None,
     hb_received_at = None, hb_node_epoch = [], hb_retired_node_epochs = [],
     hb_activity_epoch = 0, hb_inventory = [], hb_inventory_complete = False,
     hb_reserved_resources = 0, hb_build_reserved_resources = 0, hb_physical_disk_total_mb = 0,
     hb_physical_disk_free_mb = 0, hb_drain_token = [], hb_drain_activity_epoch = 0,
     hb_admission_open = True\<rparr>"

definition new_node :: "ProviderInstance \<Rightarrow> (NodeHeartbeat option) \<Rightarrow> int \<Rightarrow> bool \<Rightarrow> SandboxNode" where
  "new_node job heartbeat active fresh = \<lparr>
     nd_job = job, nd_heartbeat = heartbeat, nd_active_sandboxes = active,
     nd_heartbeat_fresh = fresh, nd_agent_version_compatible = True, nd_permanently_lost = False\<rparr>"

definition new_demand :: SandboxDemand where
  "new_demand = \<lparr>
     dm_pending_resources = 0, dm_suppressed_pending_resources = 0, dm_pending_count = 0,
     dm_suppressed_pending_count = 0, dm_oldest_pending_seconds = 0,
     dm_oldest_capacity_pending_seconds = 0, dm_placement_requests = [],
     dm_prepared_placement_requests = []\<rparr>"

end
