(* ===== verification/Resource_Admission.thy ===== *)
theory Resource_Admission
  imports Models
begin

text \<open>
  \<open>src/ucloud_sandboxes/resource_admission.py\<close>: the resource-accounting contract that
  create, wake, migration and autoscaling share. CPU and memory are reusable shapes that live
  pressure governs; writable disk is a hard reservation. Also \<open>capabilities.has_capability\<close>
  and the capability names the placement code reads.
\<close>

section \<open>Capabilities\<close>

definition DISK_QUOTA_CAPABILITY :: string where
  "DISK_QUOTA_CAPABILITY = ''disk-quota''"

definition STORAGE_NATIVE_CAPABILITY :: string where
  "STORAGE_NATIVE_CAPABILITY = ''storage-native-v1''"

definition RUNTIME_CPU_CAPABILITY_PREFIX :: string where
  "RUNTIME_CPU_CAPABILITY_PREFIX = ''runtime-cpu-features-sha256:''"

definition has_capability :: "string list \<Rightarrow> string \<Rightarrow> bool" where
  "has_capability capabilities capability \<longleftrightarrow> capability \<in> set capabilities"

lemmas capability_defs = DISK_QUOTA_CAPABILITY_def STORAGE_NATIVE_CAPABILITY_def
  RUNTIME_CPU_CAPABILITY_PREFIX_def has_capability_def

section \<open>Shape and disk accounting\<close>

definition PHYSICAL_MEMORY_FLOOR_MB :: int where
  "PHYSICAL_MEMORY_FLOOR_MB = 2048"

definition dynamic_request_fits ::
  "ResourceQuantity \<Rightarrow> ResourceQuantity \<Rightarrow> ResourceQuantity \<Rightarrow> bool" where
  "dynamic_request_fits requested available shape =
     (if \<not> rq_is_valid requested
         \<or> \<not> (0 < vcpu requested \<or> 0 < memory_mb requested \<or> 0 < disk_mb requested)
      then False
      else vcpu requested \<le> vcpu shape \<and> memory_mb requested \<le> memory_mb shape
           \<and> disk_mb requested \<le> disk_mb available)"

definition reserve_dynamic_resources ::
  "ResourceQuantity \<Rightarrow> ResourceQuantity \<Rightarrow> ResourceQuantity" where
  "reserve_dynamic_resources available requested =
     ResourceQuantity (vcpu available) (memory_mb available)
       (max 0 (disk_mb available - disk_mb requested))"

definition reusable_dynamic_resources ::
  "ResourceQuantity \<Rightarrow> ResourceQuantity \<Rightarrow> ResourceQuantity" where
  "reusable_dynamic_resources available shape =
     ResourceQuantity (vcpu shape) (memory_mb shape) (disk_mb available)"

lemma reserve_dynamic_sel [simp]:
  "vcpu (reserve_dynamic_resources a r) = vcpu a"
  "memory_mb (reserve_dynamic_resources a r) = memory_mb a"
  "disk_mb (reserve_dynamic_resources a r) = max 0 (disk_mb a - disk_mb r)"
  by (simp_all add: reserve_dynamic_resources_def)

lemma reusable_dynamic_sel [simp]:
  "vcpu (reusable_dynamic_resources a t) = vcpu t"
  "memory_mb (reusable_dynamic_resources a t) = memory_mb t"
  "disk_mb (reusable_dynamic_resources a t) = disk_mb a"
  by (simp_all add: reusable_dynamic_resources_def)

lemma dynamic_request_fitsD:
  assumes "dynamic_request_fits r a t"
  shows "0 \<le> disk_mb r" "0 \<le> memory_mb r" "0 \<le> vcpu r"
    and "disk_mb r \<le> disk_mb a" "memory_mb r \<le> memory_mb t" "vcpu r \<le> vcpu t"
  using assms by (auto simp: dynamic_request_fits_def rq_is_valid_def split: if_splits)

lemma dynamic_request_fits_mono:
  assumes "dynamic_request_fits r a t" "disk_mb a \<le> disk_mb a'" "vcpu t \<le> vcpu t'"
    and "memory_mb t \<le> memory_mb t'"
  shows "dynamic_request_fits r a' t'"
  using assms by (auto simp: dynamic_request_fits_def split: if_splits)

text \<open>A fitting request leaves no negative disk: the reservation is exact.\<close>

lemma reserve_dynamic_exact:
  "dynamic_request_fits r a t \<Longrightarrow>
     disk_mb (reserve_dynamic_resources a r) + disk_mb r = disk_mb a"
  by (auto dest: dynamic_request_fitsD)

section \<open>Live pressure\<close>

definition NO_METRICS :: string where
  "NO_METRICS = ''direct node has no fresh runtime metrics for dynamic admission''"

definition CPU_PRESSURE :: string where
  "CPU_PRESSURE = ''direct node CPU pressure blocks active admission''"

definition CPU_LOAD :: string where
  "CPU_LOAD = ''direct node CPU load blocks active admission''"

definition MEMORY_PRESSURE :: string where
  "MEMORY_PRESSURE = ''direct node memory pressure blocks active admission''"

definition PHYSICAL_HEADROOM :: string where
  "PHYSICAL_HEADROOM = ''direct node has insufficient physical live memory headroom''"

definition LIVE_HEADROOM :: string where
  "LIVE_HEADROOM = ''direct node has insufficient live memory headroom''"

definition cpu_pressure_error :: "NodeRuntimeMetrics \<Rightarrow> string option" where
  "cpu_pressure_error m =
     (if (case cpu_percent m of None \<Rightarrow> False | Some c \<Rightarrow> 90 \<le> c) then Some CPU_PRESSURE
      else if 0 < cpu_count m
           \<and> (case load_average_1m m of None \<Rightarrow> False
              | Some l \<Rightarrow> of_int (cpu_count m) * (5 / 4) \<le> l)
           \<and> (case cpu_percent m of None \<Rightarrow> True | Some c \<Rightarrow> 80 \<le> c)
      then Some CPU_LOAD
      else None)"

definition memory_pressure_error ::
  "NodeRuntimeMetrics \<Rightarrow> ResourceQuantity \<Rightarrow> bool \<Rightarrow> string option" where
  "memory_pressure_error m requested check_psi =
     (if check_psi \<and> (case memory_psi_full_avg10 m of None \<Rightarrow> False | Some p \<Rightarrow> 10 \<le> p)
      then Some MEMORY_PRESSURE
      else if 0 < memory_total_mb m \<and> memory_available_mb m < PHYSICAL_MEMORY_FLOOR_MB
      then Some PHYSICAL_HEADROOM
      else
        let minimum_headroom_mb = max PHYSICAL_MEMORY_FLOOR_MB (memory_mb requested);
            (available_memory_mb, memory_is_known) =
              (if 0 < swap_total_mb m
               then (memory_available_mb m + swap_free_mb m, True)
               else (memory_available_mb m, 0 < memory_total_mb m))
        in if memory_is_known \<and> available_memory_mb < minimum_headroom_mb
           then Some LIVE_HEADROOM else None)"

definition dynamic_pressure_error ::
  "NodeRuntimeMetrics option \<Rightarrow> ResourceQuantity \<Rightarrow> bool \<Rightarrow> bool \<Rightarrow> string option" where
  "dynamic_pressure_error metrics requested check_cpu check_memory_pressure =
     (case metrics of
        None \<Rightarrow> Some NO_METRICS
      | Some m \<Rightarrow>
          (case (if check_cpu then cpu_pressure_error m else None) of
             Some e \<Rightarrow> Some e
           | None \<Rightarrow> memory_pressure_error m requested check_memory_pressure))"

lemma no_memory_pressureD:
  assumes "memory_pressure_error m r psi = None"
  shows "0 < memory_total_mb m \<Longrightarrow> PHYSICAL_MEMORY_FLOOR_MB \<le> memory_available_mb m"
    and "0 < memory_total_mb m \<Longrightarrow> swap_total_mb m \<le> 0 \<Longrightarrow> memory_mb r \<le> memory_available_mb m"
    and "0 < swap_total_mb m \<Longrightarrow> memory_mb r \<le> memory_available_mb m + swap_free_mb m"
  using assms by (auto simp: memory_pressure_error_def Let_def split: if_splits)

text \<open>A larger request meets at least the pressure of a smaller one.\<close>

lemma memory_pressure_error_mono:
  assumes "memory_pressure_error m r psi = None" "memory_mb r' \<le> memory_mb r"
  shows "memory_pressure_error m r' psi = None"
  using assms by (auto simp: memory_pressure_error_def Let_def split: if_splits)

section \<open>Storage pressure and the node's acceptance\<close>

definition node_storage_pressure_allows :: "NodeHeartbeat \<Rightarrow> ResourceQuantity \<Rightarrow> bool" where
  "node_storage_pressure_allows h requested =
     (if \<not> has_capability (hb_capabilities h) STORAGE_NATIVE_CAPABILITY then True
      else case hb_runtime_metrics h of
             None \<Rightarrow> False
           | Some m \<Rightarrow>
               if storage_hard_capacity_mb m \<le> 0 then False
               else if 0 < storage_error_volumes m then False
               else if 0 < storage_ublk_max_devices m
                       \<and> storage_ublk_max_devices m \<le> storage_ublk_active_devices m then False
               else if 0 < storage_max_concurrent_operations m
                       \<and> storage_max_concurrent_operations m \<le> storage_waiting_operations m
               then False
               else disk_mb requested
                      \<le> max 0 (storage_hard_capacity_mb m - storage_hard_reserved_mb m))"

text \<open>\<open>shape\<close> None means the heartbeat's own total.\<close>

definition node_accepts_dynamic_request ::
  "NodeHeartbeat \<Rightarrow> ResourceQuantity \<Rightarrow> ResourceQuantity \<Rightarrow> ResourceQuantity option \<Rightarrow> bool \<Rightarrow> bool"
where
  "node_accepts_dynamic_request h requested available shape check_cpu =
     (if \<not> dynamic_request_fits requested available
           (case shape of None \<Rightarrow> hb_total_resources h | Some t \<Rightarrow> t)
      then False
      else if 0 < disk_mb requested
              \<and> \<not> has_capability (hb_capabilities h) DISK_QUOTA_CAPABILITY
      then False
      else dynamic_pressure_error (hb_runtime_metrics h) requested check_cpu True = None
           \<and> node_storage_pressure_allows h requested)"

text \<open>
  What an accepted request is entitled to rely on: it fits the physical shape and the free
  disk, disk is only granted where quotas exist, the node keeps the physical memory floor and
  the request's own memory, and a storage-native daemon has the bytes.
\<close>

lemma node_accepts_dynamic_requestD:
  assumes "node_accepts_dynamic_request h r a shape cpu"
  shows "dynamic_request_fits r a (case shape of None \<Rightarrow> hb_total_resources h | Some t \<Rightarrow> t)"
    and "0 < disk_mb r \<Longrightarrow> has_capability (hb_capabilities h) DISK_QUOTA_CAPABILITY"
    and "\<exists>m. hb_runtime_metrics h = Some m \<and> memory_pressure_error m r True = None"
    and "node_storage_pressure_allows h r"
  using assms
  by (auto simp: node_accepts_dynamic_request_def dynamic_pressure_error_def
      split: if_splits option.splits)

section \<open>The destination-ranking score\<close>

definition clamp01 :: "rat \<Rightarrow> rat" where
  "clamp01 x = max 0 (min 1 x)"

definition percent_of :: "rat option \<Rightarrow> rat" where
  "percent_of v = clamp01 ((case v of None \<Rightarrow> 0 | Some x \<Rightarrow> x) / 100)"

definition node_pressure_score :: "NodeHeartbeat \<Rightarrow> rat" where
  "node_pressure_score h =
     (case hb_runtime_metrics h of
        None \<Rightarrow> 0
      | Some m \<Rightarrow>
          max_default 0
            ([percent_of (cpu_percent m), percent_of (memory_percent m),
              min 1 (of_int (memory_working_set_mb m) / of_int (max 1 (memory_total_mb m))),
              percent_of (memory_psi_full_avg10 m), percent_of (memory_psi_some_avg10 m),
              percent_of (io_psi_some_avg10 m), percent_of (io_psi_full_avg10 m)]
             @ (if 0 < storage_max_concurrent_operations m
                then [clamp01 (of_int (storage_active_operations m + storage_waiting_operations m)
                                / of_int (storage_max_concurrent_operations m))]
                else [])))"

lemma percent_of_bounds: "0 \<le> percent_of v" "percent_of v \<le> 1"
  by (simp_all add: percent_of_def clamp01_def)

lemma node_pressure_score_bounds: "0 \<le> node_pressure_score h" "node_pressure_score h \<le> 1"
proof -
  show "0 \<le> node_pressure_score h"
  proof (cases "hb_runtime_metrics h")
    case (Some m)
    have "percent_of (cpu_percent m) \<le> node_pressure_score h"
      unfolding node_pressure_score_def Some max_default_def
      by (simp only: option.case append_Cons list.case fold_max_ge)
    then show ?thesis using percent_of_bounds(1) order_trans by blast
  qed (simp add: node_pressure_score_def)
  show "node_pressure_score h \<le> 1"
  proof (cases "hb_runtime_metrics h")
    case (Some m)
    show ?thesis
      unfolding node_pressure_score_def Some max_default_def option.case append_Cons list.case
      by (rule fold_max_le) (auto simp: percent_of_bounds clamp01_def)
  qed (simp add: node_pressure_score_def)
qed

end
