(* ===== verification/Transition_Ledger.thy ===== *)
theory Transition_Ledger
  imports Models
begin

text \<open>
  \<open>src/ucloud_sandboxes/transition_admission.py\<close>: the ledger of in-flight transitions that a
  node's admission lock guards. Claims and waiting entries carry unique tokens; growth forecasts
  carry running totals, so a projection does not walk every sandbox. The reference against which
  the running totals are checked is \<open>total_spec\<close>: the sum over owners of the largest of the
  owner's forecast, claims and extra demands.
\<close>

section \<open>Costs and claims\<close>

datatype TransitionKind = STARTUP | RESTORE | CAPTURE | PUBLICATION

text \<open>The two byte resources of \<open>_RESOURCES\<close>; \<open>getattr(cost, resource)\<close> is \<open>cost_get\<close>.\<close>

datatype Resource = Memory | Ram_Backing

record TransitionCost =
  tc_kind :: TransitionKind
  tc_memory_bytes :: "int option"
  tc_read_bytes :: "int option"
  tc_write_bytes :: "int option"
  tc_provenance :: string
  tc_ram_backing_bytes :: "int option"

text \<open>An owner is a sandbox id with its generation. A request that names no owner passes \<open>None\<close>, a
  dictionary key like any other.\<close>

type_synonym owner = "(string \<times> int) option"

record TransitionClaim =
  cl_token :: nat
  cl_owner :: owner
  cl_cost :: TransitionCost
  cl_requested :: "ResourceQuantity option"

fun cost_get :: "Resource \<Rightarrow> TransitionCost \<Rightarrow> int option" where
  "cost_get Memory c = tc_memory_bytes c"
| "cost_get Ram_Backing c = tc_ram_backing_bytes c"

definition nonneg_opt :: "int option \<Rightarrow> bool" where
  "nonneg_opt v \<longleftrightarrow> (case v of None \<Rightarrow> True | Some x \<Rightarrow> 0 \<le> x)"

text \<open>What \<open>TransitionCost.__post_init__\<close> accepts.\<close>

definition cost_valid :: "TransitionCost \<Rightarrow> bool" where
  "cost_valid c \<longleftrightarrow> nonneg_opt (tc_memory_bytes c) \<and> nonneg_opt (tc_read_bytes c)
     \<and> nonneg_opt (tc_write_bytes c) \<and> nonneg_opt (tc_ram_backing_bytes c)"

definition or_zero :: "int option \<Rightarrow> int" where
  "or_zero v = (case v of None \<Rightarrow> 0 | Some x \<Rightarrow> x)"

lemma or_zero_simps [simp]: "or_zero None = 0" "or_zero (Some x) = x"
  by (simp_all add: or_zero_def)

lemma cost_get_nonneg: "cost_valid c \<Longrightarrow> 0 \<le> or_zero (cost_get r c)"
  by (cases r) (auto simp: cost_valid_def nonneg_opt_def or_zero_def split: option.splits)

section \<open>The ledger\<close>

record TransitionLedger =
  lg_next :: nat
  lg_claims :: "(nat, TransitionClaim) dict"
  lg_waiting :: "(nat, TransitionClaim) dict"
  lg_growth :: "(owner, TransitionCost) dict"
  lg_growth_totals :: "Resource \<Rightarrow> int"
  lg_growth_unknown :: int

definition new_ledger :: TransitionLedger where
  "new_ledger = \<lparr>lg_next = 0, lg_claims = [], lg_waiting = [], lg_growth = [],
                 lg_growth_totals = (\<lambda>_. 0), lg_growth_unknown = 0\<rparr>"

definition ledger_wait ::
  "TransitionLedger \<Rightarrow> owner \<Rightarrow> TransitionCost \<Rightarrow> nat \<times> TransitionLedger" where
  "ledger_wait l owner cost =
     (let n = Suc (lg_next l);
          c = \<lparr>cl_token = n, cl_owner = owner, cl_cost = cost, cl_requested = None\<rparr>
      in (n, l\<lparr>lg_next := n, lg_waiting := AList.update n c (lg_waiting l)\<rparr>))"

definition ledger_unwait :: "TransitionLedger \<Rightarrow> nat \<Rightarrow> TransitionLedger" where
  "ledger_unwait l token = l\<lparr>lg_waiting := AList.delete token (lg_waiting l)\<rparr>"

definition refresh_wait_cost ::
  "TransitionLedger \<Rightarrow> owner \<Rightarrow> TransitionCost \<Rightarrow> TransitionLedger" where
  "refresh_wait_cost l owner cost =
     l\<lparr>lg_waiting := map (\<lambda>(token, item).
        if cl_owner item = owner \<and> tc_kind (cl_cost item) = tc_kind cost
        then (token, item\<lparr>cl_cost := cost\<rparr>) else (token, item)) (lg_waiting l)\<rparr>"

definition ledger_claim ::
  "TransitionLedger \<Rightarrow> owner \<Rightarrow> TransitionCost \<Rightarrow> ResourceQuantity option
     \<Rightarrow> TransitionClaim \<times> TransitionLedger" where
  "ledger_claim l owner cost requested =
     (let n = Suc (lg_next l);
          c = \<lparr>cl_token = n, cl_owner = owner, cl_cost = cost, cl_requested = requested\<rparr>
      in (c, l\<lparr>lg_next := n, lg_claims := AList.update n c (lg_claims l)\<rparr>))"

definition active_count :: "TransitionLedger \<Rightarrow> TransitionKind \<Rightarrow> int" where
  "active_count l kind =
     int (length (filter (\<lambda>(_, c). tc_kind (cl_cost c) = kind) (lg_claims l)))"

datatype ledger_error = ClaimNotOwned

definition ledger_release ::
  "TransitionLedger \<Rightarrow> TransitionClaim \<Rightarrow> ledger_error + TransitionLedger" where
  "ledger_release l c =
     (if dict_get (lg_claims l) (cl_token c) \<noteq> Some c then Inl ClaimNotOwned
      else Inr (l\<lparr>lg_claims := AList.delete (cl_token c) (lg_claims l)\<rparr>))"

definition resource_reservations :: "TransitionLedger \<Rightarrow> (owner, ResourceQuantity) dict" where
  "resource_reservations l =
     fold (\<lambda>(_, c) d. case cl_requested c of None \<Rightarrow> d | Some r \<Rightarrow> AList.update (cl_owner c) r d)
       (lg_claims l) []"

text \<open>The loop over \<open>((-1, previous), (1, cost))\<close>, one signed item at a time.\<close>

definition apply_growth :: "int \<Rightarrow> TransitionCost option \<Rightarrow> TransitionLedger \<Rightarrow> TransitionLedger" where
  "apply_growth sign item l =
     (case item of
        None \<Rightarrow> l
      | Some c \<Rightarrow>
          l\<lparr>lg_growth_totals := (\<lambda>r. lg_growth_totals l r + sign * or_zero (cost_get r c)),
            lg_growth_unknown := lg_growth_unknown l
              + sign * (if tc_memory_bytes c = None then 1 else 0)\<rparr>)"

definition set_growth_forecast ::
  "TransitionLedger \<Rightarrow> owner \<Rightarrow> TransitionCost option \<Rightarrow> TransitionLedger" where
  "set_growth_forecast l owner cost =
     (let previous = dict_get (lg_growth l) owner;
          l1 = l\<lparr>lg_growth := AList.delete owner (lg_growth l)\<rparr>;
          l2 = apply_growth 1 cost (apply_growth (- 1) previous l1)
      in case cost of
           None \<Rightarrow> l2
         | Some c \<Rightarrow> l2\<lparr>lg_growth := AList.update owner c (lg_growth l2)\<rparr>)"

definition set_growth_forecasts ::
  "TransitionLedger \<Rightarrow> (owner, TransitionCost) dict \<Rightarrow> TransitionLedger" where
  "set_growth_forecasts l forecasts =
     fold (\<lambda>(owner, cost) l. set_growth_forecast l owner (Some cost)) forecasts
       (fold (\<lambda>owner l. set_growth_forecast l owner None) (map fst (lg_growth l)) l)"

section \<open>Projections\<close>

type_synonym demand = "owner \<times> int option"

definition bump_peak :: "demand \<Rightarrow> (owner, int) dict \<Rightarrow> (owner, int) dict" where
  "bump_peak = (\<lambda>(owner, value) peaks.
     case value of
       None \<Rightarrow> peaks
     | Some v \<Rightarrow>
         if or_zero (dict_get peaks owner) < v then AList.update owner v peaks else peaks)"

definition claim_demands :: "TransitionLedger \<Rightarrow> Resource \<Rightarrow> demand list" where
  "claim_demands l resource =
     map (\<lambda>(_, c). (cl_owner c, cost_get resource (cl_cost c))) (lg_claims l)"

definition ledger_total :: "TransitionLedger \<Rightarrow> Resource \<Rightarrow> demand list \<Rightarrow> int" where
  "ledger_total l resource extra =
     (let peaks = fold bump_peak (claim_demands l resource @ extra) []
      in lg_growth_totals l resource
         + sum_list (map (\<lambda>(owner, value).
             max 0 (value - (case dict_get (lg_growth l) owner of
                               None \<Rightarrow> 0 | Some forecast \<Rightarrow> or_zero (cost_get resource forecast))))
             peaks))"

definition known_memory_bytes :: "TransitionLedger \<Rightarrow> int" where
  "known_memory_bytes l = ledger_total l Memory []"

definition pending :: "TransitionLedger \<Rightarrow> TransitionKind \<Rightarrow> TransitionClaim list" where
  "pending l kind =
     (let active = map cl_owner (filter (\<lambda>c. tc_kind (cl_cost c) = kind) (map snd (lg_claims l)))
      in map snd
           (fold (\<lambda>item owners.
              if tc_kind (cl_cost item) = kind \<and> cl_owner item \<notin> set active
                 \<and> dict_get owners (cl_owner item) = None
              then AList.update (cl_owner item) item owners else owners)
            (map snd (lg_waiting l)) []))"

definition projected_memory_bytes ::
  "TransitionLedger \<Rightarrow> owner \<Rightarrow> TransitionCost \<Rightarrow> Resource \<Rightarrow> int" where
  "projected_memory_bytes l owner cost resource =
     ledger_total l resource
       ((owner, cost_get resource cost)
        # (if tc_kind cost = STARTUP
           then map (\<lambda>item. (cl_owner item, cost_get resource (cl_cost item))) (pending l RESTORE)
           else []))"

definition foreground_waiting :: "TransitionLedger \<Rightarrow> bool" where
  "foreground_waiting l \<longleftrightarrow> pending l STARTUP \<noteq> [] \<or> pending l RESTORE \<noteq> []"

definition next_pending ::
  "TransitionLedger \<Rightarrow> TransitionKind \<Rightarrow> int \<Rightarrow> TransitionClaim option" where
  "next_pending l kind capacity =
     (if capacity \<le> active_count l kind then None
      else case pending l kind of [] \<Rightarrow> None | item # _ \<Rightarrow> Some item)"

definition next_memory_demands ::
  "TransitionLedger \<Rightarrow> (TransitionKind, int) dict \<Rightarrow> Resource \<Rightarrow> int" where
  "next_memory_demands l limits resource =
     (let charge = (\<lambda>item. ledger_total l resource [(cl_owner item, cost_get resource (cl_cost item))])
      in case next_pending l RESTORE (or_zero (dict_get limits RESTORE)) of
           Some item \<Rightarrow> charge item
         | None \<Rightarrow>
             (case next_pending l STARTUP (or_zero (dict_get limits STARTUP)) of
                Some item \<Rightarrow> charge item
              | None \<Rightarrow> ledger_total l resource []))"

section \<open>Snapshots\<close>

record DemandSnapshot =
  admitted_demand_bytes :: int
  pending_demand_bytes :: int
  unknown_transition_memory_costs :: int
  admitted_ram_backing_bytes :: int
  pending_ram_backing_bytes :: int

definition unknown_memory :: "TransitionClaim list \<Rightarrow> int" where
  "unknown_memory cs = int (length (filter (\<lambda>c. tc_memory_bytes (cl_cost c) = None) cs))"

definition demand_snapshot :: "TransitionLedger \<Rightarrow> (TransitionKind, int) dict \<Rightarrow> DemandSnapshot" where
  "demand_snapshot l limits =
     (let admitted = known_memory_bytes l;
          admitted_ram = ledger_total l Ram_Backing []
      in \<lparr>admitted_demand_bytes = admitted,
          pending_demand_bytes = max 0 (next_memory_demands l limits Memory - admitted),
          unknown_transition_memory_costs =
            unknown_memory (map snd (lg_claims l)) + lg_growth_unknown l
            + sum_list (map (\<lambda>kind. unknown_memory (pending l kind)) (map fst limits)),
          admitted_ram_backing_bytes = admitted_ram,
          pending_ram_backing_bytes =
            max 0 (next_memory_demands l limits Ram_Backing - admitted_ram)\<rparr>)"

record KindSnapshot =
  ks_active :: int
  ks_waiting :: int
  ks_memory_bytes :: "int option"
  ks_read_bytes :: "int option"
  ks_write_bytes :: "int option"

definition sum_known :: "int option list \<Rightarrow> int option" where
  "sum_known vs = (if None \<in> set vs then None else Some (sum_list (map or_zero vs)))"

definition kind_snapshot :: "TransitionLedger \<Rightarrow> TransitionKind \<Rightarrow> KindSnapshot" where
  "kind_snapshot l kind =
     (let costs = filter (\<lambda>c. tc_kind c = kind) (map (cl_cost \<circ> snd) (lg_claims l))
      in \<lparr>ks_active = int (length costs), ks_waiting = int (length (pending l kind)),
          ks_memory_bytes = sum_known (map tc_memory_bytes costs),
          ks_read_bytes = sum_known (map tc_read_bytes costs),
          ks_write_bytes = sum_known (map tc_write_bytes costs)\<rparr>)"

definition ledger_snapshot :: "TransitionLedger \<Rightarrow> (TransitionKind, KindSnapshot) dict" where
  "ledger_snapshot l =
     map (\<lambda>kind. (kind, kind_snapshot l kind)) [STARTUP, RESTORE, CAPTURE, PUBLICATION]"

section \<open>The invariant\<close>

definition claims_ok :: "nat \<Rightarrow> (nat, TransitionClaim) dict \<Rightarrow> bool" where
  "claims_ok n d \<longleftrightarrow> dict_keys_ok d
     \<and> (\<forall>(t, c) \<in> set d. cl_token c = t \<and> t \<le> n \<and> cost_valid (cl_cost c))"

definition growth_sum :: "Resource \<Rightarrow> (owner, TransitionCost) dict \<Rightarrow> int" where
  "growth_sum r d = sum_list (map (\<lambda>(_, c). or_zero (cost_get r c)) d)"

definition growth_none :: "(owner, TransitionCost) dict \<Rightarrow> int" where
  "growth_none d = sum_list (map (\<lambda>(_, c). if tc_memory_bytes c = None then 1 else 0) d)"

definition ledger_inv :: "TransitionLedger \<Rightarrow> bool" where
  "ledger_inv l \<longleftrightarrow> claims_ok (lg_next l) (lg_claims l) \<and> claims_ok (lg_next l) (lg_waiting l)
     \<and> dict_keys_ok (lg_growth l) \<and> (\<forall>(_, c) \<in> set (lg_growth l). cost_valid c)
     \<and> (\<forall>r. lg_growth_totals l r = growth_sum r (lg_growth l))
     \<and> lg_growth_unknown l = growth_none (lg_growth l)"

lemma claims_ok_add:
  assumes "claims_ok n d" "cl_token c = Suc n" "cost_valid (cl_cost c)"
  shows "claims_ok (Suc n) (AList.update (Suc n) c d)"
proof -
  have "Suc n \<notin> fst ` set d" using assms(1) by (fastforce simp: claims_ok_def)
  then show ?thesis using assms by (fastforce simp: claims_ok_def dict_update_new)
qed

lemma claims_ok_mono: "claims_ok n d \<Longrightarrow> n \<le> m \<Longrightarrow> claims_ok m d"
  by (fastforce simp: claims_ok_def)

lemma claims_ok_delete: "claims_ok n d \<Longrightarrow> claims_ok n (AList.delete t d)"
  by (auto simp: claims_ok_def dict_in_delete)

lemma wait_inv:
  "ledger_inv l \<Longrightarrow> cost_valid cost \<Longrightarrow> ledger_inv (snd (ledger_wait l owner cost))"
  by (auto simp: ledger_inv_def ledger_wait_def Let_def intro: claims_ok_add claims_ok_mono)

lemma unwait_inv: "ledger_inv l \<Longrightarrow> ledger_inv (ledger_unwait l token)"
  by (simp add: ledger_inv_def ledger_unwait_def claims_ok_delete)

lemma refresh_inv:
  assumes "ledger_inv l" "cost_valid cost"
  shows "ledger_inv (refresh_wait_cost l owner cost)"
proof -
  let ?f = "\<lambda>(token, item). if cl_owner item = owner \<and> tc_kind (cl_cost item) = tc_kind cost
        then (token, item\<lparr>cl_cost := cost\<rparr>) else (token, item)"
  have "claims_ok n (map ?f d)" if "claims_ok n d" for n d
    unfolding claims_ok_def
  proof
    have "map fst (map ?f d) = map fst d" by (induction d) auto
    with that show "dict_keys_ok (map ?f d)" unfolding claims_ok_def by metis
    show "\<forall>(t, c) \<in> set (map ?f d). cl_token c = t \<and> t \<le> n \<and> cost_valid (cl_cost c)"
      using that assms(2) by (auto simp: claims_ok_def split: if_splits)
  qed
  then show ?thesis using assms(1) by (simp add: ledger_inv_def refresh_wait_cost_def)
qed

lemma claim_inv:
  "ledger_inv l \<Longrightarrow> cost_valid cost \<Longrightarrow> ledger_inv (snd (ledger_claim l owner cost requested))"
  by (auto simp: ledger_inv_def ledger_claim_def Let_def intro: claims_ok_add claims_ok_mono)

lemma release_inv: "ledger_inv l \<Longrightarrow> ledger_release l c = Inr l' \<Longrightarrow> ledger_inv l'"
  by (auto simp: ledger_inv_def ledger_release_def claims_ok_delete split: if_splits)

lemma growth_sums_delete:
  assumes "dict_keys_ok d"
  shows "growth_sum r (AList.delete o' d)
           = growth_sum r d - (case dict_get d o' of None \<Rightarrow> 0 | Some c \<Rightarrow> or_zero (cost_get r c))"
    and "growth_none (AList.delete o' d)
           = growth_none d
             - (case dict_get d o' of None \<Rightarrow> 0 | Some c \<Rightarrow> if tc_memory_bytes c = None then 1 else 0)"
  unfolding growth_sum_def growth_none_def
  by (simp_all add: sum_list_dict_delete [OF assms] split: option.split)

lemma growth_inv:
  assumes "ledger_inv l" "\<And>c. cost = Some c \<Longrightarrow> cost_valid c"
  shows "ledger_inv (set_growth_forecast l owner cost)"
proof -
  let ?d = "AList.delete owner (lg_growth l)"
  have ok: "dict_keys_ok ?d" "\<forall>(_, c) \<in> set ?d. cost_valid c" "owner \<notin> fst ` set ?d"
    using assms(1) by (auto simp: ledger_inv_def dict_in_delete)
  have keys: "dict_keys_ok (lg_growth l)" using assms(1) by (simp add: ledger_inv_def)
  note sums = growth_sums_delete [OF keys, where o' = owner]
  show ?thesis
  proof (cases cost)
    case None
    then show ?thesis
      using assms(1) ok sums
      by (cases "dict_get (lg_growth l) owner")
        (simp_all add: set_growth_forecast_def apply_growth_def Let_def ledger_inv_def)
  next
    case (Some c)
    then show ?thesis
      using assms ok sums
      by (cases "dict_get (lg_growth l) owner")
        (auto simp: set_growth_forecast_def apply_growth_def Let_def ledger_inv_def
          dict_update_new growth_sum_def growth_none_def)
  qed
qed

lemma growths_inv:
  assumes "ledger_inv l" "\<forall>(_, c) \<in> set forecasts. cost_valid c"
  shows "ledger_inv (set_growth_forecasts l forecasts)"
proof -
  have clear: "ledger_inv l \<Longrightarrow> ledger_inv (fold (\<lambda>owner l. set_growth_forecast l owner None) os l)"
    for l os by (induction os arbitrary: l) (auto intro: growth_inv)
  have fill: "ledger_inv l \<Longrightarrow> \<forall>(_, c) \<in> set fs. cost_valid c \<Longrightarrow>
      ledger_inv (fold (\<lambda>(owner, cost) l. set_growth_forecast l owner (Some cost)) fs l)"
    for l fs by (induction fs arbitrary: l) (auto intro: growth_inv)
  show ?thesis unfolding set_growth_forecasts_def using assms clear fill by blast
qed

section \<open>The running totals implement the sum of per-owner peaks\<close>

text \<open>The largest known demand of an owner in a list of demands, at least 0.\<close>

definition peak :: "demand list \<Rightarrow> owner \<Rightarrow> int" where
  "peak xs ow = foldr (\<lambda>(o', v) m. if o' = ow then max (or_zero v) m else m) xs 0"

definition forecast :: "TransitionLedger \<Rightarrow> Resource \<Rightarrow> owner \<Rightarrow> int" where
  "forecast l r ow =
     (case dict_get (lg_growth l) ow of None \<Rightarrow> 0 | Some c \<Rightarrow> or_zero (cost_get r c))"

definition total_spec :: "TransitionLedger \<Rightarrow> Resource \<Rightarrow> demand list \<Rightarrow> int" where
  "total_spec l r extra =
     (\<Sum>ow \<in> fst ` set (lg_growth l) \<union> fst ` set (claim_demands l r @ extra).
        max (forecast l r ow) (peak (claim_demands l r @ extra) ow))"

lemma peak_simps [simp]:
  "peak [] ow = 0"
  "peak ((o', v) # xs) ow = (if o' = ow then max (or_zero v) (peak xs ow) else peak xs ow)"
  by (simp_all add: peak_def)

lemma peak_nonneg: "0 \<le> peak xs ow"
  by (induction xs) auto

lemma peak_append: "peak (xs @ ys) ow = max (peak xs ow) (peak ys ow)"
  by (induction xs) (auto simp: peak_nonneg max.assoc)

lemma peak_absent: "ow \<notin> fst ` set xs \<Longrightarrow> peak xs ow = 0"
  by (induction xs) auto

definition peaks_ok :: "(owner, int) dict \<Rightarrow> bool" where
  "peaks_ok d \<longleftrightarrow> dict_keys_ok d \<and> (\<forall>(_, v) \<in> set d. 0 < v)"

lemma peaks_ok_get: "peaks_ok d \<Longrightarrow> 0 \<le> or_zero (dict_get d ow)"
  by (cases "dict_get d ow") (auto simp: peaks_ok_def dest!: map_of_SomeD)

lemma bump_peak_props:
  assumes "peaks_ok d"
  shows "peaks_ok (bump_peak (o', v) d)"
    and "or_zero (dict_get (bump_peak (o', v) d) ow)
           = (if o' = ow then max (or_zero v) (or_zero (dict_get d ow)) else or_zero (dict_get d ow))"
    and "fst ` set (bump_peak (o', v) d) \<subseteq> insert o' (fst ` set d)"
proof -
  have nn: "0 \<le> or_zero (dict_get d o')" by (rule peaks_ok_get [OF assms])
  show "peaks_ok (bump_peak (o', v) d)"
    using assms nn by (fastforce simp: bump_peak_def peaks_ok_def split: option.splits dest: dict_in_update)
  show "or_zero (dict_get (bump_peak (o', v) d) ow)
      = (if o' = ow then max (or_zero v) (or_zero (dict_get d ow)) else or_zero (dict_get d ow))"
    using nn by (auto simp: bump_peak_def AList.update_conv' split: option.splits)
  show "fst ` set (bump_peak (o', v) d) \<subseteq> insert o' (fst ` set d)"
    by (auto simp: bump_peak_def dom_update split: option.splits)
qed

lemma fold_bump_peak:
  assumes "peaks_ok d"
  shows "peaks_ok (fold bump_peak xs d)
     \<and> (\<forall>ow. or_zero (dict_get (fold bump_peak xs d) ow) = max (or_zero (dict_get d ow)) (peak xs ow))
     \<and> fst ` set (fold bump_peak xs d) \<subseteq> fst ` set d \<union> fst ` set xs"
  using assms
proof (induction xs arbitrary: d)
  case Nil
  then show ?case by (simp add: peaks_ok_get max_absorb1)
next
  case (Cons x xs)
  obtain o' v where x: "x = (o', v)" by (cases x)
  note b = bump_peak_props [OF Cons.prems, of o' v]
  note ih = Cons.IH [OF b(1)]
  have "fst ` set (fold bump_peak (x # xs) d) \<subseteq> fst ` set d \<union> fst ` set (x # xs)"
    using ih b(3) unfolding x by (simp only: fold_simps list.set image_insert fst_conv) blast
  with ih b(2) show ?case
    unfolding x by (simp add: max.assoc max.commute max.left_commute)
qed

text \<open>Owners without any demand add nothing, so the sum may range over any larger set of owners.\<close>

lemma total_spec_superset:
  assumes "ledger_inv l" "finite U"
    and "fst ` set (lg_growth l) \<union> fst ` set (claim_demands l r @ extra) \<subseteq> U"
  shows "total_spec l r extra = (\<Sum>ow \<in> U. max (forecast l r ow) (peak (claim_demands l r @ extra) ow))"
  unfolding total_spec_def
proof (rule sum.mono_neutral_left [OF assms(2,3)], rule ballI)
  fix ow
  assume "ow \<in> U - (fst ` set (lg_growth l) \<union> fst ` set (claim_demands l r @ extra))"
  then show "max (forecast l r ow) (peak (claim_demands l r @ extra) ow) = 0"
    by (simp add: peak_absent forecast_def dict_get_None_iff [THEN iffD2])
qed

lemma forecast_nonneg: "ledger_inv l \<Longrightarrow> 0 \<le> forecast l r ow"
  by (auto simp: forecast_def ledger_inv_def dest!: map_of_SomeD intro!: cost_get_nonneg
      split: option.splits)

lemma growth_totals_forecast:
  assumes "ledger_inv l" "finite U" "fst ` set (lg_growth l) \<subseteq> U"
  shows "lg_growth_totals l r = (\<Sum>ow \<in> U. forecast l r ow)"
proof -
  have keys: "dict_keys_ok (lg_growth l)" using assms(1) by (simp add: ledger_inv_def)
  have "lg_growth_totals l r = (\<Sum>ow \<in> fst ` set (lg_growth l). or_zero (cost_get r (the (dict_get (lg_growth l) ow))))"
    using assms(1) sum_list_dict_keys [OF keys, of "\<lambda>_ c. or_zero (cost_get r c)"]
    by (simp add: ledger_inv_def growth_sum_def)
  also have "\<dots> = (\<Sum>ow \<in> fst ` set (lg_growth l). forecast l r ow)"
    using keys by (intro sum.cong) (auto simp: forecast_def)
  also have "\<dots> = (\<Sum>ow \<in> U. forecast l r ow)"
    by (rule sum.mono_neutral_left [OF assms(2,3)])
      (simp add: forecast_def dict_get_None_iff [THEN iffD2])
  finally show ?thesis .
qed

lemma ledger_total_eq_spec:
  assumes "ledger_inv l"
  shows "ledger_total l r extra = total_spec l r extra"
proof -
  let ?xs = "claim_demands l r @ extra"
  let ?d = "fold bump_peak ?xs []"
  let ?U = "fst ` set (lg_growth l) \<union> fst ` set ?xs"
  have fb: "peaks_ok ?d" "\<And>ow. or_zero (dict_get ?d ow) = max 0 (peak ?xs ow)"
    "fst ` set ?d \<subseteq> fst ` set ?xs"
    using fold_bump_peak [of "[]" ?xs] by (auto simp: peaks_ok_def)
  have keys: "dict_keys_ok ?d" using fb(1) by (simp add: peaks_ok_def)
  have "sum_list (map (\<lambda>(ow, v). max 0 (v - forecast l r ow)) ?d)
      = (\<Sum>ow \<in> fst ` set ?d. max 0 (the (dict_get ?d ow) - forecast l r ow))"
    by (rule sum_list_dict_keys [OF keys])
  also have "\<dots> = (\<Sum>ow \<in> fst ` set ?d. max 0 (peak ?xs ow - forecast l r ow))"
  proof (rule sum.cong [OF refl])
    fix ow assume "ow \<in> fst ` set ?d"
    then obtain v where "dict_get ?d ow = Some v" by (metis dict_get_None_iff not_Some_eq)
    then show "max 0 (the (dict_get ?d ow) - forecast l r ow) = max 0 (peak ?xs ow - forecast l r ow)"
      using fb(2) [of ow] peak_nonneg [of ?xs ow] by (simp add: max_def)
  qed
  also have "\<dots> = (\<Sum>ow \<in> ?U. max 0 (peak ?xs ow - forecast l r ow))"
  proof (rule sum.mono_neutral_left)
    show "fst ` set ?d \<subseteq> ?U" using fb(3) by blast
    show "\<forall>ow \<in> ?U - fst ` set ?d. max 0 (peak ?xs ow - forecast l r ow) = 0"
    proof
      fix ow assume "ow \<in> ?U - fst ` set ?d"
      then have "dict_get ?d ow = None" by (simp add: dict_get_None_iff)
      then have "peak ?xs ow = 0"
        using fb(2) [of ow] peak_nonneg [of ?xs ow] by (simp add: max_def split: if_splits)
      then show "max 0 (peak ?xs ow - forecast l r ow) = 0"
        using forecast_nonneg [OF assms] by simp
    qed
  qed simp
  finally have "ledger_total l r extra
      = lg_growth_totals l r + (\<Sum>ow \<in> ?U. max 0 (peak ?xs ow - forecast l r ow))"
    by (simp add: ledger_total_def forecast_def Let_def)
  also have "\<dots> = (\<Sum>ow \<in> ?U. forecast l r ow + max 0 (peak ?xs ow - forecast l r ow))"
    using growth_totals_forecast [OF assms, of ?U r] by (simp add: sum.distrib)
  also have "\<dots> = total_spec l r extra"
    unfolding total_spec_def by (intro sum.cong) auto
  finally show ?thesis .
qed

lemma ledger_total_mono:
  assumes "ledger_inv l" "set extra \<subseteq> set extra'"
  shows "ledger_total l r extra \<le> ledger_total l r extra'"
proof -
  let ?U = "fst ` set (lg_growth l) \<union> fst ` set (claim_demands l r @ extra')"
  have peak_le: "peak ys ow \<le> peak zs ow" if "set ys \<subseteq> set zs" for ys zs ow
  proof -
    have "(ow, v) \<in> set zs \<Longrightarrow> or_zero v \<le> peak zs ow" for v
      by (induction zs) (auto simp: le_max_iff_disj)
    then show ?thesis using that by (induction ys) (auto simp: peak_nonneg)
  qed
  have "total_spec l r extra
      = (\<Sum>ow \<in> ?U. max (forecast l r ow) (peak (claim_demands l r @ extra) ow))"
    using assms(2) by (intro total_spec_superset [OF assms(1)]) auto
  also have "\<dots> \<le> total_spec l r extra'"
    unfolding total_spec_def using assms(2)
    by (intro sum_mono max.mono peak_le) auto
  finally show ?thesis by (simp add: ledger_total_eq_spec [OF assms(1)])
qed

section \<open>Claims and their lifetime\<close>

lemma claim_fields [simp]:
  "lg_growth (snd (ledger_claim l ow c q)) = lg_growth l"
  "lg_growth_totals (snd (ledger_claim l ow c q)) = lg_growth_totals l"
  "lg_waiting (snd (ledger_claim l ow c q)) = lg_waiting l"
  by (simp_all add: ledger_claim_def Let_def)

lemma claim_demands_claim:
  assumes "ledger_inv l"
  shows "claim_demands (snd (ledger_claim l ow c q)) r = claim_demands l r @ [(ow, cost_get r c)]"
proof -
  have "Suc (lg_next l) \<notin> fst ` set (lg_claims l)"
    using assms by (fastforce simp: ledger_inv_def claims_ok_def)
  then show ?thesis by (simp add: claim_demands_def ledger_claim_def Let_def dict_update_new)
qed

lemma total_after_claim:
  "ledger_inv l \<Longrightarrow> ledger_total (snd (ledger_claim l ow c q)) r extra
     = ledger_total l r ((ow, cost_get r c) # extra)"
  by (simp add: ledger_total_def claim_demands_claim)

text \<open>Claiming a list of queued transitions one after the other.\<close>

definition claim_items :: "TransitionClaim list \<Rightarrow> TransitionLedger \<Rightarrow> TransitionLedger" where
  "claim_items items l =
     fold (\<lambda>i l. snd (ledger_claim l (cl_owner i) (cl_cost i) (cl_requested i))) items l"

lemma total_after_claims:
  assumes "ledger_inv l" "\<forall>i \<in> set items. cost_valid (cl_cost i)"
  shows "ledger_total (claim_items items l) r extra
     = ledger_total l r (map (\<lambda>i. (cl_owner i, cost_get r (cl_cost i))) items @ extra)"
  using assms
proof (induction items arbitrary: l extra)
  case (Cons i items)
  let ?l = "snd (ledger_claim l (cl_owner i) (cl_cost i) (cl_requested i))"
  have "ledger_inv ?l" using Cons.prems by (simp add: claim_inv)
  with Cons show ?case by (simp add: claim_items_def total_after_claim)
qed (simp add: claim_items_def)

definition pending_step ::
  "TransitionKind \<Rightarrow> owner list \<Rightarrow> TransitionClaim \<Rightarrow> (owner, TransitionClaim) dict
     \<Rightarrow> (owner, TransitionClaim) dict" where
  "pending_step kind active item owners =
     (if tc_kind (cl_cost item) = kind \<and> cl_owner item \<notin> set active
         \<and> dict_get owners (cl_owner item) = None
      then AList.update (cl_owner item) item owners else owners)"

lemma pending_steps:
  "set (fold (pending_step kind active) xs d) \<subseteq>
     set d \<union> {(cl_owner x, x) |x. x \<in> set xs \<and> tc_kind (cl_cost x) = kind \<and> cl_owner x \<notin> set active}"
proof (induction xs arbitrary: d)
  case (Cons x xs)
  have "set (pending_step kind active x d) \<subseteq>
      set d \<union> (if tc_kind (cl_cost x) = kind \<and> cl_owner x \<notin> set active then {(cl_owner x, x)} else {})"
    by (auto simp: pending_step_def dest: dict_in_update split: if_splits)
  with Cons.IH [of "pending_step kind active x d"] show ?case
    by (simp split: if_splits) blast+
qed simp

lemma pending_spec:
  assumes "i \<in> set (pending l kind)"
  shows "i \<in> snd ` set (lg_waiting l)" "tc_kind (cl_cost i) = kind"
    "\<forall>(_, c) \<in> set (lg_claims l). tc_kind (cl_cost c) = kind \<longrightarrow> cl_owner c \<noteq> cl_owner i"
proof -
  let ?active = "map cl_owner (filter (\<lambda>c. tc_kind (cl_cost c) = kind) (map snd (lg_claims l)))"
  have eq: "pending l kind = map snd (fold (pending_step kind ?active) (map snd (lg_waiting l)) [])"
    unfolding pending_def pending_step_def [abs_def] Let_def by (rule refl)
  obtain p where p: "i = snd p" "p \<in> set (fold (pending_step kind ?active) (map snd (lg_waiting l)) [])"
    using assms unfolding eq set_map by (rule imageE)
  have i: "i \<in> snd ` set (lg_waiting l) \<and> tc_kind (cl_cost i) = kind \<and> cl_owner i \<notin> set ?active"
    using subsetD [OF pending_steps p(2)] unfolding p(1) by (clarsimp simp: rev_image_eqI)
  then show "i \<in> snd ` set (lg_waiting l)" "tc_kind (cl_cost i) = kind" by simp_all
  show "\<forall>(_, c) \<in> set (lg_claims l). tc_kind (cl_cost c) = kind \<longrightarrow> cl_owner c \<noteq> cl_owner i"
    unfolding split_beta
  proof (intro ballI impI notI)
    fix q assume "q \<in> set (lg_claims l)" "tc_kind (cl_cost (snd q)) = kind"
      "cl_owner (snd q) = cl_owner i"
    then have "cl_owner i \<in> set ?active"
      by (simp add: image_iff) (intro exI [of _ "snd q"] conjI bexI [of _ q], simp_all)
    with i show False by blast
  qed
qed

lemma pending_valid: "ledger_inv l \<Longrightarrow> i \<in> set (pending l kind) \<Longrightarrow> cost_valid (cl_cost i)"
  using pending_spec(1) [of i l kind] by (fastforce simp: ledger_inv_def claims_ok_def)

section \<open>Sequences of ledger calls\<close>

text \<open>One call on the ledger; a refused \<^const>\<open>ledger_release\<close> raises and changes nothing.\<close>

datatype ledger_op =
    Op_wait owner TransitionCost
  | Op_unwait nat
  | Op_refresh owner TransitionCost
  | Op_claim owner TransitionCost "ResourceQuantity option"
  | Op_release TransitionClaim
  | Op_growth owner "TransitionCost option"
  | Op_growths "(owner, TransitionCost) dict"

fun op_valid :: "ledger_op \<Rightarrow> bool" where
  "op_valid (Op_wait _ c) = cost_valid c"
| "op_valid (Op_unwait _) = True"
| "op_valid (Op_refresh _ c) = cost_valid c"
| "op_valid (Op_claim _ c _) = cost_valid c"
| "op_valid (Op_release _) = True"
| "op_valid (Op_growth _ c) = (case c of None \<Rightarrow> True | Some x \<Rightarrow> cost_valid x)"
| "op_valid (Op_growths fs) = list_all (\<lambda>(_, c). cost_valid c) fs"

fun ledger_apply :: "ledger_op \<Rightarrow> TransitionLedger \<Rightarrow> TransitionLedger" where
  "ledger_apply (Op_wait ow c) l = snd (ledger_wait l ow c)"
| "ledger_apply (Op_unwait t) l = ledger_unwait l t"
| "ledger_apply (Op_refresh ow c) l = refresh_wait_cost l ow c"
| "ledger_apply (Op_claim ow c q) l = snd (ledger_claim l ow c q)"
| "ledger_apply (Op_release c) l = (case ledger_release l c of Inl _ \<Rightarrow> l | Inr l' \<Rightarrow> l')"
| "ledger_apply (Op_growth ow c) l = set_growth_forecast l ow c"
| "ledger_apply (Op_growths fs) l = set_growth_forecasts l fs"

definition ledger_run :: "ledger_op list \<Rightarrow> TransitionLedger \<Rightarrow> TransitionLedger" where
  "ledger_run ops l = fold ledger_apply ops l"

lemma new_ledger_inv: "ledger_inv new_ledger"
  by (simp add: new_ledger_def ledger_inv_def claims_ok_def growth_sum_def growth_none_def)

lemma ledger_apply_inv: "ledger_inv l \<Longrightarrow> op_valid op \<Longrightarrow> ledger_inv (ledger_apply op l)"
  by (cases op)
    (auto intro: wait_inv unwait_inv refresh_inv claim_inv release_inv growth_inv growths_inv
      simp: list_all_iff split: sum.split)

lemma ledger_run_inv: "ledger_inv l \<Longrightarrow> list_all op_valid ops \<Longrightarrow> ledger_inv (ledger_run ops l)"
  unfolding ledger_run_def by (induction ops arbitrary: l) (auto intro: ledger_apply_inv)

lemma growth_claims [simp]: "lg_claims (set_growth_forecast l ow c) = lg_claims l"
  by (simp add: set_growth_forecast_def apply_growth_def Let_def split: option.split)

lemma growths_claims [simp]: "lg_claims (set_growth_forecasts l fs) = lg_claims l"
proof -
  have "lg_claims (fold (\<lambda>ow l. set_growth_forecast l ow None) os l) = lg_claims l" for os l
    by (induction os arbitrary: l) simp_all
  moreover have "lg_claims (fold (\<lambda>(ow, c) l. set_growth_forecast l ow (Some c)) fs l) = lg_claims l" for l
    by (induction fs arbitrary: l) auto
  ultimately show ?thesis by (simp add: set_growth_forecasts_def)
qed

lemma ledger_apply_claims:
  assumes "ledger_inv l" "dict_get (lg_claims l) (cl_token c) = Some c" "op \<noteq> Op_release c"
  shows "dict_get (lg_claims (ledger_apply op l)) (cl_token c) = Some c"
proof (cases op)
  case (Op_claim ow k q)
  have "cl_token c \<le> lg_next l"
    using assms(1) map_of_SomeD [OF assms(2)] by (auto simp: ledger_inv_def claims_ok_def)
  then show ?thesis using assms(2) Op_claim
    by (simp add: ledger_claim_def Let_def AList.update_conv')
next
  case (Op_release k)
  then show ?thesis using assms(2,3)
    by (auto simp: ledger_release_def AList.delete_conv')
qed (use assms(2) in \<open>simp_all add: ledger_wait_def ledger_unwait_def refresh_wait_cost_def Let_def\<close>)

lemma ledger_run_claims:
  assumes "ledger_inv l" "dict_get (lg_claims l) (cl_token c) = Some c"
    "list_all op_valid ops" "Op_release c \<notin> set ops"
  shows "dict_get (lg_claims (ledger_run ops l)) (cl_token c) = Some c"
  using assms unfolding ledger_run_def
  by (induction ops arbitrary: l) (auto intro!: ledger_apply_inv ledger_apply_claims)

section \<open>Properties\<close>

definition example_cost :: "TransitionKind \<Rightarrow> int \<Rightarrow> TransitionCost" where
  "example_cost kind m = \<lparr>tc_kind = kind, tc_memory_bytes = Some m, tc_read_bytes = None,
     tc_write_bytes = None, tc_provenance = ''test'', tc_ram_backing_bytes = None\<rparr>"

lemmas ledger_defs = new_ledger_def ledger_wait_def ledger_claim_def ledger_release_def
  ledger_unwait_def set_growth_forecast_def apply_growth_def example_cost_def
  cost_valid_def nonneg_opt_def Let_def

text \<open>C7. Whatever calls a ledger has served, its charge for a resource (the running growth totals
  plus each claim's excess over its owner's forecast) is the sum over owners of the largest of the
  owner's forecast and its claimed and extra demands: no owner is charged twice, none is missed.\<close>

theorem ledger_total_is_sum_of_peaks:
  assumes "list_all op_valid ops"
  shows "ledger_total (ledger_run ops new_ledger) r extra = total_spec (ledger_run ops new_ledger) r extra"
  by (rule ledger_total_eq_spec [OF ledger_run_inv [OF new_ledger_inv assms]])

theorem ledger_total_is_sum_of_peaks_witness:
  "list_all op_valid [Op_growth (Some (''a'', 1)) (Some (example_cost CAPTURE 5)),
      Op_claim (Some (''a'', 1)) (example_cost RESTORE 8) None]
   \<and> ledger_total (ledger_run [Op_growth (Some (''a'', 1)) (Some (example_cost CAPTURE 5)),
        Op_claim (Some (''a'', 1)) (example_cost RESTORE 8) None] new_ledger) Memory [((Some (''b'', 1)), Some 2)]
     = total_spec (ledger_run [Op_growth (Some (''a'', 1)) (Some (example_cost CAPTURE 5)),
        Op_claim (Some (''a'', 1)) (example_cost RESTORE 8) None] new_ledger) Memory [((Some (''b'', 1)), Some 2)]"
proof -
  have "list_all op_valid [Op_growth (Some (''a'', 1)) (Some (example_cost CAPTURE 5)),
      Op_claim (Some (''a'', 1)) (example_cost RESTORE 8) None]"
    by (simp add: ledger_defs)
  with ledger_total_is_sum_of_peaks [OF this] show ?thesis by blast
qed

text \<open>C8. A claim, once handed out, stays in the ledger through every sequence of calls that does
  not release that very claim; its release then succeeds, and a second release of it is refused
  without changing the ledger.\<close>

theorem claim_released_exactly_once:
  assumes "list_all op_valid before" "cost_valid cost"
    and "ledger_claim (ledger_run before new_ledger) ow cost q = (c, l)"
    and "list_all op_valid ops" "Op_release c \<notin> set ops"
  shows "\<exists>l'. ledger_release (ledger_run ops l) c = Inr l' \<and> ledger_release l' c = Inl ClaimNotOwned
           \<and> (\<forall>k. k \<noteq> cl_token c \<longrightarrow> dict_get (lg_claims l') k = dict_get (lg_claims (ledger_run ops l)) k)"
proof -
  let ?l0 = "ledger_run before new_ledger"
  have inv: "ledger_inv l"
    using claim_inv [OF ledger_run_inv [OF new_ledger_inv assms(1)] assms(2), of ow q] assms(3) by simp
  have "dict_get (lg_claims l) (cl_token c) = Some c"
    using assms(3) by (auto simp: ledger_claim_def Let_def AList.update_conv')
  from ledger_run_claims [OF inv this assms(4,5)] show ?thesis
    by (simp add: ledger_release_def AList.delete_conv')
qed

theorem claim_released_exactly_once_witness:
  "\<exists>l'. ledger_release (ledger_run [Op_wait (Some (''b'', 1)) (example_cost STARTUP 4)]
         (snd (ledger_claim new_ledger (Some (''a'', 1)) (example_cost RESTORE 8) None)))
       (fst (ledger_claim new_ledger (Some (''a'', 1)) (example_cost RESTORE 8) None)) = Inr l'
     \<and> ledger_release l' (fst (ledger_claim new_ledger (Some (''a'', 1)) (example_cost RESTORE 8) None))
         = Inl ClaimNotOwned"
  using claim_released_exactly_once [of "[]" "example_cost RESTORE 8" "(Some (''a'', 1))" None
      "fst (ledger_claim new_ledger (Some (''a'', 1)) (example_cost RESTORE 8) None)"
      "snd (ledger_claim new_ledger (Some (''a'', 1)) (example_cost RESTORE 8) None)"
      "[Op_wait (Some (''b'', 1)) (example_cost STARTUP 4)]"]
  by (simp add: ledger_run_def cost_valid_def nonneg_opt_def example_cost_def) blast



end
