(* ===== verification/Admission_Decision.thy ===== *)
theory Admission_Decision
  imports Resource_Admission Transition_Ledger
begin

text \<open>
  \<open>src/ucloud_sandboxes/admission_decision.py\<close> (the decision) and its driver
  \<open>DirectSandboxService._active_admission_guard\<close> of \<open>direct_service.py\<close>, with the reservation
  \<open>_reserve_active_capacity\<close> makes inside it. A guard pass is two lock sections around a sample;
  what the environment supplies to a pass (node state, clock readings, the sample, the requoted
  cost, the ledger it finds) is a \<open>GuardPass\<close>, and a guard run is a list of passes.
  Monotonic seconds are rational numbers.
\<close>

section \<open>Requests and decisions\<close>

definition RETRY_SECONDS :: rat where
  "RETRY_SECONDS = 21 / 100"

definition CLOSED :: string where
  "CLOSED = ''direct node admission is closed''"

definition SHAPE :: string where
  "SHAPE = ''sandbox CPU or memory request exceeds the physical node shape''"

definition PROJECTED :: string where
  "PROJECTED = ''node memory headroom is reserved by in-flight transitions''"

definition PROJECTED_RAM :: string where
  "PROJECTED_RAM = ''node RAM backing headroom is reserved by in-flight transitions''"

definition MIB :: int where
  "MIB = 1024 ^ 2"

record AdmissionNode =
  an_admission_open :: bool
  an_capacity :: "ResourceQuantity option"
  an_ram_backing_configured :: bool

record AdmissionRequest =
  ar_node :: AdmissionNode
  ar_owner :: owner
  ar_requested :: ResourceQuantity
  ar_cost :: "TransitionCost option"
  ar_check_shape :: bool
  ar_check_memory_pressure :: bool
  ar_deadline :: rat
  ar_now :: rat
  ar_previous_error :: "string option"

text \<open>\<open>Refuse\<close> carries its reason and whether admission is closed.\<close>

datatype Decision = Grant | Wait string rat | Refuse string bool

datatype admission_error =
    SandboxAdmissionClosedError string
  | SandboxCapacityUnavailableError string
  | OwnerError string

fun refuse_error :: "string \<Rightarrow> bool \<Rightarrow> admission_error" where
  "refuse_error reason True = SandboxAdmissionClosedError reason"
| "refuse_error reason False = SandboxCapacityUnavailableError reason"

text \<open>A refusal or nothing: \<open>(reason, closed)\<close>.\<close>

definition fences :: "AdmissionRequest \<Rightarrow> (string \<times> bool) option" where
  "fences request =
     (if \<not> an_admission_open (ar_node request) then Some (CLOSED, True)
      else case an_capacity (ar_node request) of
             None \<Rightarrow> None
           | Some capacity \<Rightarrow>
               if ar_check_shape request
                  \<and> \<not> dynamic_request_fits (ar_requested request) (ResourceQuantity 0 0 0) capacity
               then Some (SHAPE, False) else None)"

definition late :: "AdmissionRequest \<Rightarrow> (string \<times> bool) option" where
  "late request =
     (case ar_previous_error request of
        None \<Rightarrow> None
      | Some e \<Rightarrow> if ar_deadline request \<le> ar_now request then Some (e, False) else None)"

definition gate :: "AdmissionRequest \<Rightarrow> (string \<times> bool) option" where
  "gate request = (case fences request of Some r \<Rightarrow> Some r | None \<Rightarrow> late request)"

text \<open>Pressure is judged against the transition's own footprint when that is known, in MiB
  rounded up; the rebuilt request has no disk.\<close>

definition pressure_request :: "AdmissionRequest \<Rightarrow> ResourceQuantity" where
  "pressure_request request =
     (case ar_cost request of
        None \<Rightarrow> ar_requested request
      | Some cost \<Rightarrow>
          (case tc_memory_bytes cost of
             None \<Rightarrow> ar_requested request
           | Some b \<Rightarrow> ResourceQuantity (vcpu (ar_requested request)) ((b + MIB - 1) div MIB) 0))"

definition headroom_bytes :: "NodeRuntimeMetrics \<Rightarrow> int" where
  "headroom_bytes m =
     (if 0 < memory_total_mb m
      then max 0 (memory_available_mb m - PHYSICAL_MEMORY_FLOOR_MB) * MIB else 0)"

definition ram_available :: "NodeRuntimeMetrics \<Rightarrow> AdmissionNode \<Rightarrow> int option" where
  "ram_available m node =
     (case memory_backing m of
        Some backing \<Rightarrow> Some (or_zero (available_bytes backing))
      | None \<Rightarrow> if an_ram_backing_configured node then Some 0 else None)"

text \<open>The ledger projections: the error they raise, if any. The RAM check comes last and its
  reason replaces the other.\<close>

definition projection_error ::
  "NodeRuntimeMetrics option \<Rightarrow> TransitionLedger \<Rightarrow> AdmissionRequest \<Rightarrow> string option" where
  "projection_error metrics ledger request =
     (case (ar_cost request, an_capacity (ar_node request), metrics) of
        (Some cost, Some _, Some m) \<Rightarrow>
          (let projected = projected_memory_bytes ledger (ar_owner request) cost Memory;
               projected_ram = projected_memory_bytes ledger (ar_owner request) cost Ram_Backing
           in if (case ram_available m (ar_node request) of
                    None \<Rightarrow> False | Some available \<Rightarrow> available < projected_ram)
              then Some PROJECTED_RAM
              else if memory_total_mb m \<le> 0 \<or> headroom_bytes m < projected then Some PROJECTED
              else None)
      | _ \<Rightarrow> None)"

definition decide ::
  "NodeRuntimeMetrics option \<Rightarrow> TransitionLedger \<Rightarrow> AdmissionRequest \<Rightarrow> Decision" where
  "decide metrics ledger request =
     (case fences request of
        Some (reason, is_closed) \<Rightarrow> Refuse reason is_closed
      | None \<Rightarrow>
          (let live_error = (\<lambda>_. dynamic_pressure_error metrics (pressure_request request) False
                                  (ar_check_memory_pressure request));
               projected_error = projection_error metrics ledger request;
               pressure_error =
                 (case projected_error of
                    Some e \<Rightarrow> Some e
                  | None \<Rightarrow> if an_capacity (ar_node request) \<noteq> None then live_error () else None)
           in case late request of
                Some (reason, is_closed) \<Rightarrow> Refuse reason is_closed
              | None \<Rightarrow>
                  (case pressure_error of
                     None \<Rightarrow> Grant
                   | Some e \<Rightarrow>
                       (let memory_wait =
                              (case (ar_cost request, metrics) of
                                 (Some cost, Some m) \<Rightarrow>
                                   tc_kind cost \<in> {STARTUP, RESTORE} \<and> 0 < memory_total_mb m
                                   \<and> live_error () \<noteq> None
                               | _ \<Rightarrow> False)
                        in if \<not> (projected_error \<noteq> None \<or> memory_wait)
                              \<or> ar_deadline request \<le> ar_now request + RETRY_SECONDS
                           then Refuse e False
                           else Wait e (min RETRY_SECONDS (ar_deadline request - ar_now request))))))"

section \<open>The guard that drives the decision\<close>

text \<open>
  What one pass of the guard reads. Providers are compared by identity; \<open>None\<close> is a node without
  a sampler. \<open>gp_ledger\<close> is the ledger the second section finds once the growth forecasts of the
  registered sandboxes have been brought up to date.
\<close>

record GuardPass =
  gp_node_before :: AdmissionNode
  gp_now_before :: rat
  gp_provider_before :: "nat option"
  gp_sample :: "NodeRuntimeMetrics option"
  gp_validate_owner :: "string option"
  gp_quote :: TransitionCost
  gp_node_after :: AdmissionNode
  gp_provider_after :: "nat option"
  gp_ledger :: TransitionLedger
  gp_ram_configured :: bool
  gp_now_after :: rat

datatype guard_result =
    Published TransitionLedger AdmissionRequest
  | Raised admission_error
  | Again AdmissionRequest

definition PROVIDER_CHANGED :: string where
  "PROVIDER_CHANGED = ''direct node runtime metrics provider changed during admission''"

text \<open>The second lock section: \<open>requoted\<close> says whether the caller gave a cost provider.\<close>

definition guard_decide ::
  "bool \<Rightarrow> nat option \<Rightarrow> NodeRuntimeMetrics option \<Rightarrow> AdmissionRequest \<Rightarrow> GuardPass \<Rightarrow> guard_result"
where
  "guard_decide requoted metrics_provider metrics request p =
     (let request = request\<lparr>ar_node := gp_node_after p\<rparr>
      in case fences request of
           Some (reason, is_closed) \<Rightarrow> Raised (refuse_error reason is_closed)
         | None \<Rightarrow>
             if an_capacity (ar_node request) \<noteq> None \<and> metrics_provider \<noteq> gp_provider_after p
             then Raised (SandboxCapacityUnavailableError PROVIDER_CHANGED)
             else
               let (ledger, request) =
                     (case (ar_cost request, an_capacity (ar_node request), metrics) of
                        (Some cost, Some _, Some _) \<Rightarrow>
                          (if requoted then refresh_wait_cost (gp_ledger p) (ar_owner request) cost
                           else gp_ledger p,
                           request\<lparr>ar_node := (ar_node request)
                              \<lparr>an_ram_backing_configured := gp_ram_configured p\<rparr>\<rparr>)
                      | _ \<Rightarrow> (gp_ledger p, request))
               in case decide metrics ledger (request\<lparr>ar_now := gp_now_after p\<rparr>) of
                    Grant \<Rightarrow> Published ledger (request\<lparr>ar_now := gp_now_after p\<rparr>)
                  | Refuse reason is_closed \<Rightarrow> Raised (refuse_error reason is_closed)
                  | Wait reason _ \<Rightarrow> Again (request\<lparr>ar_previous_error := Some reason\<rparr>))"

definition guard_pass :: "bool \<Rightarrow> AdmissionRequest \<Rightarrow> GuardPass \<Rightarrow> guard_result" where
  "guard_pass requoted request p =
     (let request = request\<lparr>ar_node := gp_node_before p, ar_now := gp_now_before p\<rparr>
      in case gate request of
           Some (reason, is_closed) \<Rightarrow> Raised (refuse_error reason is_closed)
         | None \<Rightarrow>
             let metrics_provider =
                   (if an_capacity (ar_node request) \<noteq> None then gp_provider_before p else None);
                 metrics = (if metrics_provider \<noteq> None then gp_sample p else None)
             in case gp_validate_owner p of
                  Some e \<Rightarrow> Raised (OwnerError e)
                | None \<Rightarrow>
                    guard_decide requoted metrics_provider metrics
                      (if requoted then request\<lparr>ar_cost := Some (gp_quote p)\<rparr> else request) p)"

fun active_admission_guard :: "bool \<Rightarrow> AdmissionRequest \<Rightarrow> GuardPass list \<Rightarrow> guard_result" where
  "active_admission_guard requoted request [] = Again request"
| "active_admission_guard requoted request (p # ps) =
     (case guard_pass requoted request p of
        Again request' \<Rightarrow> active_admission_guard requoted request' ps
      | r \<Rightarrow> r)"

text \<open>The request the guard starts from; without a deadline it is the time of the call.\<close>

definition guard_request ::
  "rat \<Rightarrow> ResourceQuantity \<Rightarrow> bool \<Rightarrow> bool \<Rightarrow> TransitionCost option \<Rightarrow> owner \<Rightarrow> rat option
     \<Rightarrow> AdmissionRequest" where
  "guard_request now requested check_shape check_memory_pressure cost owner deadline =
     \<lparr>ar_node = \<lparr>an_admission_open = False, an_capacity = None, an_ram_backing_configured = False\<rparr>,
      ar_owner = owner, ar_requested = requested, ar_cost = cost, ar_check_shape = check_shape,
      ar_check_memory_pressure = check_memory_pressure,
      ar_deadline = (case deadline of None \<Rightarrow> now | Some d \<Rightarrow> d), ar_now = now,
      ar_previous_error = None\<rparr>"

text \<open>\<open>_reserve_active_capacity\<close>, up to its claim: the claim is made in the lock section that
  granted it.\<close>

definition reserve_active_capacity ::
  "rat \<Rightarrow> owner \<Rightarrow> ResourceQuantity \<Rightarrow> TransitionCost \<Rightarrow> rat \<Rightarrow> GuardPass list
     \<Rightarrow> admission_error + (TransitionClaim \<times> TransitionLedger) option" where
  "reserve_active_capacity now key requested cost deadline passes =
     (case active_admission_guard False
             (guard_request now (ResourceQuantity (vcpu requested) (memory_mb requested) 0) True True
                (Some cost) key (Some deadline)) passes of
        Raised e \<Rightarrow> Inl e
      | Again _ \<Rightarrow> Inr None
      | Published ledger _ \<Rightarrow> Inr (Some (ledger_claim ledger key cost (Some requested))))"

section \<open>What a grant, a wait and a refusal mean\<close>

lemma decide_grantD:
  assumes "decide metrics l req = Grant"
  shows "fences req = None" "late req = None" "projection_error metrics l req = None"
    and "an_capacity (ar_node req) \<noteq> None \<Longrightarrow>
      dynamic_pressure_error metrics (pressure_request req) False (ar_check_memory_pressure req) = None"
  using assms by (auto simp: decide_def Let_def split: option.splits if_splits)

lemma decide_waitD:
  assumes "decide metrics l req = Wait reason seconds"
  shows "fences req = None" "late req = None" "seconds = RETRY_SECONDS"
    and "ar_now req + RETRY_SECONDS < ar_deadline req"
  using assms by (auto simp: decide_def Let_def split: option.splits if_splits)

lemma projection_error_NoneD:
  assumes "projection_error (Some m) l req = None" "ar_cost req = Some cost"
    "an_capacity (ar_node req) \<noteq> None"
  shows "0 < memory_total_mb m"
    and "projected_memory_bytes l (ar_owner req) cost Memory \<le> headroom_bytes m"
    and "ram_available m (ar_node req) = Some b \<Longrightarrow>
      projected_memory_bytes l (ar_owner req) cost Ram_Backing \<le> b"
  using assms by (auto simp: projection_error_def Let_def split: if_splits)

lemma total_after_claim_le_projected:
  assumes "ledger_inv l"
  shows "ledger_total (snd (ledger_claim l ow c q)) r [] \<le> projected_memory_bytes l ow c r"
  unfolding total_after_claim [OF assms] projected_memory_bytes_def
  by (rule ledger_total_mono [OF assms]) simp

section \<open>The guard\<close>

lemma guard_pass_Again:
  assumes "guard_pass requoted req p = Again req'"
  shows "ar_owner req' = ar_owner req" "ar_deadline req' = ar_deadline req"
    and "\<not> requoted \<Longrightarrow> ar_cost req' = ar_cost req" "ar_previous_error req' \<noteq> None"
    and "gp_now_after p + RETRY_SECONDS < ar_deadline req"
  using assms
  by (auto simp: guard_pass_def guard_decide_def Let_def
      split: option.splits if_splits Decision.splits prod.splits dest: decide_waitD(4))

lemma guard_pass_Published:
  assumes "guard_pass requoted req p = Published l req'"
  shows "gate (req\<lparr>ar_node := gp_node_before p, ar_now := gp_now_before p\<rparr>) = None"
    and "ar_now req' = gp_now_after p" "an_admission_open (ar_node req') = an_admission_open (gp_node_after p)"
    and "an_capacity (ar_node req') = an_capacity (gp_node_after p)"
    and "ar_owner req' = ar_owner req" "ar_deadline req' = ar_deadline req"
    and "ar_previous_error req' = ar_previous_error req"
    and "\<not> requoted \<Longrightarrow> l = gp_ledger p \<and> ar_cost req' = ar_cost req"
    and "\<exists>metrics. decide metrics l req' = Grant \<and> (\<forall>m. metrics = Some m \<longrightarrow> gp_sample p = Some m)
      \<and> (ar_cost req' \<noteq> None \<longrightarrow> an_capacity (ar_node req') \<noteq> None \<longrightarrow> metrics \<noteq> None \<longrightarrow>
           an_ram_backing_configured (ar_node req') = gp_ram_configured p)"
  using assms
  by (auto simp: guard_pass_def guard_decide_def Let_def
      split: option.splits if_splits Decision.splits prod.splits)

lemma active_admission_guard_Published:
  assumes "active_admission_guard False req ps = Published l req'"
  shows "\<exists>p \<in> set ps. \<exists>req0. guard_pass False req0 p = Published l req'
    \<and> ar_owner req0 = ar_owner req \<and> ar_cost req0 = ar_cost req \<and> ar_deadline req0 = ar_deadline req
    \<and> (ar_previous_error req0 = ar_previous_error req \<or> ar_previous_error req0 \<noteq> None)
    \<and> (p \<noteq> hd ps \<longrightarrow> ar_previous_error req0 \<noteq> None)"
  using assms
proof (induction ps arbitrary: req)
  case (Cons p ps)
  show ?case
  proof (cases "guard_pass False req p")
    case (Published l1 r1)
    with Cons.prems show ?thesis by auto
  next
    case (Again req1)
    note a = guard_pass_Again [OF Again]
    from Cons.prems Again have "active_admission_guard False req1 ps = Published l req'" by simp
    from Cons.IH [OF this] obtain q req0 where
      "q \<in> set ps" "guard_pass False req0 q = Published l req'" "ar_owner req0 = ar_owner req1"
      "ar_cost req0 = ar_cost req1" "ar_deadline req0 = ar_deadline req1"
      "ar_previous_error req0 = ar_previous_error req1 \<or> ar_previous_error req0 \<noteq> None" by blast
    with a show ?thesis by (intro bexI [of _ q] exI [of _ req0]) auto
  qed (use Cons.prems in auto)
qed simp

lemma guard_pass_late:
  assumes "ar_previous_error req = Some e" "ar_deadline req \<le> gp_now_before p"
  shows "\<exists>err. guard_pass requoted req p = Raised err"
  using assms by (simp add: guard_pass_def Let_def gate_def late_def split: option.split prod.split)

lemma guard_ends_late:
  assumes "ar_previous_error req \<noteq> None" "p \<in> set ps" "ar_deadline req \<le> gp_now_before p"
  shows "\<nexists>req'. active_admission_guard requoted req ps = Again req'"
  using assms
proof (induction ps arbitrary: req)
  case (Cons q ps)
  show ?case
  proof (cases "guard_pass requoted req q")
    case (Again req1)
    with Cons.prems(1,3) guard_pass_late [of req _ q requoted] have "p \<in> set ps"
      using Cons.prems(2) by force
    moreover note guard_pass_Again [OF Again]
    ultimately show ?thesis using Cons.IH [of req1] Cons.prems(3) Again by simp
  qed simp_all
qed simp

section \<open>Properties\<close>

text \<open>C1. Launch capacity is only reserved in a lock section that found admission open. On a node
  with a capacity shape that section had a memory sample; with the new claim in the ledger, the
  memory promised to all in-flight transitions fits the sampled headroom above the 2 GiB floor,
  and the RAM backing promised to them fits what the sample reports.\<close>

theorem reserved_claim_within_headroom:
  assumes "reserve_active_capacity now key requested cost deadline ps = Inr (Some (c, l'))"
    and "\<forall>p \<in> set ps. ledger_inv (gp_ledger p)"
  shows "\<exists>p \<in> set ps. an_admission_open (gp_node_after p)
    \<and> (c, l') = ledger_claim (gp_ledger p) key cost (Some requested)
    \<and> (an_capacity (gp_node_after p) \<noteq> None \<longrightarrow>
        (\<exists>m. gp_sample p = Some m \<and> 0 < memory_total_mb m
           \<and> known_memory_bytes l' \<le> headroom_bytes m
           \<and> (gp_ram_configured p \<or> memory_backing m \<noteq> None \<longrightarrow>
               ledger_total l' Ram_Backing []
                 \<le> (case memory_backing m of None \<Rightarrow> 0 | Some b \<Rightarrow> or_zero (available_bytes b)))))"
proof -
  let ?req = "guard_request now (ResourceQuantity (vcpu requested) (memory_mb requested) 0) True True
      (Some cost) key (Some deadline)"
  obtain l req' where g: "active_admission_guard False ?req ps = Published l req'"
    and claim: "(c, l') = ledger_claim l key cost (Some requested)"
    using assms(1) unfolding reserve_active_capacity_def by (auto split: guard_result.splits)
  obtain p req0 where p: "p \<in> set ps" "guard_pass False req0 p = Published l req'"
    and r0: "ar_owner req0 = key" "ar_cost req0 = Some cost"
    using active_admission_guard_Published [OF g] by (auto simp: guard_request_def)
  note pub = guard_pass_Published [OF p(2)]
  have l: "l = gp_ledger p" and cost: "ar_cost req' = Some cost" and own: "ar_owner req' = key"
    using pub(5,8) r0 by simp_all
  have inv: "ledger_inv l" using assms(2) p(1) l by simp
  obtain metrics where d: "decide metrics l req' = Grant"
    and sample: "\<forall>m. metrics = Some m \<longrightarrow> gp_sample p = Some m"
    and ram: "an_capacity (ar_node req') \<noteq> None \<longrightarrow> metrics \<noteq> None \<longrightarrow>
      an_ram_backing_configured (ar_node req') = gp_ram_configured p"
    using pub(9) cost by auto
  note grant = decide_grantD [OF d]
  have "an_admission_open (gp_node_after p)"
    using grant(1) pub(3) by (auto simp: fences_def split: if_splits)
  moreover have "\<exists>m. gp_sample p = Some m \<and> 0 < memory_total_mb m
       \<and> known_memory_bytes l' \<le> headroom_bytes m
       \<and> (gp_ram_configured p \<or> memory_backing m \<noteq> None \<longrightarrow>
           ledger_total l' Ram_Backing []
             \<le> (case memory_backing m of None \<Rightarrow> 0 | Some b \<Rightarrow> or_zero (available_bytes b)))"
    if "an_capacity (gp_node_after p) \<noteq> None"
  proof -
    have cap: "an_capacity (ar_node req') \<noteq> None" using that pub(4) by simp
    then obtain m where m: "metrics = Some m"
      using grant(4) by (cases metrics) (auto simp: dynamic_pressure_error_def)
    note proj = projection_error_NoneD [OF grant(3) [unfolded m] cost cap, unfolded own]
    have l': "l' = snd (ledger_claim l key cost (Some requested))" using claim by (metis snd_conv)
    have le: "ledger_total l' r [] \<le> projected_memory_bytes l key cost r" for r
      unfolding l' by (rule total_after_claim_le_projected [OF inv])
    from proj le [of Memory] le [of Ram_Backing] sample m ram cap show ?thesis
      by (force simp: known_memory_bytes_def ram_available_def split: option.splits)
  qed
  ultimately show ?thesis using p(1) claim l by blast
qed

text \<open>A node with 4 GiB available, seen by a pass at the given times.\<close>

definition example_sample :: NodeRuntimeMetrics where
  "example_sample = (new_metrics 0)\<lparr>memory_total_mb := 8192, memory_available_mb := 4096\<rparr>"

definition example_admission_node :: AdmissionNode where
  "example_admission_node = \<lparr>an_admission_open = True, an_capacity = Some (ResourceQuantity 4 8192 0),
     an_ram_backing_configured = False\<rparr>"

definition example_pass :: "rat \<Rightarrow> TransitionLedger \<Rightarrow> GuardPass" where
  "example_pass t l = \<lparr>gp_node_before = example_admission_node, gp_now_before = t,
     gp_provider_before = Some 0, gp_sample = Some example_sample, gp_validate_owner = None,
     gp_quote = example_cost STARTUP 0, gp_node_after = example_admission_node,
     gp_provider_after = Some 0, gp_ledger = l, gp_ram_configured = False, gp_now_after = t\<rparr>"

lemmas guard_defs = reserve_active_capacity_def guard_request_def guard_pass_def guard_decide_def
  gate_def fences_def late_def decide_def projection_error_def pressure_request_def
  headroom_bytes_def ram_available_def RETRY_SECONDS_def MIB_def PHYSICAL_MEMORY_FLOOR_MB_def
  dynamic_request_fits_def dynamic_pressure_error_def memory_pressure_error_def rq_is_valid_def
  example_pass_def example_admission_node_def example_sample_def new_metrics_def

lemmas projection_defs = projected_memory_bytes_def ledger_total_def claim_demands_def
  bump_peak_def pending_def

theorem reserved_claim_within_headroom_witness:
  "\<exists>c l'. reserve_active_capacity 0 (Some (''a'', 1)) (ResourceQuantity 1 512 0)
       (example_cost STARTUP 536870912) 10 [example_pass 0 new_ledger] = Inr (Some (c, l'))
     \<and> known_memory_bytes l' \<le> headroom_bytes example_sample"
proof -
  let ?p = "example_pass 0 new_ledger"
  obtain c l' where r: "reserve_active_capacity 0 (Some (''a'', 1)) (ResourceQuantity 1 512 0)
       (example_cost STARTUP 536870912) 10 [?p] = Inr (Some (c, l'))"
    by (simp add: guard_defs projection_defs ledger_defs)
  have "\<forall>p \<in> set [?p]. ledger_inv (gp_ledger p)"
    by (simp add: example_pass_def new_ledger_inv)
  from reserved_claim_within_headroom [OF r this]
  have "known_memory_bytes l' \<le> headroom_bytes example_sample"
    by (auto simp: example_pass_def example_admission_node_def)
  with r show ?thesis by blast
qed

text \<open>C22. The guard always answers: once it has waited, the first pass that starts at or after the
  deadline refuses with the reason of the last wait, so a run that reaches the deadline does not
  keep waiting. A request made without a deadline never waits at all.\<close>

theorem guard_answers_by_deadline:
  assumes "p \<in> set ps" "ar_deadline req \<le> gp_now_before p"
  shows "(\<nexists>req'. active_admission_guard requoted req (q # ps) = Again req')
    \<and> (guard_request now r cs cm cost ow None = req \<longrightarrow> now \<le> gp_now_after q \<longrightarrow>
        (\<nexists>req'. guard_pass requoted req q = Again req'))"
proof
  show "\<nexists>req'. active_admission_guard requoted req (q # ps) = Again req'"
  proof (cases "guard_pass requoted req q")
    case (Again req1)
    note a = guard_pass_Again [OF Again]
    from guard_ends_late [OF a(4) assms(1), of requoted] assms(2) a(2) Again show ?thesis by simp
  qed simp_all
next
  show "guard_request now r cs cm cost ow None = req \<longrightarrow> now \<le> gp_now_after q \<longrightarrow>
      (\<nexists>req'. guard_pass requoted req q = Again req')"
    by (auto simp: guard_request_def RETRY_SECONDS_def dest!: guard_pass_Again(5))
qed

theorem guard_answers_by_deadline_witness:
  "\<nexists>req'. active_admission_guard False
     (guard_request 0 (ResourceQuantity 1 512 0) True True (Some (example_cost STARTUP 4294967296))
        (Some (''a'', 1)) (Some 1))
     [example_pass 0 new_ledger, example_pass 1 new_ledger] = Again req'"
  using guard_answers_by_deadline [of "example_pass 1 new_ledger" "[example_pass 1 new_ledger]"
      "guard_request 0 (ResourceQuantity 1 512 0) True True (Some (example_cost STARTUP 4294967296))
        (Some (''a'', 1)) (Some 1)" False "example_pass 0 new_ledger"]
  by (simp add: guard_request_def example_pass_def)

text \<open>C23. The decision is fail-closed and ordered: with admission closed every answer is the closed
  refusal; a request that does not fit the node's shape is refused; after the retry deadline of a
  request that has waited, a low sample no longer grants it; a missing sample never grants on a
  node that has a capacity shape; a wait lasts exactly the resampling period and ends before the
  deadline.\<close>

theorem decide_fail_closed:
  "(\<not> an_admission_open (ar_node req) \<longrightarrow> decide metrics l req = Refuse CLOSED True)
   \<and> (an_admission_open (ar_node req) \<and> an_capacity (ar_node req) = Some cap \<and> ar_check_shape req
        \<and> \<not> dynamic_request_fits (ar_requested req) 0 cap \<longrightarrow> decide metrics l req = Refuse SHAPE False)
   \<and> (ar_previous_error req = Some e \<and> ar_deadline req \<le> ar_now req \<longrightarrow> decide metrics l req \<noteq> Grant)
   \<and> (an_capacity (ar_node req) \<noteq> None \<longrightarrow> decide None l req \<noteq> Grant)
   \<and> (decide metrics l req = Wait reason seconds \<longrightarrow>
        seconds = RETRY_SECONDS \<and> ar_now req + seconds < ar_deadline req)"
proof (intro conjI impI)
  show "\<not> an_admission_open (ar_node req) \<Longrightarrow> decide metrics l req = Refuse CLOSED True"
    by (simp add: decide_def fences_def)
  show "an_admission_open (ar_node req) \<and> an_capacity (ar_node req) = Some cap \<and> ar_check_shape req
      \<and> \<not> dynamic_request_fits (ar_requested req) 0 cap \<Longrightarrow> decide metrics l req = Refuse SHAPE False"
    by (simp add: decide_def fences_def zero_ResourceQuantity_def)
  show "ar_previous_error req = Some e \<and> ar_deadline req \<le> ar_now req \<Longrightarrow> decide metrics l req \<noteq> Grant"
    using decide_grantD(2) [of metrics l req] by (auto simp: late_def)
  show "an_capacity (ar_node req) \<noteq> None \<Longrightarrow> decide None l req \<noteq> Grant"
    using decide_grantD(4) [of None l req] by (auto simp: dynamic_pressure_error_def)
qed (use decide_waitD(3,4) [of metrics l req reason seconds] in simp_all)

theorem decide_fail_closed_witness:
  "decide None new_ledger ((guard_request 0 0 True True None None None)) = Refuse CLOSED True
   \<and> decide None new_ledger ((guard_request 0 0 False True None None None)
        \<lparr>ar_node := example_admission_node\<rparr>) \<noteq> Grant"
  using decide_fail_closed [of "guard_request 0 0 True True None None None" None new_ledger]
    decide_fail_closed [of "(guard_request 0 0 False True None None None)\<lparr>ar_node := example_admission_node\<rparr>"
      None new_ledger]
  by (simp add: guard_request_def example_admission_node_def)

end
