(* ===== verification/Placement_Accounting.thy ===== *)
theory Placement_Accounting
  imports Resource_Admission "HOL-Library.Multiset"
begin

text \<open>
  \<open>src/ucloud_sandboxes/placement_accounting.py\<close>: what a worker still has to offer once the
  routes and reservations that its heartbeat does not show yet are charged, and the index of
  those records by worker. \<open>SandboxRoute\<close> and \<open>is_portable_parked_route\<close> are from
  \<open>routing.py\<close>. An object's identity, which \<open>routes_for\<close> compares with \<open>id()\<close>, is a number
  paired with the record.
\<close>

section \<open>Routes and reservations\<close>

record SandboxRoute =
  rt_sandbox_id :: string
  rt_node_id :: string
  rt_job_id :: string
  rt_node_url :: string
  rt_resources :: ResourceQuantity
  rt_spec :: "(string, json) dict"
  rt_state :: string
  rt_generation :: int
  rt_create_operation_id :: string
  rt_spec_hash :: string
  rt_delete_operation_id :: string
  rt_node_epoch :: string
  rt_activity_epoch :: int
  rt_worker_state :: string
  rt_storage_schema :: string
  rt_snapshot_manifest_digest :: string
  rt_snapshot_repository :: string
  rt_snapshot_tag :: string
  rt_storage_snapshot :: "(string, json) dict"
  rt_created_at :: string
  rt_updated_at :: string

record PlacementReservation =
  pv_reservation_id :: string
  pv_node_id :: string
  pv_job_id :: string
  pv_node_url :: string
  pv_resources :: ResourceQuantity
  pv_image :: string
  pv_state :: string

definition new_reservation ::
  "string \<Rightarrow> string \<Rightarrow> string \<Rightarrow> string \<Rightarrow> ResourceQuantity \<Rightarrow> string \<Rightarrow> PlacementReservation" where
  "new_reservation reservation_id node_id job_id node_url resources img =
     \<lparr>pv_reservation_id = reservation_id, pv_node_id = node_id, pv_job_id = job_id,
      pv_node_url = node_url, pv_resources = resources, pv_image = img, pv_state = ''creating''\<rparr>"

datatype PlacementRecord = Route SandboxRoute | Reservation PlacementReservation

fun rec_node_id :: "PlacementRecord \<Rightarrow> string" where
  "rec_node_id (Route r) = rt_node_id r"
| "rec_node_id (Reservation r) = pv_node_id r"

fun rec_job_id :: "PlacementRecord \<Rightarrow> string" where
  "rec_job_id (Route r) = rt_job_id r"
| "rec_job_id (Reservation r) = pv_job_id r"

fun rec_node_url :: "PlacementRecord \<Rightarrow> string" where
  "rec_node_url (Route r) = rt_node_url r"
| "rec_node_url (Reservation r) = pv_node_url r"

fun rec_resources :: "PlacementRecord \<Rightarrow> ResourceQuantity" where
  "rec_resources (Route r) = rt_resources r"
| "rec_resources (Reservation r) = pv_resources r"

definition SUPPORTED_SCHEMAS :: "string list" where
  "SUPPORTED_SCHEMAS = [''storage-native-v1'', ''storage-native-v3'']"

definition is_portable_parked_route :: "SandboxRoute \<Rightarrow> bool" where
  "is_portable_parked_route r \<longleftrightarrow>
     str_lower (str_or (Some (rt_state r)) ''unknown'') = ''parked''
     \<and> rt_storage_schema r \<in> set SUPPORTED_SCHEMAS \<and> rt_storage_snapshot r \<noteq> []
     \<and> rt_snapshot_manifest_digest r \<noteq> [] \<and> rt_snapshot_repository r \<noteq> []
     \<and> rt_snapshot_tag r \<noteq> []"

definition route_targets_node :: "PlacementRecord \<Rightarrow> NodeHeartbeat \<Rightarrow> bool" where
  "route_targets_node r h \<longleftrightarrow>
     rec_node_id r \<noteq> [] \<and> rec_node_id r = hb_node_id h
     \<or> rec_job_id r \<noteq> [] \<and> rec_job_id r = hb_job_id h
     \<or> rec_node_url r \<noteq> [] \<and> truthy_str (hb_node_url h)
        \<and> rstrip_slash (rec_node_url r) = rstrip_slash (str_or (hb_node_url h) [])"

text \<open>The tuple \<open>("sandbox", id, str(generation), operation)\<close> or \<open>("migration", id)\<close>;
  \<open>str\<close> of an int is injective, so the generation itself stands for its text.\<close>

datatype identity = Sandbox_Identity string int string | Migration_Identity string

fun placement_identity :: "PlacementRecord \<Rightarrow> identity" where
  "placement_identity (Route r) =
     Sandbox_Identity (rt_sandbox_id r) (rt_generation r) (rt_create_operation_id r)"
| "placement_identity (Reservation r) = Migration_Identity (pv_reservation_id r)"

section \<open>What an unobserved create charges\<close>

definition dynamic_split_spec :: "(string, json) dict \<Rightarrow> NodeHeartbeat \<Rightarrow> (int \<times> int) option" where
  "dynamic_split_spec spec h =
     (case hb_runtime_metrics h of
        None \<Rightarrow> None
      | Some m \<Rightarrow>
          if storage_workspace_grant_mb m = 0 \<and> storage_memory_idle_claim_mb m = 0 then None
          else if dict_get spec ''parkable'' \<noteq> Some (JBool True) then None
          else case (dict_get spec ''disk_mb'', dict_get spec ''memory_mb'') of
                 (Some (JInt disk), Some (JInt memory)) \<Rightarrow> Some (disk, memory)
               | _ \<Rightarrow> None)"

definition route_initial_claim_mb ::
  "ResourceQuantity \<Rightarrow> (string, json) dict \<Rightarrow> NodeHeartbeat \<Rightarrow> int" where
  "route_initial_claim_mb resources spec h =
     (let full = disk_mb resources
      in case (dynamic_split_spec spec h, hb_runtime_metrics h) of
           (Some (disk, _), Some m) \<Rightarrow>
             (let workspace = min disk (if storage_workspace_grant_mb m \<noteq> 0
                                        then storage_workspace_grant_mb m else disk);
                  memory = (if storage_memory_idle_claim_mb m \<noteq> 0
                            then storage_memory_idle_claim_mb m else max 0 (full - disk))
              in min full (workspace + memory))
         | _ \<Rightarrow> full)"

definition route_workspace_claim_mb ::
  "ResourceQuantity \<Rightarrow> (string, json) dict \<Rightarrow> NodeHeartbeat \<Rightarrow> int" where
  "route_workspace_claim_mb resources spec h =
     (case dynamic_split_spec spec h of
        None \<Rightarrow> disk_mb resources
      | Some (disk, _) \<Rightarrow> min (disk_mb resources) disk)"

section \<open>Charges against a heartbeat\<close>

type_synonym incarnation = "string \<times> int \<times> string \<times> string"

definition inventory_identity :: "SandboxInventoryEntry \<Rightarrow> incarnation" where
  "inventory_identity item =
     (inv_sandbox_id item, inv_generation item, inv_spec_hash item, inv_operation_id item)"

definition route_incarnation :: "SandboxRoute \<Rightarrow> incarnation" where
  "route_incarnation r = (rt_sandbox_id r, rt_generation r, rt_spec_hash r, rt_create_operation_id r)"

text \<open>The dict comprehension keeps the last item of an identity, \<open>setdefault\<close> the first.\<close>

definition inventory_last :: "SandboxInventoryEntry list \<Rightarrow> (incarnation, SandboxInventoryEntry) dict" where
  "inventory_last items = fold (\<lambda>i d. AList.update (inventory_identity i) i d) items []"

definition inventory_first :: "SandboxInventoryEntry list \<Rightarrow> (incarnation, SandboxInventoryEntry) dict" where
  "inventory_first items =
     fold (\<lambda>i d. if dict_get d (inventory_identity i) = None
                 then AList.update (inventory_identity i) i d else d) items []"

text \<open>The device slot one record reserves.\<close>

fun device_charge :: "NodeHeartbeat \<Rightarrow> PlacementRecord \<Rightarrow> int" where
  "device_charge h (Route r) =
     (if rt_worker_state r = ''detached'' \<or> str_lower (rt_state r) = ''parked'' then 0
      else case dict_get (inventory_last (hb_inventory h)) (route_incarnation r) of
             Some observed \<Rightarrow>
               if str_lower (rt_state r) \<in> {''waking'', ''running''} \<and> inv_state observed = ''parked''
               then 1 else 0
           | None \<Rightarrow> if 0 < disk_mb (rt_resources r) then 1 else 0)"
| "device_charge h (Reservation r) = (if 0 < disk_mb (pv_resources r) then 1 else 0)"

text \<open>The resources one record reserves.\<close>

fun resource_charge :: "NodeHeartbeat \<Rightarrow> PlacementRecord \<Rightarrow> ResourceQuantity" where
  "resource_charge h (Reservation r) = pv_resources r"
| "resource_charge h (Route r) =
     (if rt_worker_state r = ''detached'' \<and> is_portable_parked_route r then 0
      else case dict_get (inventory_first (hb_inventory h)) (route_incarnation r) of
             Some item \<Rightarrow>
               if str_lower (rt_state r) = ''waking''
                  \<and> str_lower (str_or (Some (inv_state item)) ''unknown'') = ''parked''
               then ResourceQuantity (vcpu (rt_resources r)) (memory_mb (rt_resources r))
                      (if rt_storage_schema r \<in> set SUPPORTED_SCHEMAS
                          \<and> rt_snapshot_manifest_digest r \<noteq> []
                       then route_workspace_claim_mb (rt_resources r) (rt_spec r) h else 0)
               else 0
           | None \<Rightarrow>
               if str_lower (rt_state r) = ''parked'' \<and> rt_storage_schema r \<in> set SUPPORTED_SCHEMAS
                  \<and> rt_snapshot_manifest_digest r \<noteq> [] then 0
               else ResourceQuantity (vcpu (rt_resources r)) (memory_mb (rt_resources r))
                      (route_initial_claim_mb (rt_resources r) (rt_spec r) h))"

text \<open>Both loops skip records of other workers and identities already seen.\<close>

definition charge_step ::
  "(PlacementRecord \<Rightarrow> 'a \<Rightarrow> 'a) \<Rightarrow> NodeHeartbeat \<Rightarrow> PlacementRecord \<Rightarrow> identity list \<times> 'a
     \<Rightarrow> identity list \<times> 'a" where
  "charge_step add h r = (\<lambda>(seen, acc).
     if \<not> route_targets_node r h then (seen, acc)
     else if placement_identity r \<in> set seen then (seen, acc)
     else (placement_identity r # seen, add r acc))"

definition node_reserved_storage_device_slots :: "NodeHeartbeat \<Rightarrow> PlacementRecord list \<Rightarrow> int" where
  "node_reserved_storage_device_slots h routes =
     snd (fold (charge_step (\<lambda>r n. n + device_charge h r) h) routes ([], 0))"

definition node_reserved_route_resources :: "NodeHeartbeat \<Rightarrow> PlacementRecord list \<Rightarrow> ResourceQuantity" where
  "node_reserved_route_resources h routes =
     snd (fold (charge_step (\<lambda>r q. rq_add q (resource_charge h r)) h) routes ([], 0))"

definition node_has_storage_device_capacity :: "NodeHeartbeat \<Rightarrow> PlacementRecord list \<Rightarrow> bool" where
  "node_has_storage_device_capacity h routes =
     (case hb_runtime_metrics h of
        None \<Rightarrow> True
      | Some m \<Rightarrow>
          if STORAGE_NATIVE_CAPABILITY \<notin> set (hb_capabilities h) \<or> storage_ublk_max_devices m \<le> 0
          then True
          else storage_ublk_active_devices m + node_reserved_storage_device_slots h routes
                 < storage_ublk_max_devices m)"

definition node_available_resources :: "NodeHeartbeat \<Rightarrow> PlacementRecord list \<Rightarrow> ResourceQuantity" where
  "node_available_resources h routes =
     (let reserved = node_reserved_route_resources h routes;
          free = free_resources h;
          disk = max 0 (disk_mb free - disk_mb reserved)
      in ResourceQuantity (max 0 (vcpu free - vcpu reserved)) (max 0 (memory_mb free - memory_mb reserved))
           (if \<not> node_has_storage_device_capacity h routes then 0 else disk))"

section \<open>The index of records by worker\<close>

type_synonym object = "nat \<times> PlacementRecord"

record PlacementRouteIndex =
  by_node_id :: "(string, object list) dict"
  by_job_id :: "(string, object list) dict"
  by_node_url :: "(string, object list) dict"

text \<open>\<open>d.setdefault(k, []).append(x)\<close>\<close>

definition append_at :: "'k \<Rightarrow> 'a \<Rightarrow> ('k, 'a list) dict \<Rightarrow> ('k, 'a list) dict" where
  "append_at k x d = AList.update k ((case dict_get d k of None \<Rightarrow> [] | Some xs \<Rightarrow> xs) @ [x]) d"

definition index_by :: "(PlacementRecord \<Rightarrow> string) \<Rightarrow> (string \<Rightarrow> string) \<Rightarrow> object list
    \<Rightarrow> (string, object list) dict" where
  "index_by field normal routes =
     fold (\<lambda>r d. if field (snd r) \<noteq> [] then append_at (normal (field (snd r))) r d else d) routes []"

definition placement_route_index :: "object list \<Rightarrow> PlacementRouteIndex" where
  "placement_route_index routes =
     \<lparr>by_node_id = index_by rec_node_id (\<lambda>s. s) routes, by_job_id = index_by rec_job_id (\<lambda>s. s) routes,
      by_node_url = index_by rec_node_url rstrip_slash routes\<rparr>"

definition lookup_all :: "('k, 'a list) dict \<Rightarrow> 'k \<Rightarrow> 'a list" where
  "lookup_all d k = (case dict_get d k of None \<Rightarrow> [] | Some xs \<Rightarrow> xs)"

text \<open>The first occurrence of every object, in order.\<close>

fun unseen :: "nat list \<Rightarrow> object list \<Rightarrow> object list" where
  "unseen seen [] = []"
| "unseen seen (r # rs) =
     (if fst r \<in> set seen then unseen seen rs else r # unseen (fst r # seen) rs)"

definition routes_for :: "PlacementRouteIndex \<Rightarrow> NodeHeartbeat \<Rightarrow> PlacementRecord list" where
  "routes_for index h =
     map snd (unseen [] (lookup_all (by_node_id index) (hb_node_id h)
       @ lookup_all (by_job_id index) (hb_job_id h)
       @ lookup_all (by_node_url index) (rstrip_slash (str_or (hb_node_url h) []))))"

section \<open>The loops as sums\<close>

text \<open>The records the loops charge: those of this worker, the first of each identity.\<close>

fun charged :: "NodeHeartbeat \<Rightarrow> identity list \<Rightarrow> PlacementRecord list \<Rightarrow> PlacementRecord list" where
  "charged h seen [] = []"
| "charged h seen (r # rs) =
     (if \<not> route_targets_node r h \<or> placement_identity r \<in> set seen then charged h seen rs
      else r # charged h (placement_identity r # seen) rs)"

lemma fold_charge_step:
  fixes c :: "PlacementRecord \<Rightarrow> 'a::comm_monoid_add"
  shows "snd (fold (charge_step (\<lambda>r q. q + c r) h) rs (seen, acc)) = acc + sum_list (map c (charged h seen rs))"
  by (induction rs arbitrary: seen acc) (simp_all add: charge_step_def add.assoc)

lemma device_slots_sum:
  "node_reserved_storage_device_slots h rs = sum_list (map (device_charge h) (charged h [] rs))"
  by (simp add: node_reserved_storage_device_slots_def fold_charge_step)

lemma reserved_sum:
  "node_reserved_route_resources h rs = sum_list (map (resource_charge h) (charged h [] rs))"
  by (simp add: node_reserved_route_resources_def fold_charge_step)

lemma charged_subset: "set (charged h seen rs) \<subseteq> set rs"
  by (induction rs arbitrary: seen) auto

lemma charged_append:
  "charged h seen (rs @ [r]) = charged h seen rs
     @ (if route_targets_node r h \<and> placement_identity r \<notin> set seen
           \<and> placement_identity r \<notin> placement_identity ` {x \<in> set rs. route_targets_node x h}
        then [r] else [])"
  by (induction rs arbitrary: seen) auto

lemma charged_distinct:
  assumes "distinct (map placement_identity (filter (\<lambda>r. route_targets_node r h) rs))"
    and "set seen \<inter> placement_identity ` set (filter (\<lambda>r. route_targets_node r h) rs) = {}"
  shows "charged h seen rs = filter (\<lambda>r. route_targets_node r h) rs"
  using assms
proof (induction rs arbitrary: seen)
  case (Cons r rs)
  show ?case
  proof (cases "route_targets_node r h")
    case True
    with Cons.prems have "charged h (placement_identity r # seen) rs = filter (\<lambda>r. route_targets_node r h) rs"
      by (intro Cons.IH) auto
    with True Cons.prems(2) show ?thesis by auto
  qed (use Cons in simp)
qed simp

lemma sum_list_mset_eq:
  fixes c :: "'b \<Rightarrow> 'a::comm_monoid_add"
  shows "mset xs = mset ys \<Longrightarrow> sum_list (map c xs) = sum_list (map c ys)"
  by (metis mset_map sum_mset_sum_list)

section \<open>The index finds every record of a worker\<close>

lemma lookup_append_at:
  "lookup_all (append_at k x d) k' = lookup_all d k' @ (if k = k' then [x] else [])"
  by (simp add: lookup_all_def append_at_def AList.update_conv')

lemma lookup_index_by:
  "lookup_all (index_by field normal rs) k
     = filter (\<lambda>r. field (snd r) \<noteq> [] \<and> normal (field (snd r)) = k) rs"
proof -
  let ?f = "\<lambda>r d. if field (snd r) \<noteq> [] then append_at (normal (field (snd r))) r d else d"
  have "lookup_all (fold ?f rs d) k
      = lookup_all d k @ filter (\<lambda>r. field (snd r) \<noteq> [] \<and> normal (field (snd r)) = k) rs" for d
    by (induction rs arbitrary: d) (simp_all add: lookup_append_at)
  from this [of "[]"] show ?thesis by (simp add: index_by_def lookup_all_def)
qed

lemma unseen_props:
  "distinct (map fst (unseen seen xs))"
  "set (unseen seen xs) \<subseteq> set xs"
  "fst ` set (unseen seen xs) = fst ` set xs - set seen"
proof (induction xs arbitrary: seen)
  case (Cons x xs)
  { case 1 show ?case using Cons(3) [of "fst x # seen"] Cons(1) by auto }
  { case 2 show ?case using Cons(2) by (auto dest!: subsetD) }
  { case 3 show ?case using Cons(3) by auto }
qed simp_all

lemma set_unseen:
  assumes "inj_on fst (set xs)"
  shows "set (unseen [] xs) = set xs"
proof
  show "set xs \<subseteq> set (unseen [] xs)"
  proof
    fix x assume x: "x \<in> set xs"
    then have "fst x \<in> fst ` set (unseen [] xs)" by (simp add: unseen_props(3))
    then obtain y where "y \<in> set (unseen [] xs)" "fst y = fst x" by auto
    with x unseen_props(2) [of "[]" xs] assms show "x \<in> set (unseen [] xs)"
      by (metis inj_onD subsetD)
  qed
qed (rule unseen_props(2))

lemma routes_for_mset:
  assumes "distinct (map fst recs)"
  shows "mset (filter (\<lambda>r. route_targets_node r h) (routes_for (placement_route_index recs) h))
       = mset (filter (\<lambda>r. route_targets_node r h) (map snd recs))"
proof -
  let ?all = "lookup_all (by_node_id (placement_route_index recs)) (hb_node_id h)
       @ lookup_all (by_job_id (placement_route_index recs)) (hb_job_id h)
       @ lookup_all (by_node_url (placement_route_index recs)) (rstrip_slash (str_or (hb_node_url h) []))"
  let ?t = "\<lambda>r. route_targets_node (snd r) h"
  have sub: "set ?all \<subseteq> set recs" by (auto simp: placement_route_index_def lookup_index_by)
  then have inj: "inj_on fst (set ?all)" using assms by (auto simp: distinct_map intro: inj_on_subset)
  have "set (filter ?t (unseen [] ?all)) = set (filter ?t recs)"
    unfolding set_filter set_unseen [OF inj]
    using sub by (auto simp: placement_route_index_def lookup_index_by route_targets_node_def)
  moreover have "distinct (filter ?t (unseen [] ?all))" "distinct (filter ?t recs)"
    using unseen_props(1) [of "[]" ?all] assms by (auto simp: distinct_map)
  ultimately have "mset (filter ?t (unseen [] ?all)) = mset (filter ?t recs)"
    using set_eq_iff_mset_eq_distinct by blast
  then have "mset (map snd (filter ?t (unseen [] ?all))) = mset (map snd (filter ?t recs))" by simp
  then show ?thesis by (simp add: routes_for_def filter_map comp_def)
qed

lemma charged_index_mset:
  assumes "distinct (map fst recs)"
    and "distinct (map placement_identity (filter (\<lambda>r. route_targets_node r h) (map snd recs)))"
  shows "mset (charged h [] (routes_for (placement_route_index recs) h)) = mset (charged h [] (map snd recs))"
proof -
  let ?rs = "routes_for (placement_route_index recs) h"
  let ?f = "filter (\<lambda>r. route_targets_node r h)"
  note m = routes_for_mset [OF assms(1), of h]
  then have "mset (map placement_identity (?f ?rs)) = mset (map placement_identity (?f (map snd recs)))"
    by (simp only: mset_map)
  with assms(2) have "distinct (map placement_identity (?f ?rs))" by (metis mset_eq_imp_distinct_iff)
  with assms(2) m show ?thesis by (simp add: charged_distinct)
qed

section \<open>Bounds on charges\<close>

definition metrics_ok :: "NodeHeartbeat \<Rightarrow> bool" where
  "metrics_ok h \<longleftrightarrow> (case hb_runtime_metrics h of None \<Rightarrow> True
     | Some m \<Rightarrow> 0 \<le> storage_workspace_grant_mb m \<and> 0 \<le> storage_memory_idle_claim_mb m)"

definition spec_ok :: "(string, json) dict \<Rightarrow> bool" where
  "spec_ok spec \<longleftrightarrow> (case dict_get spec ''disk_mb'' of Some (JInt d) \<Rightarrow> 0 \<le> d | _ \<Rightarrow> True)"

fun record_ok :: "PlacementRecord \<Rightarrow> bool" where
  "record_ok (Route r) \<longleftrightarrow> rq_is_valid (rt_resources r) \<and> spec_ok (rt_spec r)"
| "record_ok (Reservation r) \<longleftrightarrow> rq_is_valid (pv_resources r)"

lemma dynamic_split_nonneg:
  "dynamic_split_spec spec h = Some (disk, memory) \<Longrightarrow> spec_ok spec \<Longrightarrow> 0 \<le> disk"
  by (auto simp: dynamic_split_spec_def spec_ok_def split: option.splits if_splits json.splits)

lemma initial_claim_bounds:
  shows "route_initial_claim_mb q spec h \<le> disk_mb q"
    and "0 \<le> disk_mb q \<Longrightarrow> spec_ok spec \<Longrightarrow> metrics_ok h \<Longrightarrow> 0 \<le> route_initial_claim_mb q spec h"
  using dynamic_split_nonneg [of spec h]
  by (auto simp: route_initial_claim_mb_def Let_def metrics_ok_def split: option.splits)

lemma workspace_claim_bounds:
  shows "route_workspace_claim_mb q spec h \<le> disk_mb q"
    and "0 \<le> disk_mb q \<Longrightarrow> spec_ok spec \<Longrightarrow> 0 \<le> route_workspace_claim_mb q spec h"
  using dynamic_split_nonneg [of spec h]
  by (auto simp: route_workspace_claim_mb_def split: option.splits)

lemma resource_charge_bounds:
  assumes "record_ok r" "metrics_ok h"
  shows "0 \<le> resource_charge h r" "resource_charge h r \<le> rec_resources r"
  using assms
  by (cases r; auto simp: rq_is_valid_def less_eq_ResourceQuantity_def initial_claim_bounds
      workspace_claim_bounds split: option.split)+

lemma device_charge_bounds: "0 \<le> device_charge h r" "device_charge h r \<le> 1"
  by (cases r; simp split: option.split)+

lemma sum_list_rq_nonneg: "(\<And>x. x \<in> set xs \<Longrightarrow> 0 \<le> (f x :: ResourceQuantity)) \<Longrightarrow> 0 \<le> sum_list (map f xs)"
  by (induction xs) (auto intro: add_nonneg_nonneg)

lemma reserved_nonneg:
  assumes "\<forall>r \<in> set rs. record_ok r" "metrics_ok h"
  shows "0 \<le> node_reserved_route_resources h rs"
  unfolding reserved_sum
  using assms charged_subset [of h "[]" rs] resource_charge_bounds(1) by (intro sum_list_rq_nonneg) blast

lemma reserved_mono:
  assumes "record_ok r" "metrics_ok h"
  shows "node_reserved_route_resources h rs \<le> node_reserved_route_resources h (rs @ [r])"
    and "node_reserved_storage_device_slots h rs \<le> node_reserved_storage_device_slots h (rs @ [r])"
  using resource_charge_bounds(1) [OF assms] device_charge_bounds(1) [of h r]
  by (auto simp: reserved_sum device_slots_sum charged_append less_eq_ResourceQuantity_def)

lemma device_capacity_antimono:
  "record_ok r \<Longrightarrow> metrics_ok h \<Longrightarrow> node_has_storage_device_capacity h (rs @ [r])
     \<Longrightarrow> node_has_storage_device_capacity h rs"
  using reserved_mono(2) [of r h rs]
  by (auto simp: node_has_storage_device_capacity_def split: option.splits if_splits)

section \<open>Properties\<close>

text \<open>C28. Looking a worker's records up in the index charges that worker exactly as scanning every
  route does: the available resources and the device check agree, whatever the order in which the
  index returns the records, when the records of the worker have distinct placement identities.\<close>

theorem index_accounting_exact:
  assumes "distinct (map fst recs)"
    and "distinct (map placement_identity (filter (\<lambda>r. route_targets_node r h) (map snd recs)))"
  shows "node_available_resources h (routes_for (placement_route_index recs) h)
           = node_available_resources h (map snd recs)
    \<and> node_has_storage_device_capacity h (routes_for (placement_route_index recs) h)
           = node_has_storage_device_capacity h (map snd recs)"
proof -
  note m = charged_index_mset [OF assms]
  have res: "node_reserved_route_resources h (routes_for (placement_route_index recs) h)
      = node_reserved_route_resources h (map snd recs)"
    unfolding reserved_sum by (rule sum_list_mset_eq [OF m])
  have dev: "node_reserved_storage_device_slots h (routes_for (placement_route_index recs) h)
      = node_reserved_storage_device_slots h (map snd recs)"
    unfolding device_slots_sum by (rule sum_list_mset_eq [OF m])
  show ?thesis
    unfolding node_available_resources_def node_has_storage_device_capacity_def res dev by simp
qed

definition example_worker :: NodeHeartbeat where
  "example_worker = (new_heartbeat 0 ''n1'' ''j1'' 0 0)\<lparr>hb_node_url := Some ''http://n1/'',
     hb_total_resources := ResourceQuantity 8 16384 1000\<rparr>"

definition example_records :: "object list" where
  "example_records =
     [(0, Reservation (new_reservation ''m1'' ''n1'' ''j1'' ''http://n1'' (ResourceQuantity 1 512 100) [])),
      (1, Reservation (new_reservation ''m2'' ''n2'' ''j2'' ''http://n2'' (ResourceQuantity 1 512 100) [])),
      (2, Reservation (new_reservation ''m3'' [] [] ''http://n1'' (ResourceQuantity 1 512 200) []))]"

lemmas example_accounting_defs = example_worker_def example_records_def new_heartbeat_def
  new_reservation_def route_targets_node_def truthy_str_def str_or_def rstrip_slash_def

theorem index_accounting_exact_witness:
  "node_available_resources example_worker (routes_for (placement_route_index example_records) example_worker)
     = node_available_resources example_worker (map snd example_records)
   \<and> disk_mb (node_available_resources example_worker (map snd example_records)) = 700"
proof -
  have "distinct (map fst example_records)" by (simp add: example_records_def)
  moreover have "distinct (map placement_identity
      (filter (\<lambda>r. route_targets_node r example_worker) (map snd example_records)))"
    by (simp add: example_accounting_defs)
  ultimately have "node_available_resources example_worker
      (routes_for (placement_route_index example_records) example_worker)
    = node_available_resources example_worker (map snd example_records)"
    using index_accounting_exact by blast
  moreover have "disk_mb (node_available_resources example_worker (map snd example_records)) = 700"
    by (simp add: node_available_resources_def node_has_storage_device_capacity_def reserved_sum
        free_resources_def example_accounting_defs Let_def)
  ultimately show ?thesis by blast
qed

text \<open>Accounting is conservative: what a worker has available is between nothing and what its
  heartbeat reports as free, charging one more record never frees anything, and a record never
  charges more than the resources it carries.\<close>

theorem accounting_conservative:
  assumes "\<forall>x \<in> set rs. record_ok x" "record_ok r" "metrics_ok h"
  shows "0 \<le> node_available_resources h rs \<and> node_available_resources h rs \<le> free_resources h
    \<and> node_available_resources h (rs @ [r]) \<le> node_available_resources h rs
    \<and> 0 \<le> resource_charge h r \<and> resource_charge h r \<le> rec_resources r"
  using reserved_nonneg [OF assms(1,3)] reserved_mono(1) [OF assms(2,3), of rs]
    device_capacity_antimono [OF assms(2,3), of rs] free_resources_nonneg [of h]
    resource_charge_bounds [OF assms(2,3)]
  by (auto simp: node_available_resources_def Let_def less_eq_ResourceQuantity_def)

theorem accounting_conservative_witness:
  "node_available_resources example_worker (map snd example_records) \<le> free_resources example_worker"
  using accounting_conservative [of "map snd example_records" "snd (hd example_records)" example_worker]
  by (simp add: example_accounting_defs metrics_ok_def rq_is_valid_def)

end
