(* ===== verification/Placement_Choice.thy ===== *)
theory Placement_Choice
  imports Placement_Accounting
begin

text \<open>
  \<open>src/ucloud_sandboxes/placement_choice.py\<close>: power-of-k placement over a fleet view. The
  injected clock and random generator are parameters: \<open>clock n\<close> is the n-th reading of the
  overlay's clock, \<open>draw i\<close> is \<open>randrange(i, len(nodes))\<close> of one choice. The overlay settles
  its entries while it is read, so reading it returns the new overlay too. A read compares the
  heartbeat object with the one that settled the worker last, by identity.
\<close>

section \<open>Views and requests\<close>

record FleetView =
  fv_nodes :: "NodeHeartbeat list"
  fv_routes :: PlacementRouteIndex

definition agent_version_is_schedulable :: "string \<Rightarrow> string \<Rightarrow> string option \<Rightarrow> bool" where
  "agent_version_is_schedulable package agent_version expected \<longleftrightarrow>
     str_strip agent_version = str_strip (str_or expected package)"

text \<open>\<open>package\<close> is \<open>package_version()\<close>, the version of the running release.\<close>

definition fleet_ready ::
  "string \<Rightarrow> NodeHeartbeat list \<Rightarrow> datetime \<Rightarrow> int \<Rightarrow> object list \<Rightarrow> string option \<Rightarrow> FleetView" where
  "fleet_ready package heartbeats now ttl_seconds routes agent_version =
     \<lparr>fv_nodes = filter (\<lambda>h. truthy_str (hb_node_url h) \<and> \<not> hb_draining h \<and> hb_admission_open h
          \<and> has_capability (hb_capabilities h) ''sandbox'' \<and> hb_is_fresh h now ttl_seconds
          \<and> agent_version_is_schedulable package (hb_agent_version h) agent_version) heartbeats,
      fv_routes = placement_route_index routes\<rparr>"

record PlacementRequest =
  qr_resources :: ResourceQuantity
  qr_capabilities :: "string list"
  qr_image :: string
  qr_spec :: "(string, json) dict"
  qr_residency :: "(string, rat) dict"
  qr_excluded_job_ids :: "string list"

record GroupSlice =
  gs_heartbeat :: NodeHeartbeat
  gs_count :: int

section \<open>Fit\<close>

definition node_fits :: "NodeHeartbeat \<Rightarrow> ResourceQuantity \<Rightarrow> PlacementRecord list \<Rightarrow> bool" where
  "node_fits h requested records \<longleftrightarrow>
     node_has_storage_device_capacity h records
     \<and> node_accepts_dynamic_request h requested (node_available_resources h records) None False"

definition initial_charge :: "NodeHeartbeat \<Rightarrow> PlacementRequest \<Rightarrow> ResourceQuantity" where
  "initial_charge h request =
     ResourceQuantity (vcpu (qr_resources request)) (memory_mb (qr_resources request))
       (route_initial_claim_mb (qr_resources request) (qr_spec request) h)"

definition fit_record :: "NodeHeartbeat \<Rightarrow> ResourceQuantity \<Rightarrow> nat \<Rightarrow> PlacementRecord" where
  "fit_record h charge n =
     Reservation (new_reservation (''fit:'' @ str_nat n) (hb_node_id h) (hb_job_id h)
       (str_or (hb_node_url h) []) charge [])"

fun fit_loop ::
  "NodeHeartbeat \<Rightarrow> ResourceQuantity \<Rightarrow> ResourceQuantity \<Rightarrow> PlacementRecord list \<Rightarrow> nat \<Rightarrow> nat \<Rightarrow> nat" where
  "fit_loop h requested charge recs n 0 = n"
| "fit_loop h requested charge recs n (Suc left) =
     (if \<not> node_fits h requested recs then n
      else fit_loop h requested charge (recs @ [fit_record h charge n]) (Suc n) left)"

definition fit_count :: "NodeHeartbeat \<Rightarrow> PlacementRequest \<Rightarrow> PlacementRecord list \<Rightarrow> int \<Rightarrow> int" where
  "fit_count h request records limit =
     (if limit \<le> 0 then limit
      else int (fit_loop h (qr_resources request) (initial_charge h request) records 0 (nat limit)))"

section \<open>The overlay of in-flight creates\<close>

record OverlayEntry =
  oe_record :: PlacementReservation
  oe_node_epoch :: string
  oe_expires_at :: rat

record InflightOverlay =
  ov_ttl :: rat
  ov_by_job :: "(string, (incarnation, OverlayEntry) dict) dict"
  ov_settled :: "(string, NodeHeartbeat) dict"
  ov_next_sweep :: rat
  ov_reads :: nat

type_synonym clock = "nat \<Rightarrow> rat"

datatype choice_error = TtlNotPositive | ChooserNotPositive | BudgetNotPositive | UnknownPolicy

definition new_overlay :: "clock \<Rightarrow> rat \<Rightarrow> choice_error + InflightOverlay" where
  "new_overlay clock ttl =
     (if \<not> 0 < ttl then Inl TtlNotPositive
      else Inr \<lparr>ov_ttl = ttl, ov_by_job = [], ov_settled = [], ov_next_sweep = clock 0 + ttl,
                ov_reads = 1\<rparr>)"

definition read_clock :: "clock \<Rightarrow> InflightOverlay \<Rightarrow> rat \<times> InflightOverlay" where
  "read_clock clock ov = (clock (ov_reads ov), ov\<lparr>ov_reads := Suc (ov_reads ov)\<rparr>)"

definition forget :: "string \<Rightarrow> InflightOverlay \<Rightarrow> InflightOverlay" where
  "forget job_id ov =
     ov\<lparr>ov_by_job := AList.delete job_id (ov_by_job ov),
        ov_settled := AList.delete job_id (ov_settled ov)\<rparr>"

definition set_entries :: "string \<Rightarrow> (incarnation, OverlayEntry) dict \<Rightarrow> InflightOverlay \<Rightarrow> InflightOverlay" where
  "set_entries job_id entries ov =
     (if entries = [] then forget job_id ov
      else ov\<lparr>ov_by_job := AList.update job_id entries (ov_by_job ov)\<rparr>)"

definition reservation_count :: "InflightOverlay \<Rightarrow> int" where
  "reservation_count ov = sum_list (map (\<lambda>(_, entries). int (length entries)) (ov_by_job ov))"

definition incarnation_text :: "incarnation \<Rightarrow> string" where
  "incarnation_text = (\<lambda>(sandbox_id, generation, spec_hash, operation_id).
     ''inflight:'' @ sandbox_id @ '':'' @ str_int generation @ '':'' @ spec_hash @ '':'' @ operation_id)"

definition overlay_sweep :: "rat \<Rightarrow> InflightOverlay \<Rightarrow> InflightOverlay" where
  "overlay_sweep now ov =
     fold (\<lambda>(job_id, entries). set_entries job_id (filter (\<lambda>(_, e). \<not> oe_expires_at e \<le> now) entries))
       (ov_by_job ov) (ov\<lparr>ov_next_sweep := now + ov_ttl ov\<rparr>)"

definition overlay_reserve ::
  "clock \<Rightarrow> InflightOverlay \<Rightarrow> NodeHeartbeat \<Rightarrow> incarnation \<Rightarrow> PlacementRequest \<Rightarrow> InflightOverlay" where
  "overlay_reserve clock ov h key request =
     (let rec = new_reservation (incarnation_text key) (hb_node_id h) (hb_job_id h)
                  (str_or (hb_node_url h) []) (initial_charge h request) (qr_image request);
          (now, ov) = read_clock clock ov;
          ov = (if ov_next_sweep ov \<le> now then overlay_sweep now ov else ov);
          entries = (case dict_get (ov_by_job ov) (hb_job_id h) of None \<Rightarrow> [] | Some es \<Rightarrow> es)
      in ov\<lparr>ov_by_job := AList.update (hb_job_id h)
            (AList.update key \<lparr>oe_record = rec, oe_node_epoch = hb_node_epoch h,
                               oe_expires_at = now + ov_ttl ov\<rparr> entries) (ov_by_job ov)\<rparr>)"

text \<open>\<open>token\<close> is the fresh \<open>uuid4().hex\<close>.\<close>

definition overlay_hold ::
  "clock \<Rightarrow> string \<Rightarrow> InflightOverlay \<Rightarrow> NodeHeartbeat \<Rightarrow> PlacementRequest
     \<Rightarrow> incarnation \<times> InflightOverlay" where
  "overlay_hold clock token ov h request =
     (let key = (''hold-'' @ token, - 1, [], []) in (key, overlay_reserve clock ov h key request))"

definition overlay_release :: "InflightOverlay \<Rightarrow> string \<Rightarrow> incarnation \<Rightarrow> InflightOverlay" where
  "overlay_release ov job_id key =
     (let entries = (case dict_get (ov_by_job ov) job_id of None \<Rightarrow> [] | Some es \<Rightarrow> es)
      in set_entries job_id (AList.delete key entries) ov)"

text \<open>\<open>self._settled.get(job_id) is heartbeat\<close>\<close>

definition settled_by :: "InflightOverlay \<Rightarrow> NodeHeartbeat \<Rightarrow> bool" where
  "settled_by ov h \<longleftrightarrow>
     (case dict_get (ov_settled ov) (hb_job_id h) of None \<Rightarrow> False | Some s \<Rightarrow> hb_identity s = hb_identity h)"

definition overlay_records ::
  "clock \<Rightarrow> InflightOverlay \<Rightarrow> NodeHeartbeat \<Rightarrow> PlacementReservation list \<times> InflightOverlay" where
  "overlay_records clock ov h =
     (case dict_get (ov_by_job ov) (hb_job_id h) of
        None \<Rightarrow> ([], ov)
      | Some entries \<Rightarrow>
          if entries = [] then ([], ov)
          else
            let (now, ov) = read_clock clock ov;
                fresh = (\<not> settled_by ov h);
                ov = (if fresh then ov\<lparr>ov_settled := AList.update (hb_job_id h) h (ov_settled ov)\<rparr> else ov);
                observed = map inventory_identity (hb_inventory h);
                entries = filter (\<lambda>(key, e). \<not> (oe_expires_at e \<le> now
                            \<or> fresh \<and> (key \<in> set observed \<or> oe_node_epoch e \<in> set (hb_retired_node_epochs h))))
                          entries
            in (map (\<lambda>(_, e). oe_record e) entries, set_entries (hb_job_id h) entries ov))"

section \<open>Choosing workers\<close>

definition RESIDENCY_WEIGHT :: rat where
  "RESIDENCY_WEIGHT = 1 / 4"

definition PENDING_RESIDENCY :: rat where
  "PENDING_RESIDENCY = 1 / 2"

record PowerOfKChooser =
  pk_k :: nat
  pk_target :: int
  pk_processes :: int

definition new_chooser :: "int \<Rightarrow> int \<Rightarrow> int \<Rightarrow> choice_error + PowerOfKChooser" where
  "new_chooser k target_creates_per_node api_processes =
     (if min k (min target_creates_per_node api_processes) < 1 then Inl ChooserNotPositive
      else Inr \<lparr>pk_k = nat k, pk_target = target_creates_per_node, pk_processes = api_processes\<rparr>)"

definition score ::
  "clock \<Rightarrow> PowerOfKChooser \<Rightarrow> FleetView \<Rightarrow> PlacementRequest \<Rightarrow> InflightOverlay \<Rightarrow> NodeHeartbeat
     \<Rightarrow> rat option \<times> InflightOverlay" where
  "score clock ch fleet request ov h =
     (if hb_job_id h \<in> set (qr_excluded_job_ids request)
         \<or> \<not> list_all (has_capability (hb_capabilities h)) (qr_capabilities request)
      then (None, ov)
      else
        let (own, ov) = overlay_records clock ov h;
            durable = routes_for (fv_routes fleet) h
        in if \<not> node_fits h (qr_resources request) (durable @ map Reservation own) then (None, ov)
           else
             let residency = (case dict_get (qr_residency request) (hb_node_id h) of None \<Rightarrow> 0 | Some x \<Rightarrow> x);
                 residency = (if qr_image request \<noteq> []
                                 \<and> list_ex (\<lambda>r. pv_image r = qr_image request) own
                              then max residency PENDING_RESIDENCY else residency);
                 creates = hb_active_sandbox_creates h + pk_processes ch * int (length own)
             in (Some (node_pressure_score h + of_int creates / of_int (pk_target ch)
                       - RESIDENCY_WEIGHT * min 1 (max 0 residency)), ov))"

type_synonym scored = "(rat \<times> NodeHeartbeat) list"

fun add_scored :: "NodeHeartbeat \<Rightarrow> rat option \<Rightarrow> scored \<times> scored \<Rightarrow> scored \<times> scored" where
  "add_scored h None ls = ls"
| "add_scored h (Some s) (preferred, drained) =
     (if is_soft_drained (Some h) then (preferred, drained @ [(s, h)])
      else (preferred @ [(s, h)], drained))"

text \<open>The workers of \<open>include_job_ids\<close>, scored in view order.\<close>

fun include_loop ::
  "clock \<Rightarrow> PowerOfKChooser \<Rightarrow> FleetView \<Rightarrow> PlacementRequest \<Rightarrow> string list \<Rightarrow> NodeHeartbeat list
     \<Rightarrow> (scored \<times> scored) \<times> InflightOverlay \<Rightarrow> (scored \<times> scored) \<times> InflightOverlay" where
  "include_loop clock ch fleet request inc [] st = st"
| "include_loop clock ch fleet request inc (h # hs) (ls, ov) =
     (if hb_job_id h \<in> set inc
      then (case score clock ch fleet request ov h of
              (s, ov) \<Rightarrow> include_loop clock ch fleet request inc hs (add_scored h s ls, ov))
      else include_loop clock ch fleet request inc hs (ls, ov))"

definition swap_at :: "nat \<Rightarrow> nat \<Rightarrow> 'a list \<Rightarrow> 'a list" where
  "swap_at i j xs = xs[i := xs ! j, j := xs ! i]"

fun sample_loop ::
  "clock \<Rightarrow> (nat \<Rightarrow> nat) \<Rightarrow> PowerOfKChooser \<Rightarrow> FleetView \<Rightarrow> PlacementRequest \<Rightarrow> nat \<Rightarrow> nat list
     \<Rightarrow> NodeHeartbeat list \<Rightarrow> (scored \<times> scored) \<times> InflightOverlay
     \<Rightarrow> (scored \<times> scored) \<times> InflightOverlay" where
  "sample_loop clock draw ch fleet request limit [] nodes st = st"
| "sample_loop clock draw ch fleet request limit (i # is) nodes (ls, ov) =
     (if length (fst ls) = limit then (ls, ov)
      else
        let nodes = swap_at i (draw i) nodes
        in case score clock ch fleet request ov (nodes ! i) of
             (s, ov) \<Rightarrow>
               sample_loop clock draw ch fleet request limit is nodes (add_scored (nodes ! i) s ls, ov))"

definition choose_workers ::
  "clock \<Rightarrow> (nat \<Rightarrow> nat) \<Rightarrow> PowerOfKChooser \<Rightarrow> FleetView \<Rightarrow> PlacementRequest \<Rightarrow> string list
     \<Rightarrow> InflightOverlay \<Rightarrow> NodeHeartbeat list \<times> InflightOverlay" where
  "choose_workers clock draw ch fleet request inc ov =
     (let nodes = filter (\<lambda>h. hb_job_id h \<notin> set inc) (fv_nodes fleet);
          ((preferred, drained), ov) =
            include_loop clock ch fleet request inc (fv_nodes fleet) (([], []), ov);
          limit = pk_k ch + length preferred;
          ((preferred, drained), ov) =
            sample_loop clock draw ch fleet request limit [0..<length nodes] nodes
              ((preferred, drained), ov);
          ranked = sort_key fst preferred;
          ranked = ranked @ py_prefix (int (pk_k ch) - int (length ranked)) (sort_key fst drained)
      in (map snd ranked, ov))"

section \<open>Packing a group\<close>

text \<open>\<open>draws n\<close> are the draws of the n-th choice. Every round excludes one more worker of the
  view, so as many rounds as the view has workers, and one more, suffice.\<close>

fun pack_loop ::
  "clock \<Rightarrow> (nat \<Rightarrow> nat \<Rightarrow> nat) \<Rightarrow> PowerOfKChooser \<Rightarrow> FleetView \<Rightarrow> PlacementRequest \<Rightarrow> string list \<Rightarrow> int
     \<Rightarrow> nat \<Rightarrow> nat \<Rightarrow> int \<Rightarrow> string list \<Rightarrow> InflightOverlay \<Rightarrow> GroupSlice list
     \<Rightarrow> (GroupSlice list \<times> InflightOverlay) option" where
  "pack_loop clock draws ch fleet request inc budget 0 n wanted excluded ov slices = None"
| "pack_loop clock draws ch fleet request inc budget (Suc fuel) n wanted excluded ov slices =
     (if wanted \<le> 0 then Some (slices, ov)
      else
        case choose_workers clock (draws n) ch fleet (request\<lparr>qr_excluded_job_ids := excluded\<rparr>) inc ov of
          ([], ov) \<Rightarrow> Some (slices, ov)
        | (h # _, ov) \<Rightarrow>
            (case overlay_records clock ov h of
               (own, ov) \<Rightarrow>
                 let placed = fit_count h request (routes_for (fv_routes fleet) h @ map Reservation own)
                                (min budget wanted)
                 in pack_loop clock draws ch fleet request inc budget fuel (Suc n) (wanted - placed)
                      (hb_job_id h # excluded) ov
                      (if placed \<noteq> 0 then slices @ [\<lparr>gs_heartbeat = h, gs_count = placed\<rparr>] else slices)))"

definition pack ::
  "clock \<Rightarrow> (nat \<Rightarrow> nat \<Rightarrow> nat) \<Rightarrow> PowerOfKChooser \<Rightarrow> FleetView \<Rightarrow> PlacementRequest \<Rightarrow> int \<Rightarrow> int
     \<Rightarrow> string list \<Rightarrow> InflightOverlay \<Rightarrow> choice_error + (GroupSlice list \<times> InflightOverlay) option" where
  "pack clock draws ch fleet request wanted per_node_budget inc ov =
     (if per_node_budget < 1 then Inl BudgetNotPositive
      else Inr (pack_loop clock draws ch fleet request inc per_node_budget
                  (Suc (length (fv_nodes fleet))) 0 wanted (qr_excluded_job_ids request) ov []))"

definition plan_group ::
  "clock \<Rightarrow> (nat \<Rightarrow> nat \<Rightarrow> nat) \<Rightarrow> PowerOfKChooser \<Rightarrow> FleetView \<Rightarrow> PlacementRequest \<Rightarrow> int \<Rightarrow> int \<Rightarrow> string
     \<Rightarrow> string list \<Rightarrow> InflightOverlay \<Rightarrow> choice_error + (GroupSlice list \<times> InflightOverlay) option" where
  "plan_group clock draws ch fleet request wanted per_node_budget policy inc ov =
     (if policy = ''spread''
      then pack clock draws ch fleet request wanted
             (min per_node_budget (- ((- wanted) div max 1 (int (length (fv_nodes fleet)))))) inc ov
      else if policy \<noteq> ''pack'' then Inl UnknownPolicy
      else pack clock draws ch fleet request wanted per_node_budget inc ov)"

section \<open>How many creates fit\<close>

definition fit_records :: "NodeHeartbeat \<Rightarrow> ResourceQuantity \<Rightarrow> nat \<Rightarrow> nat \<Rightarrow> PlacementRecord list" where
  "fit_records h charge n i = map (fit_record h charge) [n..<n + i]"

lemma fit_loop_spec:
  fixes h requested charge recs n left
  defines "m \<equiv> fit_loop h requested charge recs n left"
  shows "n \<le> m \<and> m \<le> n + left
    \<and> (\<forall>i < m - n. node_fits h requested (recs @ fit_records h charge n i))
    \<and> (m < n + left \<longrightarrow> \<not> node_fits h requested (recs @ fit_records h charge n (m - n)))"
  unfolding m_def
proof (induction left arbitrary: recs n)
  case (Suc left)
  have shift: "(recs @ [fit_record h charge n]) @ fit_records h charge (Suc n) i
      = recs @ fit_records h charge n (Suc i)" for i
    by (simp add: fit_records_def upt_rec [of n])
  show ?case
  proof (cases "node_fits h requested recs")
    case True
    let ?m = "fit_loop h requested charge (recs @ [fit_record h charge n]) (Suc n) left"
    from Suc.IH [of "Suc n" "recs @ [fit_record h charge n]", unfolded shift]
    have ih: "Suc n \<le> ?m" "?m \<le> Suc n + left"
      "\<forall>i < ?m - Suc n. node_fits h requested (recs @ fit_records h charge n (Suc i))"
      "?m < Suc n + left \<longrightarrow> \<not> node_fits h requested (recs @ fit_records h charge n (Suc (?m - Suc n)))"
      by auto
    have "node_fits h requested (recs @ fit_records h charge n i)" if "i < ?m - n" for i
    proof (cases i)
      case 0
      then show ?thesis using True by (simp add: fit_records_def)
    next
      case (Suc j)
      then show ?thesis using ih(3) that by simp
    qed
    with ih True show ?thesis by (simp add: Suc_diff_Suc)
  qed (simp add: fit_records_def)
qed (simp add: fit_records_def)

definition no_fit_records :: "PlacementRecord list \<Rightarrow> bool" where
  "no_fit_records recs \<longleftrightarrow>
     list_all (\<lambda>r. case placement_identity r of Migration_Identity s \<Rightarrow> \<not> starts_with ''fit:'' s | _ \<Rightarrow> True) recs"

lemma fit_record_targets: "hb_node_id h \<noteq> [] \<Longrightarrow> route_targets_node (fit_record h charge n) h"
  by (simp add: route_targets_node_def fit_record_def new_reservation_def)

lemma fit_record_charge:
  "resource_charge h (fit_record h' charge n) = charge"
  "placement_identity (fit_record h' charge n) = Migration_Identity (''fit:'' @ str_nat n)"
  "device_charge h (fit_record h' charge n) = (if 0 < disk_mb charge then 1 else 0)"
  by (simp_all add: fit_record_def new_reservation_def)

lemma charged_fit_records:
  assumes "hb_node_id h \<noteq> []" "no_fit_records recs"
  shows "charged h [] (recs @ fit_records h charge 0 i) = charged h [] recs @ fit_records h charge 0 i"
proof (induction i)
  case (Suc i)
  have eq: "recs @ fit_records h charge 0 (Suc i) = (recs @ fit_records h charge 0 i) @ [fit_record h charge i]"
    by (simp add: fit_records_def)
  have "placement_identity r \<noteq> Migration_Identity (''fit:'' @ str_nat i)" if "r \<in> set recs" for r
    using assms(2) that by (auto simp: no_fit_records_def list_all_iff starts_with_def dest!: bspec)
  then have "Migration_Identity (''fit:'' @ str_nat i) \<notin> placement_identity ` set recs" by force
  then have "placement_identity (fit_record h charge i)
      \<notin> placement_identity ` {x \<in> set (recs @ fit_records h charge 0 i). route_targets_node x h}"
    by (auto simp: fit_record_charge fit_records_def)
  then show ?case
    unfolding eq charged_append Suc.IH
    by (simp add: fit_record_targets [OF assms(1)] fit_records_def)
qed (simp add: fit_records_def)

lemma reserved_fit_records:
  assumes "hb_node_id h \<noteq> []" "no_fit_records recs"
  shows "disk_mb (node_reserved_route_resources h (recs @ fit_records h charge 0 i))
           = disk_mb (node_reserved_route_resources h recs) + int i * disk_mb charge"
proof -
  have "disk_mb (sum_list (map (resource_charge h) (fit_records h charge 0 i))) = int i * disk_mb charge"
    by (induction i) (simp_all add: fit_records_def fit_record_charge algebra_simps)
  then show ?thesis by (simp add: reserved_sum charged_fit_records [OF assms])
qed

lemma node_fits_disk:
  assumes "node_fits h q recs"
  shows "0 \<le> disk_mb q"
    "disk_mb q \<le> max 0 (disk_mb (free_resources h) - disk_mb (node_reserved_route_resources h recs))"
    "node_has_storage_device_capacity h recs"
proof -
  have fits: "node_has_storage_device_capacity h recs"
    "dynamic_request_fits q (node_available_resources h recs) (hb_total_resources h)"
    using assms node_accepts_dynamic_requestD(1) [of h q "node_available_resources h recs" None False]
    by (auto simp: node_fits_def)
  from dynamic_request_fitsD(1,4) [OF fits(2)] fits(1)
  show "0 \<le> disk_mb q" "node_has_storage_device_capacity h recs"
    "disk_mb q \<le> max 0 (disk_mb (free_resources h) - disk_mb (node_reserved_route_resources h recs))"
    by (simp_all add: node_available_resources_def Let_def)
qed

lemma initial_charge_disk:
  "disk_mb (initial_charge h request) \<le> disk_mb (qr_resources request)"
  by (simp add: initial_charge_def initial_claim_bounds)

section \<open>The overlay keeps a charge until it is settled\<close>

definition entry :: "InflightOverlay \<Rightarrow> string \<Rightarrow> incarnation \<Rightarrow> OverlayEntry option" where
  "entry ov job key = (case dict_get (ov_by_job ov) job of None \<Rightarrow> None | Some es \<Rightarrow> dict_get es key)"

definition ov_inv :: "InflightOverlay \<Rightarrow> bool" where
  "ov_inv ov \<longleftrightarrow> dict_keys_ok (ov_by_job ov)
     \<and> (\<forall>(_, es) \<in> set (ov_by_job ov). dict_keys_ok es \<and> es \<noteq> [])"

lemma ov_invD: "ov_inv ov \<Longrightarrow> dict_get (ov_by_job ov) job = Some es \<Longrightarrow> dict_keys_ok es \<and> es \<noteq> []"
  by (auto simp: ov_inv_def dest: map_of_SomeD)

lemma set_entries_inv: "ov_inv ov \<Longrightarrow> dict_keys_ok es \<Longrightarrow> ov_inv (set_entries job es ov)"
  by (auto simp: ov_inv_def set_entries_def forget_def dict_in_delete dest!: dict_in_update)

lemma set_entries_get:
  "dict_get (ov_by_job (set_entries job es ov)) j
     = (if j = job then (if es = [] then None else Some es) else dict_get (ov_by_job ov) j)"
  by (simp add: set_entries_def forget_def AList.delete_conv' AList.update_conv')

lemma set_entries_entry:
  "entry (set_entries job es ov) j key = (if j = job then dict_get es key else entry ov j key)"
  by (simp add: entry_def set_entries_get)

lemma set_entries_fields [simp]:
  "ov_ttl (set_entries job es ov) = ov_ttl ov" "ov_reads (set_entries job es ov) = ov_reads ov"
  by (simp_all add: set_entries_def forget_def)

lemma dict_keys_ok_filter: "dict_keys_ok es \<Longrightarrow> dict_keys_ok (filter P es)"
  by (induction es) auto

lemma dict_get_filter:
  "dict_keys_ok es \<Longrightarrow> dict_get es k = Some v \<Longrightarrow> P (k, v) \<Longrightarrow> dict_get (filter P es) k = Some v"
  by (induction es) (auto split: if_splits dest: map_of_SomeD)

lemma overlay_sweep_inv_entry:
  assumes "ov_inv ov"
  shows "ov_inv (overlay_sweep now ov)"
    and "entry ov job key = Some e \<Longrightarrow> now < oe_expires_at e \<Longrightarrow> entry (overlay_sweep now ov) job key = Some e"
    and "ov_reads (overlay_sweep now ov) = ov_reads ov" "ov_ttl (overlay_sweep now ov) = ov_ttl ov"
proof -
  let ?P = "\<lambda>(k :: incarnation, e). \<not> oe_expires_at e \<le> now"
  let ?f = "\<lambda>(j, es). set_entries j (filter ?P es)"
  have fold: "ov_inv (fold ?f L o1) \<and> ov_reads (fold ?f L o1) = ov_reads o1 \<and> ov_ttl (fold ?f L o1) = ov_ttl o1
      \<and> (entry o1 job key = Some e \<longrightarrow> now < oe_expires_at e \<longrightarrow>
         (\<forall>es. (job, es) \<in> set L \<longrightarrow> dict_get es key = Some e) \<longrightarrow> entry (fold ?f L o1) job key = Some e)"
    if "ov_inv o1" "\<forall>(_, es) \<in> set L. dict_keys_ok es" for L o1
    using that
  proof (induction L arbitrary: o1)
    case (Cons p L)
    obtain j es where p: "p = (j, es)" by (cases p)
    let ?o = "set_entries j (filter ?P es) o1"
    have inv: "ov_inv ?o" using Cons.prems p by (auto intro: set_entries_inv dict_keys_ok_filter)
    have "entry ?o job key = Some e"
      if "entry o1 job key = Some e" "now < oe_expires_at e"
        "\<forall>es. (job, es) \<in> set (p # L) \<longrightarrow> dict_get es key = Some e"
      using that Cons.prems p by (auto simp: set_entries_entry intro!: dict_get_filter)
    with Cons.IH [OF inv] Cons.prems p show ?case by auto
  qed simp
  let ?o = "ov\<lparr>ov_next_sweep := now + ov_ttl ov\<rparr>"
  have "ov_inv ?o" "\<forall>(_, es) \<in> set (ov_by_job ov). dict_keys_ok es"
    using assms by (auto simp: ov_inv_def)
  note f = fold [OF this]
  show "ov_inv (overlay_sweep now ov)" "ov_reads (overlay_sweep now ov) = ov_reads ov"
    "ov_ttl (overlay_sweep now ov) = ov_ttl ov"
    using f by (simp_all add: overlay_sweep_def)
  assume e: "entry ov job key = Some e" "now < oe_expires_at e"
  have "dict_get es key = Some e" if "(job, es) \<in> set (ov_by_job ov)" for es
    using e(1) that assms by (auto simp: entry_def ov_inv_def split: option.splits)
  with f e show "entry (overlay_sweep now ov) job key = Some e"
    by (simp add: overlay_sweep_def entry_def)
qed

text \<open>Reading the clock and sweeping are all that a reservation does to the other entries.\<close>

definition reserve_base :: "clock \<Rightarrow> InflightOverlay \<Rightarrow> InflightOverlay" where
  "reserve_base clock ov =
     (let (now, ov) = read_clock clock ov in if ov_next_sweep ov \<le> now then overlay_sweep now ov else ov)"

text \<open>The entry a reservation made now gets.\<close>

definition reserved_entry ::
  "clock \<Rightarrow> InflightOverlay \<Rightarrow> NodeHeartbeat \<Rightarrow> incarnation \<Rightarrow> PlacementRequest \<Rightarrow> OverlayEntry" where
  "reserved_entry clock ov h key request =
     \<lparr>oe_record = new_reservation (incarnation_text key) (hb_node_id h) (hb_job_id h)
           (str_or (hb_node_url h) []) (initial_charge h request) (qr_image request),
         oe_node_epoch = hb_node_epoch h, oe_expires_at = clock (ov_reads ov) + ov_ttl ov\<rparr>"

definition reserve_entries :: "clock \<Rightarrow> InflightOverlay \<Rightarrow> NodeHeartbeat \<Rightarrow> incarnation \<Rightarrow> PlacementRequest
    \<Rightarrow> (incarnation, OverlayEntry) dict" where
  "reserve_entries clock ov h key request =
     AList.update key
       (reserved_entry clock ov h key request)
       (case dict_get (ov_by_job (reserve_base clock ov)) (hb_job_id h) of None \<Rightarrow> [] | Some es \<Rightarrow> es)"

lemma reserve_base:
  assumes "ov_inv ov"
  shows "ov_inv (reserve_base clock ov)" "ov_reads (reserve_base clock ov) = Suc (ov_reads ov)"
    "ov_ttl (reserve_base clock ov) = ov_ttl ov"
    and "entry ov job k = Some e \<Longrightarrow> clock (ov_reads ov) < oe_expires_at e \<Longrightarrow>
      entry (reserve_base clock ov) job k = Some e"
proof -
  have inv: "ov_inv (ov\<lparr>ov_reads := Suc (ov_reads ov)\<rparr>)" using assms by (simp add: ov_inv_def)
  note sw = overlay_sweep_inv_entry [OF inv]
  show "ov_inv (reserve_base clock ov)" "ov_reads (reserve_base clock ov) = Suc (ov_reads ov)"
    "ov_ttl (reserve_base clock ov) = ov_ttl ov"
    using inv sw by (simp_all add: reserve_base_def read_clock_def)
  assume "entry ov job k = Some e" "clock (ov_reads ov) < oe_expires_at e"
  then show "entry (reserve_base clock ov) job k = Some e"
    using sw(2) [of job k e] by (simp add: reserve_base_def read_clock_def entry_def)
qed

lemma overlay_reserve_eq:
  assumes "ov_inv ov"
  shows "overlay_reserve clock ov h key request
     = (reserve_base clock ov)\<lparr>ov_by_job := AList.update (hb_job_id h) (reserve_entries clock ov h key request)
          (ov_by_job (reserve_base clock ov))\<rparr>"
  using reserve_base(3) [OF assms]
  by (simp add: overlay_reserve_def reserve_base_def reserve_entries_def reserved_entry_def read_clock_def Let_def)

lemma reserve_entries_ok: "ov_inv ov \<Longrightarrow> dict_keys_ok (reserve_entries clock ov h key request)"
  by (auto simp: reserve_entries_def dest: ov_invD [OF reserve_base(1)] split: option.split)

lemma overlay_reserve_props:
  assumes "ov_inv ov"
  shows "ov_inv (overlay_reserve clock ov h key request)"
    and "ov_reads (overlay_reserve clock ov h key request) = Suc (ov_reads ov)"
    and "entry ov job k = Some e \<Longrightarrow> clock (ov_reads ov) < oe_expires_at e \<Longrightarrow>
      (job, k) \<noteq> (hb_job_id h, key) \<Longrightarrow> entry (overlay_reserve clock ov h key request) job k = Some e"
    and "entry (overlay_reserve clock ov h key request) (hb_job_id h) key
      = Some (reserved_entry clock ov h key request)"
proof -
  note base = reserve_base [OF assms, where clock = clock]
  have ne: "reserve_entries clock ov h key request \<noteq> []" by (simp add: reserve_entries_def update_nonempty)
  show "ov_inv (overlay_reserve clock ov h key request)"
    using base(1) reserve_entries_ok [OF assms, of clock h key request] ne
    by (auto simp: overlay_reserve_eq [OF assms] ov_inv_def dest!: dict_in_update)
  show "ov_reads (overlay_reserve clock ov h key request) = Suc (ov_reads ov)"
    by (simp add: overlay_reserve_eq [OF assms] base(2))
  show "entry (overlay_reserve clock ov h key request) (hb_job_id h) key
      = Some (reserved_entry clock ov h key request)"
    by (simp add: overlay_reserve_eq [OF assms] entry_def reserve_entries_def AList.update_conv')
  assume "entry ov job k = Some e" "clock (ov_reads ov) < oe_expires_at e" and ne: "(job, k) \<noteq> (hb_job_id h, key)"
  from base(4) [OF this(1,2)] ne show "entry (overlay_reserve clock ov h key request) job k = Some e"
    by (auto simp: overlay_reserve_eq [OF assms] entry_def reserve_entries_def AList.update_conv'
        split: option.splits)
qed

lemma overlay_release_props:
  assumes "ov_inv ov"
  shows "ov_inv (overlay_release ov job key)" "ov_reads (overlay_release ov job key) = ov_reads ov"
    and "entry (overlay_release ov job key) j k = (if (j, k) = (job, key) then None else entry ov j k)"
proof -
  have "dict_keys_ok (case dict_get (ov_by_job ov) job of None \<Rightarrow> [] | Some es \<Rightarrow> es)"
    using ov_invD [OF assms] by (auto split: option.split)
  then show "ov_inv (overlay_release ov job key)"
    unfolding overlay_release_def Let_def by (intro set_entries_inv assms) simp
  show "ov_reads (overlay_release ov job key) = ov_reads ov" by (simp add: overlay_release_def Let_def)
  show "entry (overlay_release ov job key) j k = (if (j, k) = (job, key) then None else entry ov j k)"
    unfolding overlay_release_def Let_def set_entries_entry
    by (auto simp: AList.delete_conv' entry_def split: option.split)
qed

lemma settled_by_reads [simp]: "settled_by (ov\<lparr>ov_reads := n\<rparr>) h = settled_by ov h"
  by (simp add: settled_by_def)

text \<open>The entries a read settles, given the heartbeat and the clock.\<close>

definition settles :: "NodeHeartbeat \<Rightarrow> incarnation \<Rightarrow> OverlayEntry \<Rightarrow> bool" where
  "settles h key e \<longleftrightarrow> key \<in> inventory_identity ` set (hb_inventory h)
     \<or> oe_node_epoch e \<in> set (hb_retired_node_epochs h)"

lemma overlay_records_other:
  "j \<noteq> hb_job_id h \<Longrightarrow>
     dict_get (ov_by_job (snd (overlay_records clock ov h))) j = dict_get (ov_by_job ov) j"
  "j \<noteq> hb_job_id h \<Longrightarrow>
     dict_get (ov_settled (snd (overlay_records clock ov h))) j = dict_get (ov_settled ov) j"
  by (auto simp: overlay_records_def read_clock_def Let_def set_entries_def forget_def
      AList.delete_conv' AList.update_conv' split: option.split)

lemma overlay_records_props:
  assumes "ov_inv ov"
  shows "ov_inv (snd (overlay_records clock ov h))"
    and "ov_reads ov \<le> ov_reads (snd (overlay_records clock ov h))"
    and "ov_reads (snd (overlay_records clock ov h)) \<le> Suc (ov_reads ov)"
    and "entry ov job key = Some e \<Longrightarrow>
      job \<noteq> hb_job_id h \<or> \<not> settles h key e \<and> clock (ov_reads ov) < oe_expires_at e \<Longrightarrow>
      entry (snd (overlay_records clock ov h)) job key = Some e
      \<and> (job = hb_job_id h \<longrightarrow> oe_record e \<in> set (fst (overlay_records clock ov h)))"
proof -
  define es where "es = (case dict_get (ov_by_job ov) (hb_job_id h) of None \<Rightarrow> [] | Some es \<Rightarrow> es)"
  define P where "P = (\<lambda>(key, e :: OverlayEntry). \<not> (oe_expires_at e \<le> clock (ov_reads ov)
      \<or> \<not> settled_by ov h \<and> (key \<in> inventory_identity ` set (hb_inventory h) \<or> oe_node_epoch e \<in> set (hb_retired_node_epochs h))))"
  have ok: "dict_keys_ok es" using ov_invD [OF assms] by (auto simp: es_def split: option.split)
  show inv: "ov_inv (snd (overlay_records clock ov h))"
  proof (cases "es = []")
    case False
    have base: "ov_inv (ov\<lparr>ov_reads := n, ov_settled := s\<rparr>)" "ov_inv (ov\<lparr>ov_reads := n\<rparr>)" for n s
      using assms by (simp_all add: ov_inv_def)
    show ?thesis using False
      by (auto simp: overlay_records_def read_clock_def Let_def es_def assms split: option.splits
          intro!: set_entries_inv base dict_keys_ok_filter dest: ov_invD [OF assms])
  qed (use assms in \<open>auto simp: overlay_records_def es_def split: option.splits\<close>)
  show "ov_reads ov \<le> ov_reads (snd (overlay_records clock ov h))"
    "ov_reads (snd (overlay_records clock ov h)) \<le> Suc (ov_reads ov)"
    by (simp_all add: overlay_records_def read_clock_def Let_def split: option.split)
  assume e: "entry ov job key = Some e"
    "job \<noteq> hb_job_id h \<or> \<not> settles h key e \<and> clock (ov_reads ov) < oe_expires_at e"
  show "entry (snd (overlay_records clock ov h)) job key = Some e
      \<and> (job = hb_job_id h \<longrightarrow> oe_record e \<in> set (fst (overlay_records clock ov h)))"
  proof (cases "job = hb_job_id h")
    case True
    from e(1) True have ent: "dict_get (ov_by_job ov) (hb_job_id h) = Some es" "dict_get es key = Some e"
      by (auto simp: entry_def es_def split: option.splits)
    have "P (key, e)" using e(2) True by (auto simp: P_def settles_def)
    from dict_get_filter [where P = P, OF ok ent(2) this] have f: "dict_get (filter P es) key = Some e" .
    then have "oe_record e \<in> (\<lambda>(_, e). oe_record e) ` set (filter P es)"
      by (force dest: map_of_SomeD)
    moreover have "es \<noteq> []" using ent(2) by auto
    then obtain ov' where "overlay_records clock ov h
        = (map (\<lambda>(_, e). oe_record e) (filter P es), set_entries (hb_job_id h) (filter P es) ov')"
      unfolding overlay_records_def ent(1) P_def
      by (cases "settled_by ov h") (simp_all add: read_clock_def Let_def)
    ultimately show ?thesis using f by (simp add: set_entries_entry True)
  next
    case False
    with e(1) show ?thesis by (simp add: overlay_records_other entry_def)
  qed
qed

section \<open>Runs of the overlay\<close>

datatype ov_op =
    Ov_reserve NodeHeartbeat incarnation PlacementRequest
  | Ov_hold string NodeHeartbeat PlacementRequest
  | Ov_release string incarnation
  | Ov_records NodeHeartbeat

fun overlay_apply :: "clock \<Rightarrow> ov_op \<Rightarrow> InflightOverlay \<Rightarrow> InflightOverlay" where
  "overlay_apply clock (Ov_reserve h key request) ov = overlay_reserve clock ov h key request"
| "overlay_apply clock (Ov_hold token h request) ov = snd (overlay_hold clock token ov h request)"
| "overlay_apply clock (Ov_release job key) ov = overlay_release ov job key"
| "overlay_apply clock (Ov_records h) ov = snd (overlay_records clock ov h)"

definition overlay_run :: "clock \<Rightarrow> ov_op list \<Rightarrow> InflightOverlay \<Rightarrow> InflightOverlay" where
  "overlay_run clock ops ov = fold (overlay_apply clock) ops ov"

text \<open>The operations that may end the charge \<open>e\<close> held for \<open>(job, key)\<close>.\<close>

fun op_keeps :: "string \<Rightarrow> incarnation \<Rightarrow> OverlayEntry \<Rightarrow> ov_op \<Rightarrow> bool" where
  "op_keeps job key e (Ov_reserve h k _) \<longleftrightarrow> (hb_job_id h, k) \<noteq> (job, key)"
| "op_keeps job key e (Ov_hold token h _) \<longleftrightarrow> (hb_job_id h, (''hold-'' @ token, - 1, [], [])) \<noteq> (job, key)"
| "op_keeps job key e (Ov_release j k) \<longleftrightarrow> (j, k) \<noteq> (job, key)"
| "op_keeps job key e (Ov_records h) \<longleftrightarrow> hb_job_id h \<noteq> job \<or> \<not> settles h key e"

lemma overlay_apply_inv: "ov_inv ov \<Longrightarrow> ov_inv (overlay_apply clock op ov)"
  by (cases op)
    (simp_all add: overlay_reserve_props overlay_hold_def Let_def overlay_release_props overlay_records_props)

lemma overlay_run_inv: "ov_inv ov \<Longrightarrow> ov_inv (overlay_run clock ops ov)"
  unfolding overlay_run_def by (induction ops arbitrary: ov) (auto intro: overlay_apply_inv)

lemma new_overlay_inv: "new_overlay clock ttl = Inr ov \<Longrightarrow> ov_inv ov"
  by (auto simp: new_overlay_def ov_inv_def split: if_splits)

lemma overlay_apply_reads: "ov_inv ov \<Longrightarrow> ov_reads ov \<le> ov_reads (overlay_apply clock op ov)"
  by (cases op)
    (simp_all add: overlay_reserve_props overlay_hold_def Let_def overlay_release_props overlay_records_props)

lemma overlay_run_reads: "ov_inv ov \<Longrightarrow> ov_reads ov \<le> ov_reads (overlay_run clock ops ov)"
  unfolding overlay_run_def
proof (induction ops arbitrary: ov)
  case (Cons op ops)
  then show ?case using overlay_apply_inv [of ov clock op] overlay_apply_reads [of ov clock op]
    by (metis fold_simps(2) order_trans)
qed simp

lemma overlay_apply_keeps:
  assumes "ov_inv ov" "entry ov job key = Some e" "op_keeps job key e op"
    "ov_reads ov < ov_reads (overlay_apply clock op ov) \<longrightarrow> clock (ov_reads ov) < oe_expires_at e"
  shows "entry (overlay_apply clock op ov) job key = Some e"
proof (cases op)
  case (Ov_reserve h k request)
  with assms show ?thesis by (auto simp: overlay_reserve_props(2) intro!: overlay_reserve_props(3))
next
  case (Ov_hold token h request)
  with assms show ?thesis
    by (auto simp: overlay_hold_def Let_def overlay_reserve_props(2) intro!: overlay_reserve_props(3))
next
  case (Ov_release j k)
  with assms show ?thesis by (auto simp: overlay_release_props(3))
next
  case (Ov_records h)
  have "hb_job_id h = job \<longrightarrow> ov_reads ov < ov_reads (snd (overlay_records clock ov h))"
    using assms(2) by (auto simp: overlay_records_def entry_def read_clock_def Let_def split: option.splits)
  with Ov_records assms show ?thesis using overlay_records_props(4) [OF assms(1,2), of h clock] by auto
qed

lemma overlay_run_keeps:
  assumes "ov_inv ov" "entry ov job key = Some e" "list_all (op_keeps job key e) ops"
    "\<And>n. ov_reads ov \<le> n \<Longrightarrow> n < ov_reads (overlay_run clock ops ov) \<Longrightarrow> clock n < oe_expires_at e"
  shows "entry (overlay_run clock ops ov) job key = Some e"
  using assms
proof (induction ops arbitrary: ov)
  case (Cons op ops)
  let ?ov = "overlay_apply clock op ov"
  have run: "overlay_run clock (op # ops) ov = overlay_run clock ops ?ov" by (simp add: overlay_run_def)
  have inv: "ov_inv ?ov" by (rule overlay_apply_inv [OF Cons.prems(1)])
  note reads = overlay_apply_reads [OF Cons.prems(1), of clock op] overlay_run_reads [OF inv, of clock ops]
  have "entry ?ov job key = Some e"
    using Cons.prems reads run by (intro overlay_apply_keeps) auto
  then show ?case
    unfolding run using Cons.prems(3,4) reads run by (intro Cons.IH inv) auto
qed (simp add: overlay_run_def)

section \<open>Properties of fit and of the overlay\<close>

text \<open>C26. \<open>fit_count\<close> is exact and never overbooks: it returns the largest number of creates, up to
  the limit, for which each one still fits after the charges of those before it, and the hard disk
  the counted creates are charged for fits the disk the worker had available.\<close>

theorem fit_count_exact:
  assumes "0 < limit" "hb_node_id h \<noteq> []" "no_fit_records recs"
  shows "0 \<le> fit_count h request recs limit \<and> fit_count h request recs limit \<le> limit
    \<and> (\<forall>i < nat (fit_count h request recs limit).
         node_fits h (qr_resources request) (recs @ fit_records h (initial_charge h request) 0 i))
    \<and> (fit_count h request recs limit < limit \<longrightarrow>
         \<not> node_fits h (qr_resources request)
            (recs @ fit_records h (initial_charge h request) 0 (nat (fit_count h request recs limit))))
    \<and> fit_count h request recs limit * disk_mb (initial_charge h request)
         \<le> disk_mb (node_available_resources h recs)"
proof -
  let ?q = "qr_resources request" and ?c = "initial_charge h request"
  define m where "m = fit_loop h ?q ?c recs 0 (nat limit)"
  have eq: "fit_count h request recs limit = int m" using assms(1) by (simp add: fit_count_def m_def)
  from fit_loop_spec [of 0 h ?q ?c recs "nat limit", folded m_def]
  have m: "m \<le> nat limit" "\<forall>i < m. node_fits h ?q (recs @ fit_records h ?c 0 i)"
    "m < nat limit \<longrightarrow> \<not> node_fits h ?q (recs @ fit_records h ?c 0 m)" by auto
  have "int m * disk_mb ?c \<le> disk_mb (node_available_resources h recs)"
  proof (cases m)
    case (Suc k)
    have fits: "node_fits h ?q (recs @ fit_records h ?c 0 k)" "node_fits h ?q recs"
      using m(2) Suc by (auto simp: fit_records_def dest: spec [of _ 0])
    have disk: "disk_mb (node_available_resources h recs)
        = max 0 (disk_mb (free_resources h) - disk_mb (node_reserved_route_resources h recs))"
      using node_fits_disk(3) [OF fits(2)] by (simp add: node_available_resources_def Let_def)
    show ?thesis
    proof (cases "disk_mb ?c \<le> 0")
      case True
      then have "int m * disk_mb ?c \<le> 0" by (simp add: mult_nonneg_nonpos)
      then show ?thesis unfolding disk by simp
    next
      case False
      from node_fits_disk(2) [OF fits(1)] initial_charge_disk [of h request] False Suc show ?thesis
        unfolding disk reserved_fit_records [OF assms(2,3)] by (auto simp: algebra_simps)
    qed
  qed (simp add: node_available_resources_def Let_def)
  with m assms(1) show ?thesis unfolding eq by auto
qed

text \<open>C27. A create in flight stays charged: after \<open>reserve\<close>, whatever the process then reserves,
  holds, releases and reads, the worker's records include the create's charge until its TTL has
  passed, its own release, its own renewed reservation, or a heartbeat that reports the exact
  incarnation or retires the boot it was sent to.\<close>

theorem overlay_charges_until_settled:
  assumes "new_overlay clock ttl = Inr ov0"
    and "ov = overlay_run clock before ov0" "ov1 = overlay_reserve clock ov h key request"
    and "list_all (op_keeps (hb_job_id h) key (reserved_entry clock ov h key request)) ops"
    and "\<forall>n. ov_reads ov1 \<le> n \<and> n \<le> ov_reads (overlay_run clock ops ov1) \<longrightarrow>
      clock n < clock (ov_reads ov) + ov_ttl ov"
    and "hb_job_id h' = hb_job_id h" "\<not> settles h' key (reserved_entry clock ov h key request)"
  shows "new_reservation (incarnation_text key) (hb_node_id h) (hb_job_id h) (str_or (hb_node_url h) [])
           (initial_charge h request) (qr_image request)
         \<in> set (fst (overlay_records clock (overlay_run clock ops ov1) h'))"
proof -
  let ?e = "reserved_entry clock ov h key request"
  have inv: "ov_inv ov" unfolding assms(2) by (intro overlay_run_inv new_overlay_inv [OF assms(1)])
  note r = overlay_reserve_props [OF inv, where clock = clock and h = h and key = key and request = request,
      folded assms(3)]
  have exp: "oe_expires_at ?e = clock (ov_reads ov) + ov_ttl ov" by (simp add: reserved_entry_def)
  have "entry (overlay_run clock ops ov1) (hb_job_id h) key = Some ?e"
    using assms(5) by (intro overlay_run_keeps [OF r(1,4) assms(4)]) (simp add: exp)
  moreover have "clock (ov_reads (overlay_run clock ops ov1)) < oe_expires_at ?e"
    using assms(5) overlay_run_reads [OF r(1)] by (simp add: exp)
  ultimately show ?thesis
    using overlay_records_props(4) [OF overlay_run_inv [OF r(1)], of clock ops "hb_job_id h" key ?e h' clock] assms(6,7)
    by (simp add: reserved_entry_def)
qed

definition example_request :: PlacementRequest where
  "example_request = \<lparr>qr_resources = ResourceQuantity 1 512 100, qr_capabilities = [], qr_image = ''img'',
     qr_spec = [], qr_residency = [], qr_excluded_job_ids = []\<rparr>"

theorem overlay_charges_until_settled_witness:
  "\<exists>ov0. new_overlay (\<lambda>_. 0) 60 = Inr ov0 \<and>
     new_reservation (incarnation_text (''s1'', 1, ''h'', ''op'')) ''n1'' ''j1'' ''http://n1/''
        (initial_charge example_worker example_request) ''img''
     \<in> set (fst (overlay_records (\<lambda>_. 0)
           (overlay_run (\<lambda>_. 0) [Ov_records example_worker]
              (overlay_reserve (\<lambda>_. 0) ov0 example_worker (''s1'', 1, ''h'', ''op'') example_request))
           example_worker))"
proof -
  obtain ov0 where o: "new_overlay (\<lambda>_. 0) 60 = Inr ov0" by (simp add: new_overlay_def)
  have ttl: "ov_ttl ov0 = 60" using o by (auto simp: new_overlay_def)
  have "list_all (op_keeps (hb_job_id example_worker) (''s1'', 1, ''h'', ''op'')
      (reserved_entry (\<lambda>_. 0) ov0 example_worker (''s1'', 1, ''h'', ''op'') example_request)) [Ov_records example_worker]"
    "\<not> settles example_worker (''s1'', 1, ''h'', ''op'')
      (reserved_entry (\<lambda>_. 0) ov0 example_worker (''s1'', 1, ''h'', ''op'') example_request)"
    by (simp_all add: settles_def example_worker_def new_heartbeat_def)
  note w = overlay_charges_until_settled [OF o, of ov0 "[]", OF _ refl this(1) _ refl this(2)]
  have "new_reservation (incarnation_text (''s1'', 1, ''h'', ''op'')) (hb_node_id example_worker)
        (hb_job_id example_worker) (str_or (hb_node_url example_worker) [])
        (initial_charge example_worker example_request) (qr_image example_request)
     \<in> set (fst (overlay_records (\<lambda>_. 0)
           (overlay_run (\<lambda>_. 0) [Ov_records example_worker]
              (overlay_reserve (\<lambda>_. 0) ov0 example_worker (''s1'', 1, ''h'', ''op'') example_request))
           example_worker))"
    by (rule w) (simp_all add: overlay_run_def ttl)
  with o show ?thesis
    by (simp add: example_worker_def new_heartbeat_def str_or_def example_request_def)
qed

theorem fit_count_exact_witness:
  "0 \<le> fit_count example_worker example_request [] 3 \<and> fit_count example_worker example_request [] 3 \<le> 3"
  using fit_count_exact [of 3 example_worker "[]" example_request]
  by (simp add: example_worker_def new_heartbeat_def no_fit_records_def)

end
