(* ===== verification/Placement_Guarantees.thy ===== *)
theory Placement_Guarantees
  imports Placement_Choice
begin

text \<open>
  What the power-of-k choice and the group packing of \<^verbatim>\<open>Placement_Choice\<close> guarantee. The
  documented contract of \<open>random.randrange(i, n)\<close> is \<open>rng_ok\<close>: a draw lies in its range.
  Guarantees about which workers a choice returns hold for a clock that does not move during
  that choice; packing is analysed for any clock.
\<close>

definition rng_ok :: "(nat \<Rightarrow> nat) \<Rightarrow> nat \<Rightarrow> bool" where
  "rng_ok draw n \<longleftrightarrow> (\<forall>i < n. i \<le> draw i \<and> draw i < n)"

section \<open>Scoring one worker does not disturb the others\<close>

definition agree :: "string set \<Rightarrow> InflightOverlay \<Rightarrow> InflightOverlay \<Rightarrow> bool" where
  "agree J ov ov' \<longleftrightarrow>
     (\<forall>j. j \<notin> J \<longrightarrow> dict_get (ov_by_job ov') j = dict_get (ov_by_job ov) j
                  \<and> dict_get (ov_settled ov') j = dict_get (ov_settled ov) j)"

lemma agree_refl [simp]: "agree J ov ov"
  by (simp add: agree_def)

lemma records_agree:
  assumes "agree J ov ov'" "hb_job_id h \<notin> J"
  shows "fst (overlay_records (\<lambda>_. t) ov' h) = fst (overlay_records (\<lambda>_. t) ov h)"
proof -
  have "settled_by ov' h = settled_by ov h" "dict_get (ov_by_job ov') (hb_job_id h) = dict_get (ov_by_job ov) (hb_job_id h)"
    using assms by (simp_all add: agree_def settled_by_def)
  then show ?thesis
    by (cases "settled_by ov h") (simp_all add: overlay_records_def read_clock_def Let_def split: option.split)
qed

lemma fst_score:
  "fst (score clock ch fleet request ov h) =
     (let own = fst (overlay_records clock ov h)
      in if hb_job_id h \<in> set (qr_excluded_job_ids request)
            \<or> \<not> list_all (has_capability (hb_capabilities h)) (qr_capabilities request)
            \<or> \<not> node_fits h (qr_resources request) (routes_for (fv_routes fleet) h @ map Reservation own)
         then None
         else
           let residency = (case dict_get (qr_residency request) (hb_node_id h) of None \<Rightarrow> 0 | Some x \<Rightarrow> x);
               residency = (if qr_image request \<noteq> [] \<and> list_ex (\<lambda>r. pv_image r = qr_image request) own
                            then max residency PENDING_RESIDENCY else residency);
               creates = hb_active_sandbox_creates h + pk_processes ch * int (length own)
           in Some (node_pressure_score h + of_int creates / of_int (pk_target ch)
                    - RESIDENCY_WEIGHT * min 1 (max 0 residency)))"
  by (simp add: score_def Let_def split_beta)

lemma score_agree:
  "agree J ov ov' \<Longrightarrow> hb_job_id h \<notin> J \<Longrightarrow>
     fst (score (\<lambda>_. t) ch fleet request ov' h) = fst (score (\<lambda>_. t) ch fleet request ov h)"
  unfolding fst_score by (subst records_agree [of J ov ov']) simp_all

lemma score_overlay:
  "agree J ov0 ov \<Longrightarrow> agree (insert (hb_job_id h) J) ov0 (snd (score clock ch fleet request ov h))"
  by (simp add: agree_def score_def Let_def split_beta overlay_records_other)

lemma score_SomeD:
  "fst (score clock ch fleet request ov h) = Some s \<Longrightarrow> hb_job_id h \<notin> set (qr_excluded_job_ids request)"
  by (simp add: fst_score Let_def split: if_splits)

section \<open>What the loops collect\<close>

type_synonym scorer = "NodeHeartbeat \<Rightarrow> rat option"

abbreviation drained :: "NodeHeartbeat \<Rightarrow> bool" where
  "drained h \<equiv> is_soft_drained (Some h)"

definition collect1 :: "scorer \<Rightarrow> bool \<Rightarrow> NodeHeartbeat \<Rightarrow> scored" where
  "collect1 f d h = (if f h \<noteq> None \<and> drained h = d then [(the (f h), h)] else [])"

definition collect :: "scorer \<Rightarrow> bool \<Rightarrow> NodeHeartbeat list \<Rightarrow> scored" where
  "collect f d hs = map (\<lambda>h. (the (f h), h)) (filter (\<lambda>h. f h \<noteq> None \<and> drained h = d) hs)"

lemma collect_simps [simp]:
  "collect f d [] = []"
  "collect f d (h # hs) = collect1 f d h @ collect f d hs"
  by (simp_all add: collect_def collect1_def)

lemma add_scored_collect:
  "add_scored h (f h) (p, d) = (p @ collect1 f False h, d @ collect1 f True h)"
  by (cases "f h") (auto simp: collect1_def)

lemma include_loop_collect:
  fixes ch fleet request ov0 t
  defines "f \<equiv> \<lambda>h. fst (score (\<lambda>_. t) ch fleet request ov0 h)"
  assumes "distinct (map hb_job_id hs)" "J \<inter> hb_job_id ` set hs = {}" "agree J ov0 ov"
  shows "\<exists>ov'. include_loop (\<lambda>_. t) ch fleet request inc hs ((p, d), ov)
      = ((p @ collect f False (filter (\<lambda>h. hb_job_id h \<in> set inc) hs),
          d @ collect f True (filter (\<lambda>h. hb_job_id h \<in> set inc) hs)), ov')
      \<and> agree (J \<union> hb_job_id ` set (filter (\<lambda>h. hb_job_id h \<in> set inc) hs)) ov0 ov'"
  using assms(2-4)
proof (induction hs arbitrary: J p d ov)
  case (Cons h hs)
  show ?case
  proof (cases "hb_job_id h \<in> set inc")
    case True
    obtain s ov1 where s: "score (\<lambda>_. t) ch fleet request ov h = (s, ov1)" by (cases "score (\<lambda>_. t) ch fleet request ov h")
    have sf: "s = f h" using score_agree [OF Cons.prems(3), of h t ch fleet request] Cons.prems(2) s by (simp add: f_def)
    have ag: "agree (insert (hb_job_id h) J) ov0 ov1"
      using score_overlay [OF Cons.prems(3), of h "\<lambda>_. t" ch fleet request] s by simp
    have "insert (hb_job_id h) J \<inter> hb_job_id ` set hs = {}" using Cons.prems(1,2) by auto
    from Cons.IH [OF _ this ag, of "p @ collect1 f False h" "d @ collect1 f True h"] Cons.prems(1) True show ?thesis
      by (simp add: s sf add_scored_collect)
  next
    case False
    with Cons.IH [of J ov p d] Cons.prems show ?thesis by simp
  qed
qed simp

lemma swap_at_props:
  assumes "i \<le> j" "j < length xs"
  shows "mset (swap_at i j xs) = mset xs" "length (swap_at i j xs) = length xs"
    "take i (swap_at i j xs) = take i xs"
  using assms by (simp_all add: swap_at_def mset_swap)

lemma sample_loop_collect:
  fixes ch fleet request ov0 t
  defines "f \<equiv> \<lambda>h. fst (score (\<lambda>_. t) ch fleet request ov0 h)"
  assumes "rng_ok draw (length nodes)" "distinct (map hb_job_id nodes)" "i \<le> length nodes"
    "J \<inter> hb_job_id ` set (drop i nodes) = {}" "agree J ov0 ov"
  shows "\<exists>nodes' m ov'. mset nodes' = mset nodes \<and> take i nodes' = take i nodes \<and> i \<le> m \<and> m \<le> length nodes
      \<and> sample_loop (\<lambda>_. t) draw ch fleet request limit [i..<length nodes] nodes ((p, d), ov)
        = ((p @ collect f False (drop i (take m nodes')), d @ collect f True (drop i (take m nodes'))), ov')
      \<and> (m = length nodes \<or> length (p @ collect f False (drop i (take m nodes'))) = limit)
      \<and> (length p \<le> limit \<longrightarrow> length (p @ collect f False (drop i (take m nodes'))) \<le> limit)"
  using assms(2-)
proof (induction "length nodes - i" arbitrary: i nodes J p d ov)
  case 0
  then show ?case by (intro exI [of _ nodes] exI [of _ i] exI [of _ ov]) simp
next
  case (Suc x)
  then have i: "i < length nodes" by simp
  show ?case
  proof (cases "length p = limit")
    case True
    with i show ?thesis
      by (intro exI [of _ nodes] exI [of _ i] exI [of _ ov]) (simp add: upt_rec [of i])
  next
    case False
    let ?n = "swap_at i (draw i) nodes"
    have dr: "i \<le> draw i" "draw i < length nodes" using Suc.prems(1) i by (auto simp: rng_ok_def)
    note sw = swap_at_props [OF dr]
    let ?h = "?n ! i"
    have split: "drop i ?n = ?h # drop (Suc i) ?n" using i by (simp add: Cons_nth_drop_Suc sw(2))
    have "mset (take i ?n) + mset (drop i ?n) = mset (take i nodes) + mset (drop i nodes)"
      using sw(1) by (metis append_take_drop_id mset_append)
    then have "mset (drop i ?n) = mset (drop i nodes)" using sw(3) by simp
    then have sd: "set (drop i ?n) = set (drop i nodes)" by (metis set_mset_mset)
    have "mset (map hb_job_id ?n) = mset (map hb_job_id nodes)" using sw(1) by simp
    then have dist: "distinct (map hb_job_id ?n)" using Suc.prems(2) by (metis mset_eq_imp_distinct_iff)
    obtain s ov1 where s: "score (\<lambda>_. t) ch fleet request ov ?h = (s, ov1)"
      by (cases "score (\<lambda>_. t) ch fleet request ov ?h")
    have notJ: "hb_job_id ?h \<notin> J" using Suc.prems(4) sd split by (metis disjoint_iff imageI list.set_intros(1))
    have sf: "s = f ?h" using score_agree [OF Suc.prems(5) notJ, of t ch fleet request] s by (simp add: f_def)
    have ag: "agree (insert (hb_job_id ?h) J) ov0 ov1"
      using score_overlay [OF Suc.prems(5), of ?h "\<lambda>_. t" ch fleet request] s by simp
    have "distinct (map hb_job_id (drop i ?n))" using dist by (metis distinct_drop drop_map)
    then have "insert (hb_job_id ?h) J \<inter> hb_job_id ` set (drop (Suc i) ?n) = {}"
      using Suc.prems(4) sd split by auto
    note dis = this
    have pre: "x = length ?n - Suc i" "rng_ok draw (length ?n)" "Suc i \<le> length ?n"
      using Suc.hyps(2) Suc.prems(1) i by (simp_all add: sw(2))
    let ?p = "p @ collect1 f False ?h" and ?d = "d @ collect1 f True ?h"
    obtain nodes' m ov' where IH: "mset nodes' = mset ?n" "take (Suc i) nodes' = take (Suc i) ?n" "Suc i \<le> m" "m \<le> length nodes"
      "sample_loop (\<lambda>_. t) draw ch fleet request limit [Suc i..<length nodes] ?n ((?p, ?d), ov1)
        = ((?p @ collect f False (drop (Suc i) (take m nodes')), ?d @ collect f True (drop (Suc i) (take m nodes'))), ov')"
      "m = length nodes \<or> length (?p @ collect f False (drop (Suc i) (take m nodes'))) = limit"
      "length ?p \<le> limit \<longrightarrow> length (?p @ collect f False (drop (Suc i) (take m nodes'))) \<le> limit"
      using Suc.hyps(1) [OF pre(1,2) dist pre(3) dis ag, of ?p ?d] unfolding sw(2) by blast
    have len: "length nodes' = length nodes" using IH(1) sw(2) by (metis size_mset)
    have "nodes' ! i = ?h" using IH(2) i sw(2) by (metis lessI nth_take)
    then have dt: "drop i (take m nodes') = ?h # drop (Suc i) (take m nodes')"
      using IH(3) i len by (metis Cons_nth_drop_Suc IH(4) Suc_le_lessD length_take min.absorb2 nth_take)
    have "take i (take (Suc i) nodes') = take i (take (Suc i) ?n)" by (simp only: IH(2))
    then have "take i nodes' = take i nodes" by (simp add: sw(3))
    moreover have "length (collect1 f False ?h) \<le> 1" by (simp add: collect1_def)
    ultimately show ?thesis
      using IH False i sw(1)
      by (intro exI [of _ nodes'] exI [of _ m] exI [of _ ov'])
        (simp add: dt upt_rec [of i] Let_def s sf add_scored_collect)
  qed
qed

section \<open>The choice\<close>

lemma include_loop_Nil [simp]: "include_loop clock ch fleet request [] hs st = st"
  by (induction hs) (cases st; simp)+

definition choice_score :: "rat \<Rightarrow> PowerOfKChooser \<Rightarrow> FleetView \<Rightarrow> PlacementRequest \<Rightarrow> InflightOverlay \<Rightarrow> scorer" where
  "choice_score t ch fleet request ov h = fst (score (\<lambda>_. t) ch fleet request ov h)"

definition eligible :: "rat \<Rightarrow> PowerOfKChooser \<Rightarrow> FleetView \<Rightarrow> PlacementRequest \<Rightarrow> InflightOverlay
    \<Rightarrow> NodeHeartbeat list" where
  "eligible t ch fleet request ov =
     filter (\<lambda>h. choice_score t ch fleet request ov h \<noteq> None) (fv_nodes fleet)"

lemma choose_workers_shape:
  assumes "rng_ok draw (length (fv_nodes fleet))" "distinct (map hb_job_id (fv_nodes fleet))"
  obtains ns where "distinct ns" "set ns \<subseteq> set (fv_nodes fleet)"
    "length (collect (choice_score t ch fleet request ov) False ns) \<le> pk_k ch"
    "mset ns = mset (fv_nodes fleet) \<or> length (collect (choice_score t ch fleet request ov) False ns) = pk_k ch"
    "fst (choose_workers (\<lambda>_. t) draw ch fleet request [] ov)
       = map snd (sort_key fst (collect (choice_score t ch fleet request ov) False ns)
           @ take (pk_k ch - length (collect (choice_score t ch fleet request ov) False ns))
               (sort_key fst (collect (choice_score t ch fleet request ov) True ns)))"
proof -
  let ?f = "choice_score t ch fleet request ov" and ?N = "fv_nodes fleet"
  have f: "(\<lambda>h. fst (score (\<lambda>_. t) ch fleet request ov h)) = ?f" by (simp add: choice_score_def fun_eq_iff)
  from sample_loop_collect [of draw ?N 0 "{}" ov ov t ch fleet request "pk_k ch" "[]" "[]", unfolded f] assms
  obtain nodes' m ov' where s: "mset nodes' = mset ?N" "m \<le> length ?N"
    "sample_loop (\<lambda>_. t) draw ch fleet request (pk_k ch) [0..<length ?N] ?N (([], []), ov)
       = ((collect ?f False (take m nodes'), collect ?f True (take m nodes')), ov')"
    "m = length ?N \<or> length (collect ?f False (take m nodes')) = pk_k ch"
    "length (collect ?f False (take m nodes')) \<le> pk_k ch"
    by auto
  have "distinct ?N" using assms(2) by (simp add: distinct_map)
  then have d: "distinct nodes'" using s(1) by (metis mset_eq_imp_distinct_iff)
  have len: "length nodes' = length ?N" using s(1) by (metis size_mset)
  show thesis
  proof (rule that [of "take m nodes'"])
    show "distinct (take m nodes')" using d by simp
    show "set (take m nodes') \<subseteq> set ?N" using s(1) set_take_subset [of m nodes'] by (metis set_mset_mset)
    show "mset (take m nodes') = mset ?N \<or> length (collect ?f False (take m nodes')) = pk_k ch"
      using s(1,4) len by auto
    show "fst (choose_workers (\<lambda>_. t) draw ch fleet request [] ov)
       = map snd (sort_key fst (collect ?f False (take m nodes'))
           @ take (pk_k ch - length (collect ?f False (take m nodes')))
               (sort_key fst (collect ?f True (take m nodes'))))"
      using s(3,5) by (simp add: choose_workers_def py_prefix_def nat_diff_distrib)
  qed (rule s(5))
qed

lemma collect_facts:
  assumes "distinct ns"
  shows "distinct (map snd (sort_key fst (collect f d ns)))"
    and "x \<in> set (collect f d ns) \<longleftrightarrow> snd x \<in> set ns \<and> f (snd x) = Some (fst x) \<and> drained (snd x) = d"
    and "sorted (map (\<lambda>h. the (f h)) (map snd (sort_key fst (collect f d ns))))"
proof -
  have "mset (map snd (sort_key fst (collect f d ns))) = mset (map snd (collect f d ns))"
    by (simp only: mset_map mset_sort)
  moreover have "map snd (collect f d ns) = filter (\<lambda>h. f h \<noteq> None \<and> drained h = d) ns"
    by (simp add: collect_def comp_def)
  ultimately show "distinct (map snd (sort_key fst (collect f d ns)))"
    using assms by (metis distinct_filter mset_eq_imp_distinct_iff)
  show x: "x \<in> set (collect f d ns) \<longleftrightarrow> snd x \<in> set ns \<and> f (snd x) = Some (fst x) \<and> drained (snd x) = d" for x
    by (cases x) (force simp: collect_def image_iff)
  have "map (\<lambda>h. the (f h)) (map snd (sort_key fst (collect f d ns))) = map fst (sort_key fst (collect f d ns))"
    by (simp add: x)
  then show "sorted (map (\<lambda>h. the (f h)) (map snd (sort_key fst (collect f d ns))))" by (simp only: sorted_sort_key)
qed

lemma length_collect:
  "length (collect f False ns) + length (collect f True ns) = length (filter (\<lambda>h. f h \<noteq> None) ns)"
  by (induction ns) (auto simp: collect1_def)


definition example_fleet :: FleetView where
  "example_fleet = \<lparr>fv_nodes = [example_worker, example_worker\<lparr>hb_identity := 1, hb_job_id := ''j2''\<rparr>],
     fv_routes = placement_route_index []\<rparr>"

definition example_chooser :: PowerOfKChooser where
  "example_chooser = \<lparr>pk_k = 1, pk_target = 8, pk_processes = 1\<rparr>"

definition example_overlay :: InflightOverlay where
  "example_overlay = \<lparr>ov_ttl = 60, ov_by_job = [], ov_settled = [], ov_next_sweep = 60, ov_reads = 1\<rparr>"


section \<open>Packing a group\<close>

text \<open>Whatever the clock does, a worker enters the ranking only if it is in the view and not excluded.\<close>

definition admissible :: "FleetView \<Rightarrow> PlacementRequest \<Rightarrow> scored \<Rightarrow> bool" where
  "admissible fleet request xs \<longleftrightarrow>
     (\<forall>h \<in> snd ` set xs. h \<in> set (fv_nodes fleet) \<and> hb_job_id h \<notin> set (qr_excluded_job_ids request))"

lemma add_scored_admissible:
  assumes "admissible fleet request (fst ls)" "admissible fleet request (snd ls)" "h \<in> set (fv_nodes fleet)"
    "score clock ch fleet request ov h = (s, ov')"
  shows "admissible fleet request (fst (add_scored h s ls)) \<and> admissible fleet request (snd (add_scored h s ls))"
  using assms score_SomeD [of clock ch fleet request ov h]
  by (cases s; cases ls) (auto simp: admissible_def)

lemma include_loop_admissible:
  assumes "admissible fleet request (fst ls)" "admissible fleet request (snd ls)" "set hs \<subseteq> set (fv_nodes fleet)"
  shows "admissible fleet request (fst (fst (include_loop clock ch fleet request inc hs (ls, ov))))
    \<and> admissible fleet request (snd (fst (include_loop clock ch fleet request inc hs (ls, ov))))"
  using assms
proof (induction hs arbitrary: ls ov)
  case (Cons h hs)
  obtain s ov' where s: "score clock ch fleet request ov h = (s, ov')" by (cases "score clock ch fleet request ov h")
  from add_scored_admissible [OF Cons.prems(1,2) _ s] Cons show ?case by (simp add: s)
qed simp

lemma sample_loop_admissible:
  assumes "admissible fleet request (fst ls)" "admissible fleet request (snd ls)" "set nodes \<subseteq> set (fv_nodes fleet)"
    "rng_ok draw (length nodes)" "set is \<subseteq> {..<length nodes}"
  shows "admissible fleet request (fst (fst (sample_loop clock draw ch fleet request limit is nodes (ls, ov))))
    \<and> admissible fleet request (snd (fst (sample_loop clock draw ch fleet request limit is nodes (ls, ov))))"
  using assms
proof (induction "is" arbitrary: ls ov nodes)
  case (Cons i "is")
  let ?n = "swap_at i (draw i) nodes"
  have dr: "i \<le> draw i" "draw i < length nodes" using Cons.prems(4,5) by (auto simp: rng_ok_def)
  note sw = swap_at_props [OF dr]
  have sub: "set ?n \<subseteq> set (fv_nodes fleet)" using sw(1) Cons.prems(3) by (metis set_mset_mset)
  have "?n ! i \<in> set ?n" using dr sw(2) by simp
  then have h: "?n ! i \<in> set (fv_nodes fleet)" using sub by blast
  obtain s ov' where s: "score clock ch fleet request ov (?n ! i) = (s, ov')"
    by (cases "score clock ch fleet request ov (?n ! i)")
  from add_scored_admissible [OF Cons.prems(1,2) h s]
  have "admissible fleet request (fst (add_scored (?n ! i) s ls))" "admissible fleet request (snd (add_scored (?n ! i) s ls))"
    by simp_all
  note ih = Cons.IH [OF this sub]
  show ?case using ih Cons.prems sw(2) by (simp add: Let_def s)
qed simp

lemma choose_workers_admissible:
  assumes "rng_ok draw (length (filter (\<lambda>h. hb_job_id h \<notin> set inc) (fv_nodes fleet)))"
    "h \<in> set (fst (choose_workers clock draw ch fleet request inc ov))"
  shows "h \<in> set (fv_nodes fleet)" "hb_job_id h \<notin> set (qr_excluded_job_ids request)"
proof -
  let ?N = "filter (\<lambda>h. hb_job_id h \<notin> set inc) (fv_nodes fleet)"
  obtain ls ov1 where a: "include_loop clock ch fleet request inc (fv_nodes fleet) (([], []), ov) = (ls, ov1)"
    by (cases "include_loop clock ch fleet request inc (fv_nodes fleet) (([], []), ov)")
  have A: "admissible fleet request (fst ls)" "admissible fleet request (snd ls)"
    using include_loop_admissible [of fleet request "([], [])" "fv_nodes fleet" clock ch inc ov] a
    by (simp_all add: admissible_def)
  obtain p d ov2 where b: "sample_loop clock draw ch fleet request (pk_k ch + length (fst ls)) [0..<length ?N] ?N (ls, ov1)
      = ((p, d), ov2)" by (metis prod.exhaust)
  have B: "admissible fleet request p" "admissible fleet request d"
    using sample_loop_admissible [OF A, of ?N draw "[0..<length ?N]" clock ch "pk_k ch + length (fst ls)" ov1] assms(1) b
    by (auto simp: atLeast0LessThan)
  have "fst (choose_workers clock draw ch fleet request inc ov)
      = map snd (sort_key fst p @ py_prefix (int (pk_k ch) - int (length p)) (sort_key fst d))"
    using a b by (cases ls) (simp add: choose_workers_def Let_def)
  with assms(2) set_py_prefix [of _ "sort_key fst d"] have "h \<in> snd ` (set p \<union> set d)" by fastforce
  with B show "h \<in> set (fv_nodes fleet)" "hb_job_id h \<notin> set (qr_excluded_job_ids request)"
    by (auto simp: admissible_def)
qed

lemma fit_count_bounds:
  "0 < limit \<Longrightarrow> 0 \<le> fit_count h request recs limit \<and> fit_count h request recs limit \<le> limit"
  using fit_loop_spec [of 0 h "qr_resources request" "initial_charge h request" recs "nat limit"]
  by (auto simp: fit_count_def le_nat_iff)

abbreviation slice_job :: "GroupSlice \<Rightarrow> string" where
  "slice_job s \<equiv> hb_job_id (gs_heartbeat s)"

definition slices_ok :: "FleetView \<Rightarrow> string list \<Rightarrow> int \<Rightarrow> int \<Rightarrow> GroupSlice list \<Rightarrow> bool" where
  "slices_ok fleet excluded budget wanted slices \<longleftrightarrow>
     distinct (map slice_job slices) \<and> slice_job ` set slices \<inter> set excluded = {}
     \<and> (\<forall>s \<in> set slices. gs_heartbeat s \<in> set (fv_nodes fleet) \<and> 1 \<le> gs_count s \<and> gs_count s \<le> budget)
     \<and> sum_list (map gs_count slices) \<le> max 0 wanted"

lemma slices_ok_Cons:
  assumes "slices_ok fleet (hb_job_id h # excluded) budget (wanted - placed) slices"
    "h \<in> set (fv_nodes fleet)" "hb_job_id h \<notin> set excluded" "0 < placed" "placed \<le> budget" "placed \<le> wanted"
  shows "slices_ok fleet excluded budget wanted (\<lparr>gs_heartbeat = h, gs_count = placed\<rparr> # slices)"
  using assms by (auto simp: slices_ok_def max_def split: if_splits)

lemma slices_ok_skip:
  "slices_ok fleet (j # excluded) budget wanted slices \<Longrightarrow> slices_ok fleet excluded budget wanted slices"
  by (auto simp: slices_ok_def)

lemma pack_loop_spec:
  assumes "\<forall>n. rng_ok (draws n) (length (filter (\<lambda>h. hb_job_id h \<notin> set inc) (fv_nodes fleet)))"
    "1 \<le> budget" "card (hb_job_id ` set (fv_nodes fleet) - set excluded) < fuel"
  shows "\<exists>new ov'. pack_loop clock draws ch fleet request inc budget fuel n wanted excluded ov slices
      = Some (slices @ new, ov') \<and> slices_ok fleet excluded budget wanted new"
  using assms(3)
proof (induction fuel arbitrary: n wanted excluded ov slices)
  case (Suc fuel)
  let ?r = "request\<lparr>qr_excluded_job_ids := excluded\<rparr>"
  obtain ranked ov1 where c: "choose_workers clock (draws n) ch fleet ?r inc ov = (ranked, ov1)"
    by (cases "choose_workers clock (draws n) ch fleet ?r inc ov")
  show ?case
  proof (cases "wanted \<le> 0 \<or> ranked = []")
    case True
    with c show ?thesis by (auto simp: slices_ok_def)
  next
    case False
    then obtain h rest where r: "ranked = h # rest" and w: "0 < wanted" by (cases ranked) auto
    have h: "h \<in> set (fv_nodes fleet)" "hb_job_id h \<notin> set excluded"
      using choose_workers_admissible [of "draws n" inc fleet h clock ch ?r ov] assms(1) c r by auto
    obtain own ov2 where o: "overlay_records clock ov1 h = (own, ov2)" by (cases "overlay_records clock ov1 h")
    define placed where "placed =
      fit_count h request (routes_for (fv_routes fleet) h @ map Reservation own) (min budget wanted)"
    have p: "0 \<le> placed" "placed \<le> budget" "placed \<le> wanted"
      using fit_count_bounds [of "min budget wanted" h request] assms(2) w by (auto simp: placed_def)
    have "hb_job_id ` set (fv_nodes fleet) - set (hb_job_id h # excluded)
        \<subset> hb_job_id ` set (fv_nodes fleet) - set excluded" using h by auto
    from psubset_card_mono [OF _ this] Suc.prems
    have "card (hb_job_id ` set (fv_nodes fleet) - set (hb_job_id h # excluded)) < fuel" by simp
    from Suc.IH [OF this, of "Suc n" "wanted - placed" ov2
        "if placed \<noteq> 0 then slices @ [\<lparr>gs_heartbeat = h, gs_count = placed\<rparr>] else slices"]
    obtain new ov' where IH: "pack_loop clock draws ch fleet request inc budget fuel (Suc n) (wanted - placed)
         (hb_job_id h # excluded) ov2 (if placed \<noteq> 0 then slices @ [\<lparr>gs_heartbeat = h, gs_count = placed\<rparr>] else slices)
       = Some ((if placed \<noteq> 0 then slices @ [\<lparr>gs_heartbeat = h, gs_count = placed\<rparr>] else slices) @ new, ov')"
      "slices_ok fleet (hb_job_id h # excluded) budget (wanted - placed) new" by blast
    have step: "pack_loop clock draws ch fleet request inc budget (Suc fuel) n wanted excluded ov slices
        = Some ((if placed \<noteq> 0 then slices @ [\<lparr>gs_heartbeat = h, gs_count = placed\<rparr>] else slices) @ new, ov')"
      using w c r o IH(1) by (simp add: placed_def [symmetric] Let_def split: if_splits)
    show ?thesis
    proof (cases "placed = 0")
      case True
      then show ?thesis unfolding step using IH(2) by (auto intro: slices_ok_skip)
    next
      case False
      then show ?thesis unfolding step using slices_ok_Cons [OF IH(2) h] p by auto
    qed
  qed
qed simp

text \<open>C25. Packing a group always ends, and what it plans is sound: at most one slice per worker of the
  view, none on an excluded worker, every slice between one create and the per-worker budget, and
  in total no more than the group asked for. A budget below one is refused.\<close>

theorem pack_sound:
  assumes "\<forall>n. rng_ok (draws n) (length (filter (\<lambda>h. hb_job_id h \<notin> set inc) (fv_nodes fleet)))"
  shows "(budget < 1 \<longrightarrow> pack clock draws ch fleet request wanted budget inc ov = Inl BudgetNotPositive)
    \<and> (1 \<le> budget \<longrightarrow> (\<exists>slices ov'.
        pack clock draws ch fleet request wanted budget inc ov = Inr (Some (slices, ov'))
        \<and> slices_ok fleet (qr_excluded_job_ids request) budget wanted slices))"
proof (intro conjI impI)
  assume b: "1 \<le> budget"
  have "card (hb_job_id ` set (fv_nodes fleet) - set (qr_excluded_job_ids request)) \<le> length (fv_nodes fleet)"
    by (meson Diff_subset card_image_le card_length card_mono finite_imageI finite_set order_trans)
  then have "card (hb_job_id ` set (fv_nodes fleet) - set (qr_excluded_job_ids request))
      < Suc (length (fv_nodes fleet))" by simp
  from pack_loop_spec [OF assms b this, of clock ch request 0 wanted ov "[]"] b
  show "\<exists>slices ov'. pack clock draws ch fleet request wanted budget inc ov = Inr (Some (slices, ov'))
      \<and> slices_ok fleet (qr_excluded_job_ids request) budget wanted slices"
    by (simp add: pack_def)
qed (simp add: pack_def)

theorem pack_sound_witness:
  "\<exists>slices ov'. pack (\<lambda>_. 0) (\<lambda>_ i. i) example_chooser example_fleet example_request 5 2 [] example_overlay
       = Inr (Some (slices, ov')) \<and> slices_ok example_fleet [] 2 5 slices"
  using pack_sound [of "\<lambda>_ i. i" "[]" example_fleet 2 "\<lambda>_. 0" example_chooser example_request 5 example_overlay]
  by (simp add: rng_ok_def example_request_def)

end
