(* ===== verification/Consolidation.thy ===== *)
theory Consolidation
  imports Placement_Accounting
begin

text \<open>
  \<open>src/ucloud_sandboxes/consolidation.py\<close>: when a parked sandbox that wakes may be moved to
  another worker. \<open>parse\<close> stands for \<open>parse_iso_datetime\<close>. Ages are whole seconds, as the
  policy's are.
\<close>

definition consolidation_rank :: "NodeHeartbeat \<Rightarrow> nat \<times> string \<times> string" where
  "consolidation_rank h = (length (hb_job_id h), hb_job_id h, hb_node_id h)"

definition age_within :: "datetime \<Rightarrow> datetime \<Rightarrow> int \<Rightarrow> bool" where
  "age_within now t max_age \<longleftrightarrow>
     0 \<le> total_seconds (now - t) \<and> total_seconds (now - t) \<le> of_int max_age"

text \<open>The first matching inventory entry with a recent sample, in MiB rounded up.\<close>

definition entry_memory_mb ::
  "(string \<Rightarrow> datetime option) \<Rightarrow> SandboxRoute \<Rightarrow> datetime \<Rightarrow> int \<Rightarrow> SandboxInventoryEntry \<Rightarrow> int option" where
  "entry_memory_mb parse r now max_age e =
     (if inv_sandbox_id e \<noteq> rt_sandbox_id r \<or> inv_generation e \<noteq> rt_generation r
         \<or> inv_spec_hash e \<noteq> rt_spec_hash r
      then None
      else case inv_memory_observation e of
             None \<Rightarrow> None
           | Some sample \<Rightarrow>
               (case parse (sampled_at sample) of
                  None \<Rightarrow> None
                | Some t \<Rightarrow>
                    if age_within now t max_age
                    then Some ((memory_bytes sample + 1024 ^ 2 - 1) div 1024 ^ 2) else None))"

fun first_some :: "('a \<Rightarrow> 'b option) \<Rightarrow> 'a list \<Rightarrow> 'b option" where
  "first_some f [] = None"
| "first_some f (x # xs) = (case f x of Some y \<Rightarrow> Some y | None \<Rightarrow> first_some f xs)"

definition observed_memory_mb ::
  "(string \<Rightarrow> datetime option) \<Rightarrow> SandboxRoute \<Rightarrow> NodeHeartbeat list \<Rightarrow> datetime \<Rightarrow> int \<Rightarrow> int option" where
  "observed_memory_mb parse r heartbeats now max_age =
     first_some (\<lambda>h.
       if hb_job_id h \<noteq> rt_job_id r \<or> hb_node_id h \<noteq> rt_node_id r
          \<or> rt_node_epoch r \<noteq> [] \<and> hb_node_epoch h \<noteq> rt_node_epoch r
          \<or> \<not> hb_is_fresh h now max_age
       then None
       else first_some (entry_memory_mb parse r now max_age) (hb_inventory h)) heartbeats"

text \<open>The evidence both ends must have: complete, fresh, open, and free of storage trouble.\<close>

definition consolidation_evidence :: "NodeHeartbeat \<Rightarrow> ScalePolicy \<Rightarrow> datetime \<Rightarrow> bool" where
  "consolidation_evidence h policy now =
     (case hb_runtime_metrics h of
        None \<Rightarrow> False
      | Some m \<Rightarrow>
          hb_inventory_complete h \<and> hb_resources_known h \<and> \<not> hb_draining h \<and> hb_admission_open h
          \<and> hb_is_fresh h now (live_pressure_fresh_seconds policy)
          \<and> age_within now (collected_at m) (live_pressure_fresh_seconds policy)
          \<and> cpu_percent m \<noteq> None \<and> 0 < memory_total_mb m \<and> storage_error_volumes m \<le> 0
          \<and> storage_waiting_operations m \<le> 0 \<and> hb_active_sandbox_creates h \<le> 0)"

definition stalls_more :: "rat option \<Rightarrow> rat option \<Rightarrow> bool" where
  "stalls_more source destination \<longleftrightarrow>
     (case (source, destination) of (Some s, Some d) \<Rightarrow> s < d | _ \<Rightarrow> False)"

definition consolidation_used_memory :: "NodeRuntimeMetrics \<Rightarrow> int" where
  "consolidation_used_memory m =
     max (memory_used_mb m)
       (max (memory_total_mb m - memory_available_mb m) (memory_working_set_mb m))"

definition can_consolidate_wake ::
  "NodeHeartbeat \<Rightarrow> NodeHeartbeat \<Rightarrow> ResourceQuantity \<Rightarrow> ScalePolicy \<Rightarrow> datetime \<Rightarrow> int option \<Rightarrow> bool" where
  "can_consolidate_wake source destination requested policy now observed =
     (if \<not> parked_wake_consolidation_enabled policy then False
      else if consolidation_rank source \<le> consolidation_rank destination then False
      else if hb_active_sandboxes destination < max 1 (hb_active_sandboxes source) then False
      else if \<not> consolidation_evidence source policy now
              \<or> \<not> consolidation_evidence destination policy now then False
      else
        case (hb_runtime_metrics source, hb_runtime_metrics destination) of
          (Some src, Some dst) \<Rightarrow>
            (let src_cpu = (case cpu_percent src of None \<Rightarrow> 0 | Some c \<Rightarrow> c);
                 dst_cpu = (case cpu_percent dst of None \<Rightarrow> 0 | Some c \<Rightarrow> c)
             in if stalls_more (io_psi_some_avg10 src) (io_psi_some_avg10 dst)
                   \<or> stalls_more (io_psi_full_avg10 src) (io_psi_full_avg10 dst)
                   \<or> stalls_more (memory_psi_some_avg10 src) (memory_psi_some_avg10 dst) then False
                else if target_cpu_utilization policy / 2 < src_cpu / 100 then False
                else if vcpu (hb_total_resources destination) \<le> 0 then False
                else if target_cpu_utilization policy
                          < dst_cpu / 100 + vcpu requested / vcpu (hb_total_resources destination)
                then False
                else if target_memory_utilization policy
                          < of_int (consolidation_used_memory dst
                              + max (memory_mb requested) (case observed of None \<Rightarrow> 0 | Some v \<Rightarrow> v))
                            / of_int (memory_total_mb dst) then False
                else if (case memory_psi_full_avg10 dst of
                           None \<Rightarrow> True | Some p \<Rightarrow> max_memory_psi_full_avg10 policy \<le> p) then False
                else if (case io_psi_full_avg10 dst of
                           None \<Rightarrow> False | Some p \<Rightarrow> max_io_psi_full_avg10 policy \<le> p) then False
                else \<not> (storage_max_concurrent_operations dst \<le> 0
                        \<or> target_storage_queue_utilization policy
                            \<le> of_int (storage_active_operations dst)
                              / of_int (storage_max_concurrent_operations dst)))
        | _ \<Rightarrow> False)"

section \<open>Properties\<close>

lemma can_consolidate_rank:
  "can_consolidate_wake s d q policy now observed \<Longrightarrow> consolidation_rank d < consolidation_rank s"
  by (simp add: can_consolidate_wake_def not_le split: if_splits)

text \<open>A worker is named by its job and node id; everything else a heartbeat carries changes while
  a sandbox lives on it. \<open>wake_path w ws\<close>: a sandbox on worker \<open>w\<close> is moved to the workers \<open>ws\<close> one
  after the other at its wakes. Each hop is decided on the heartbeats its two workers sent at that
  time, with its own policy, request, clock and observation, so that the heartbeat with which a
  worker is left says nothing about the one it was entered with.\<close>

definition worker :: "NodeHeartbeat \<Rightarrow> string \<times> string" where
  "worker h = (hb_job_id h, hb_node_id h)"

inductive wake_path :: "string \<times> string \<Rightarrow> (string \<times> string) list \<Rightarrow> bool" where
  wake_stay: "wake_path w []"
| wake_move: "can_consolidate_wake s d q policy now observed \<Longrightarrow> worker s = w \<Longrightarrow>
     wake_path (worker d) ws \<Longrightarrow> wake_path w (worker d # ws)"

text \<open>The order of the workers that the ranks follow: no heartbeat is in it.\<close>

fun worker_rank :: "string \<times> string \<Rightarrow> nat \<times> string \<times> string" where
  "worker_rank (job, node) = (length job, job, node)"

lemma consolidation_rank_worker: "consolidation_rank h = worker_rank (worker h)"
  by (simp add: consolidation_rank_def worker_def)

lemma wake_path_rank: "wake_path w ws \<Longrightarrow> v \<in> set ws \<Longrightarrow> worker_rank v < worker_rank w"
  by (induction rule: wake_path.induct)
    (auto dest!: can_consolidate_rank simp: consolidation_rank_worker intro: less_trans)

text \<open>C9. Consolidation is monotonic, although the load that justifies each move changes: however
  often a sandbox is moved at its wakes, and whatever the workers on its way report in between, it
  never returns to a worker it left, so packing cannot ping-pong, and in a fleet of \<open>n\<close> workers it is
  moved less than \<open>n\<close> times.\<close>

theorem consolidation_never_returns:
  assumes "wake_path w ws"
  shows "distinct (w # ws) \<and> (finite fleet \<longrightarrow> set (w # ws) \<subseteq> fleet \<longrightarrow> length ws < card fleet)"
proof -
  have d: "distinct (w # ws)"
    using assms
  proof (induction rule: wake_path.induct)
    case (wake_move s d q policy now observed w ws)
    have "wake_path w (worker d # ws)" by (rule wake_path.wake_move [OF wake_move.hyps])
    then have "w \<notin> set (worker d # ws)" by (auto dest: wake_path_rank)
    with wake_move.IH show ?case by simp
  qed simp
  then show ?thesis using distinct_card [OF d] card_mono [of fleet "set (w # ws)"] by fastforce
qed

text \<open>A move is conservative: with the whole waking shape charged, the destination stays within
  the policy's CPU and memory targets, it reports no memory stall at the limit, it stalls no more
  than the source on every signal both report, and it is at least as occupied as the source.\<close>

theorem consolidation_keeps_headroom:
  assumes "can_consolidate_wake s d q policy now observed"
  shows "\<exists>ms md cpu. hb_runtime_metrics s = Some ms \<and> hb_runtime_metrics d = Some md
    \<and> cpu_percent md = Some cpu
    \<and> cpu / 100 + vcpu q / vcpu (hb_total_resources d) \<le> target_cpu_utilization policy
    \<and> of_int (consolidation_used_memory md + memory_mb q)
        \<le> target_memory_utilization policy * of_int (memory_total_mb md)
    \<and> (\<exists>p. memory_psi_full_avg10 md = Some p \<and> p < max_memory_psi_full_avg10 policy)
    \<and> \<not> stalls_more (io_psi_full_avg10 ms) (io_psi_full_avg10 md)
    \<and> hb_active_sandboxes s \<le> hb_active_sandboxes d \<and> 1 \<le> hb_active_sandboxes d
    \<and> hb_admission_open d \<and> \<not> hb_draining d"
proof -
  obtain ms md where m: "hb_runtime_metrics s = Some ms" "hb_runtime_metrics d = Some md"
    using assms by (auto simp: can_consolidate_wake_def split: if_splits option.splits)
  have ev: "consolidation_evidence s policy now" "consolidation_evidence d policy now"
    using assms by (auto simp: can_consolidate_wake_def split: if_splits)
  obtain cpu where cpu: "cpu_percent md = Some cpu" and total: "0 < memory_total_mb md"
    and opened: "hb_admission_open d" "\<not> hb_draining d"
    using ev(2) m(2) by (auto simp: consolidation_evidence_def)
  have mem: "of_int (consolidation_used_memory md
        + max (memory_mb q) (case observed of None \<Rightarrow> 0 | Some v \<Rightarrow> v)) / of_int (memory_total_mb md)
      \<le> target_memory_utilization policy"
    and rest: "cpu / 100 + vcpu q / vcpu (hb_total_resources d) \<le> target_cpu_utilization policy"
      "\<exists>p. memory_psi_full_avg10 md = Some p \<and> p < max_memory_psi_full_avg10 policy"
      "\<not> stalls_more (io_psi_full_avg10 ms) (io_psi_full_avg10 md)"
      "hb_active_sandboxes s \<le> hb_active_sandboxes d" "1 \<le> hb_active_sandboxes d"
    using assms m cpu
    by (auto simp: can_consolidate_wake_def Let_def not_less not_le split: if_splits option.splits)
  have "of_int (consolidation_used_memory md + memory_mb q)
      \<le> (of_int (consolidation_used_memory md
        + max (memory_mb q) (case observed of None \<Rightarrow> 0 | Some v \<Rightarrow> v)) :: rat)"
    by (simp only: of_int_le_iff)
  also have "\<dots> \<le> target_memory_utilization policy * of_int (memory_total_mb md)"
    using mem total by (simp add: pos_divide_le_eq)
  finally show ?thesis using m cpu opened rest by blast
qed

definition example_source :: NodeHeartbeat where
  "example_source = (new_heartbeat 0 ''n2'' ''j2'' 0 1)\<lparr>hb_inventory_complete := True,
     hb_resources_known := True, hb_total_resources := ResourceQuantity 10 1000 1000,
     hb_runtime_metrics := Some ((new_metrics 0)\<lparr>cpu_percent := Some 1, memory_total_mb := 1000,
       memory_available_mb := 900, memory_psi_full_avg10 := Some 0,
       storage_max_concurrent_operations := 4\<rparr>)\<rparr>"

definition example_destination :: NodeHeartbeat where
  "example_destination = example_source\<lparr>hb_node_id := ''n1'', hb_job_id := ''j1'', hb_active_sandboxes := 2\<rparr>"

definition consolidating_policy :: ScalePolicy where
  "consolidating_policy = default_policy\<lparr>parked_wake_consolidation_enabled := True\<rparr>"

lemma example_consolidates:
  "can_consolidate_wake example_source example_destination (ResourceQuantity 1 100 10) consolidating_policy 0 None"
  by (simp add: can_consolidate_wake_def consolidation_evidence_def consolidation_used_memory_def
      stalls_more_def consolidation_rank_def age_within_def hb_is_fresh_def freshness_at_def
      example_source_def example_destination_def consolidating_policy_def default_policy_def
      new_heartbeat_def new_metrics_def total_seconds_def Let_def)

text \<open>An hour later the destination has emptied, and is itself packed onto an older worker.\<close>

definition emptied_destination :: NodeHeartbeat where
  "emptied_destination = example_destination\<lparr>hb_updated_at := 3600000000, hb_active_sandboxes := 1,
     hb_runtime_metrics := Some ((new_metrics 3600000000)\<lparr>cpu_percent := Some 2, memory_total_mb := 1000,
       memory_available_mb := 800, memory_psi_full_avg10 := Some 0,
       storage_max_concurrent_operations := 4\<rparr>)\<rparr>"

definition older_worker :: NodeHeartbeat where
  "older_worker = emptied_destination\<lparr>hb_node_id := ''n0'', hb_job_id := ''j0'', hb_active_sandboxes := 5\<rparr>"

lemma example_consolidates_again:
  "can_consolidate_wake emptied_destination older_worker (ResourceQuantity 1 100 10) consolidating_policy
     3600000000 None"
  by (simp add: can_consolidate_wake_def consolidation_evidence_def consolidation_used_memory_def
      stalls_more_def consolidation_rank_def age_within_def hb_is_fresh_def freshness_at_def
      example_source_def example_destination_def emptied_destination_def older_worker_def
      consolidating_policy_def default_policy_def new_heartbeat_def new_metrics_def total_seconds_def Let_def)

theorem consolidation_never_returns_witness:
  "distinct [(''j2'', ''n2''), (''j1'', ''n1''), (''j0'', ''n0'')]
   \<and> 2 < card {(''j2'', ''n2''), (''j1'', ''n1''), (''j0'', ''n0'')}"
proof -
  have w: "worker example_source = (''j2'', ''n2'')" "worker example_destination = (''j1'', ''n1'')"
    "worker emptied_destination = (''j1'', ''n1'')" "worker older_worker = (''j0'', ''n0'')"
    by (simp_all add: worker_def example_source_def example_destination_def emptied_destination_def
        older_worker_def new_heartbeat_def)
  have "wake_path (''j2'', ''n2'') [(''j1'', ''n1''), (''j0'', ''n0'')]"
    using wake_move [OF example_consolidates refl, unfolded w]
      wake_move [OF example_consolidates_again refl wake_stay, unfolded w] by blast
  then show ?thesis
    using consolidation_never_returns [of "(''j2'', ''n2'')" "[(''j1'', ''n1''), (''j0'', ''n0'')]"
        "{(''j2'', ''n2''), (''j1'', ''n1''), (''j0'', ''n0'')}"] by simp
qed

theorem consolidation_keeps_headroom_witness:
  "\<exists>md. hb_runtime_metrics example_destination = Some md
     \<and> of_int (consolidation_used_memory md + 100) \<le> (8 / 10 :: rat) * of_int (memory_total_mb md)"
  using consolidation_keeps_headroom [OF example_consolidates]
  by (auto simp: consolidating_policy_def default_policy_def)

end
