(* ===== verification/Scale_Capacity.thy ===== *)
theory Scale_Capacity
  imports Resource_Admission
begin

text \<open>
  \<open>src/ucloud_sandboxes/policy.py\<close>, the helpers of the scale decision: pressure gates, the
  create budget, memory forecasts, what provisioning and ready workers are credited with, and the
  counting rules of the pool. Divisions by \<open>target_memory_utilization\<close> are by a positive number:
  \<open>config.py\<close> accepts no value below 0.01. The source's reasons are formatted texts; the model
  keeps which reason it is and the values it prints.
\<close>

section \<open>Reasons\<close>

datatype LimitReason = MaxNodesReached int | MaxCreateReached int | MaxProvisioningReached int

datatype PressureSignal = Cpu | Memory_Use | Memory_Psi | Io_Psi | Storage_Queue | Image_Materialization

datatype DrainReason =
    DrainDisabled
  | DrainRetiring string RetiringReason
  | DrainExceedsOne string
  | DrainNotSurplus string
  | DrainServesPending string
  | DrainNoPeer string
  | DrainSelected string int
  | DrainNeeded string

datatype ScaleReason =
    ExceedShape int
  | SuppressedFailures int
  | UnreachableStop
  | IncompatibleStop
  | BelowMinNodes int
  | CannotSatisfyMin int LimitReason
  | ShapesNeedNodes int
  | ProjectedBelowDesired ResourceQuantity ResourceQuantity
  | CannotCreateForDeficit ResourceQuantity LimitReason
  | PendingBacklog int int int
  | CannotCreateForBacklog LimitReason
  | LivePressure "int option" "(PressureSignal \<times> rat) list"
  | CannotCreateForPressure LimitReason
  | StartupBacklog int int int
  | CreateSaturated int int int
  | CannotCreateHeadroom LimitReason
  | PressureCooldown
  | IdleAboveDemand "string list" ResourceQuantity ResourceQuantity
  | IdleExceedsMin int
  | SoftDrain "DrainReason list"
  | PoolMatches

section \<open>Pressure gates\<close>

definition live_pressure_requires_capacity :: "ScalePolicy \<Rightarrow> LiveScaleSignals option \<Rightarrow> bool" where
  "live_pressure_requires_capacity policy signals =
     (case signals of
        None \<Rightarrow> False
      | Some s \<Rightarrow>
          live_pressure_enabled policy
          \<and> live_pressure_min_samples policy \<le> ls_pressure_samples s
          \<and> (case ls_latest_pressure_age_seconds s of
               None \<Rightarrow> False | Some age \<Rightarrow> age \<le> live_pressure_fresh_seconds policy))"

definition create_pressure_requires_capacity :: "ScalePolicy \<Rightarrow> LiveScaleSignals option \<Rightarrow> bool" where
  "create_pressure_requires_capacity policy signals =
     (case signals of
        None \<Rightarrow> False
      | Some s \<Rightarrow>
          create_pressure_enabled policy
          \<and> create_pressure_min_samples policy \<le> ls_create_pressure_samples s
          \<and> 0 < ls_sandbox_create_limit s
          \<and> (case ls_latest_create_pressure_age_seconds s of
               None \<Rightarrow> False | Some age \<Rightarrow> age \<le> create_pressure_fresh_seconds policy)
          \<and> live_pressure_requires_capacity policy signals)"

definition startup_backlog_requires_capacity ::
  "ScalePolicy \<Rightarrow> SandboxDemand \<Rightarrow> SandboxNode list \<Rightarrow> LiveScaleSignals option \<Rightarrow> bool" where
  "startup_backlog_requires_capacity policy demand ready_nodes signals \<longleftrightarrow>
     create_pressure_enabled policy
     \<and> max 1 (create_target_concurrency_per_node policy) \<le> dm_pending_count demand
     \<and> max 1 (create_pressure_window_seconds policy) \<le> dm_oldest_capacity_pending_seconds demand
     \<and> ready_nodes \<noteq> [] \<and> \<not> list_ex nd_is_idle ready_nodes
     \<and> (case signals of
          None \<Rightarrow> False
        | Some s \<Rightarrow> (case ls_latest_observation_age_seconds s of
                      None \<Rightarrow> False | Some age \<Rightarrow> age \<le> live_pressure_fresh_seconds policy))"

definition latest_capacity_pressure_age :: "ScalePolicy \<Rightarrow> LiveScaleSignals option \<Rightarrow> int option" where
  "latest_capacity_pressure_age policy signals =
     (case signals of
        None \<Rightarrow> None
      | Some s \<Rightarrow> if live_pressure_enabled policy then ls_latest_pressure_age_seconds s else None)"

definition pressure_value :: "PressureSignal \<Rightarrow> rat option \<Rightarrow> rat \<Rightarrow> (PressureSignal \<times> rat) list" where
  "pressure_value label value bound =
     (case value of None \<Rightarrow> [] | Some v \<Rightarrow> if bound \<le> v then [(label, v)] else [])"

definition live_pressure_reason :: "ScalePolicy \<Rightarrow> LiveScaleSignals option \<Rightarrow> ScaleReason" where
  "live_pressure_reason policy signals =
     (case signals of
        None \<Rightarrow> LivePressure None []
      | Some s \<Rightarrow>
          LivePressure (Some (ls_pressure_samples s))
            (pressure_value Cpu (ls_cpu_utilization s) (target_cpu_utilization policy)
             @ pressure_value Memory_Use (ls_memory_utilization s) (target_memory_utilization policy)
             @ pressure_value Memory_Psi (ls_memory_psi_full_avg10 s) (max_memory_psi_full_avg10 policy)
             @ pressure_value Io_Psi (ls_io_psi_full_avg10 s) (max_io_psi_full_avg10 policy)
             @ pressure_value Storage_Queue (ls_storage_queue_utilization s)
                 (target_storage_queue_utilization policy)
             @ pressure_value Image_Materialization (ls_image_materialization_queue_utilization s)
                 (target_storage_queue_utilization policy)))"

section \<open>Planned actions and the create budget\<close>

type_synonym Action = "ScaleReason ScaleAction"

definition ceil_div :: "int \<Rightarrow> int \<Rightarrow> int" where
  "ceil_div value divisor = (value + divisor - 1) div divisor"

definition create_action :: "int \<Rightarrow> ScaleReason \<Rightarrow> Action" where
  "create_action n reason = \<lparr>act_kind = Create, act_count = n, act_job_ids = [], act_reason = reason\<rparr>"

definition stop_action :: "string list \<Rightarrow> ScaleReason \<Rightarrow> Action" where
  "stop_action job_ids reason =
     \<lparr>act_kind = Stop, act_count = int (length job_ids), act_job_ids = job_ids, act_reason = reason\<rparr>"

definition planned_creates :: "Action list \<Rightarrow> int" where
  "planned_creates actions = sum_list (map act_count (filter (\<lambda>a. act_kind a = Create) actions))"

definition planned_stop_job_ids :: "Action list \<Rightarrow> string list" where
  "planned_stop_job_ids actions = concat (map act_job_ids (filter (\<lambda>a. act_kind a = Stop) actions))"

definition planned_stops :: "Action list \<Rightarrow> int" where
  "planned_stops actions = sum_list (map act_count (filter (\<lambda>a. act_kind a = Stop) actions))"

definition create_budget :: "ScalePolicy \<Rightarrow> int \<Rightarrow> int \<Rightarrow> Action list \<Rightarrow> int" where
  "create_budget policy total_nodes provisioning_nodes actions =
     (let planned = planned_creates actions;
          base = min (max 0 (max_nodes policy - total_nodes - planned))
                     (max 0 (max_create_per_cycle policy - planned))
      in if 0 < max_provisioning_nodes policy
         then min base (max 0 (max_provisioning_nodes policy - provisioning_nodes - planned))
         else base)"

definition create_limit_reason :: "ScalePolicy \<Rightarrow> int \<Rightarrow> int \<Rightarrow> Action list \<Rightarrow> LimitReason option" where
  "create_limit_reason policy total_nodes provisioning_nodes actions =
     (let planned = planned_creates actions
      in if max_nodes policy \<le> total_nodes + planned then Some (MaxNodesReached (max_nodes policy))
         else if max_create_per_cycle policy \<le> planned
         then Some (MaxCreateReached (max_create_per_cycle policy))
         else if 0 < max_provisioning_nodes policy
                 \<and> max_provisioning_nodes policy \<le> provisioning_nodes + planned
         then Some (MaxProvisioningReached (max_provisioning_nodes policy))
         else None)"

section \<open>Resource arithmetic\<close>

definition clamp_ratio :: "rat \<Rightarrow> rat" where
  "clamp_ratio v = max 0 (min 1 v)"

definition scale_resources :: "ResourceQuantity \<Rightarrow> rat \<Rightarrow> ResourceQuantity" where
  "scale_resources q weight = (let w = clamp_ratio weight in rq_scaled q w w w)"

definition add_resources :: "ResourceQuantity \<Rightarrow> ResourceQuantity \<Rightarrow> ResourceQuantity" where
  "add_resources a b =
     ResourceQuantity (max 0 (vcpu a) + max 0 (vcpu b)) (max 0 (memory_mb a) + max 0 (memory_mb b))
       (max 0 (disk_mb a) + max 0 (disk_mb b))"

definition subtract_resources :: "ResourceQuantity \<Rightarrow> ResourceQuantity \<Rightarrow> ResourceQuantity" where
  "subtract_resources a b =
     ResourceQuantity (max 0 (vcpu a - vcpu b)) (max 0 (memory_mb a - memory_mb b))
       (max 0 (disk_mb a - disk_mb b))"

definition has_resources :: "ResourceQuantity \<Rightarrow> bool" where
  "has_resources q \<longleftrightarrow> 0 < vcpu q \<or> 0 < memory_mb q \<or> 0 < disk_mb q"

definition with_memory :: "ResourceQuantity \<Rightarrow> int \<Rightarrow> ResourceQuantity" where
  "with_memory q m = ResourceQuantity (vcpu q) m (disk_mb q)"

definition nodes_for_resource_deficit :: "ResourceQuantity \<Rightarrow> ScalePolicy \<Rightarrow> int option \<Rightarrow> int" where
  "nodes_for_resource_deficit deficit policy memory_capacity_mb =
     (let defaults = default_node_resources policy;
          capacity = (case memory_capacity_mb of None \<Rightarrow> memory_mb defaults | Some m \<Rightarrow> m)
      in fold max
           ((if 0 < vcpu deficit \<and> 0 < vcpu defaults
             then [math_ceil (vcpu deficit / vcpu defaults)] else [])
            @ (if 0 < memory_mb deficit \<and> 0 < capacity then [ceil_div (memory_mb deficit) capacity] else [])
            @ (if 0 < disk_mb deficit \<and> 0 < disk_mb defaults
               then [ceil_div (disk_mb deficit) (disk_mb defaults)] else []))
           1)"

section \<open>Worker capacity\<close>

definition node_has_disk_quota :: "SandboxNode \<Rightarrow> bool" where
  "node_has_disk_quota n =
     (if nd_is_provisioning n then True
      else case nd_heartbeat n of
             None \<Rightarrow> False | Some h \<Rightarrow> has_capability (hb_capabilities h) DISK_QUOTA_CAPABILITY)"

definition security_adjusted_resources :: "SandboxNode \<Rightarrow> ResourceQuantity \<Rightarrow> ResourceQuantity" where
  "security_adjusted_resources n q =
     (if (case nd_heartbeat n of None \<Rightarrow> False | Some h \<Rightarrow> \<not> node_storage_pressure_allows h 0) then 0
      else if disk_mb q \<le> 0 \<or> node_has_disk_quota n then q
      else ResourceQuantity (vcpu q) (memory_mb q) 0)"

definition physical_memory :: "SandboxNode \<Rightarrow> int" where
  "physical_memory n =
     (case nd_heartbeat n of
        None \<Rightarrow> 0
      | Some h \<Rightarrow>
          (let actual = (case hb_runtime_metrics h of None \<Rightarrow> 0 | Some m \<Rightarrow> memory_total_mb m)
           in if 0 < actual then min (memory_mb (hb_total_resources h)) actual
              else memory_mb (hb_total_resources h)))"

definition forecast_node_memory :: "SandboxNode list \<Rightarrow> ScalePolicy \<Rightarrow> int" where
  "forecast_node_memory nodes policy =
     fold min
       (map physical_memory
          (filter (\<lambda>n. nd_is_schedulable n \<and>
             (case nd_heartbeat n of
                None \<Rightarrow> False
              | Some h \<Rightarrow>
                  memory_mb (hb_total_resources h) = memory_mb (default_node_resources policy)
                  \<and> vcpu (hb_total_resources h) = vcpu (default_node_resources policy)
                  \<and> (case hb_runtime_metrics h of None \<Rightarrow> False | Some m \<Rightarrow> 0 < memory_total_mb m))) nodes))
       (memory_mb (default_node_resources policy))"

definition cold_memory_forecast ::
  "SandboxPlacementRequest list \<Rightarrow> ResourceQuantity \<Rightarrow> ScalePolicy \<Rightarrow> int" where
  "cold_memory_forecast requests maximum policy =
     sum_list (map (\<lambda>r. min (memory_mb maximum)
                          (math_ceil (of_int (memory_mb (pr_resources r)) / target_memory_utilization policy))
                        * pr_count r)
       (filter (\<lambda>r. fits_within (pr_resources r) maximum) requests))"

definition resident_memory_forecast :: "SandboxNode \<Rightarrow> ScalePolicy \<Rightarrow> datetime \<Rightarrow> int" where
  "resident_memory_forecast n policy now =
     (case nd_heartbeat n of
        None \<Rightarrow> 0
      | Some h \<Rightarrow>
          (let active = filter (\<lambda>e. inv_state e \<in> {''running'', ''creating'', ''waking''}) (hb_inventory h);
               bounds = sum_list (map (\<lambda>e. memory_mb (inv_resources e))
                          (filter (\<lambda>e. inv_state e \<in> {''creating'', ''waking''}) active));
               promises = max (memory_mb (hb_reserved_resources h)) bounds
                          + memory_mb (hb_build_reserved_resources h);
               forecast = (\<lambda>measured. math_ceil (of_int (measured + promises) / target_memory_utilization policy))
           in if nd_is_idle n \<and> hb_inventory h = [] then forecast 0
              else
                case (case hb_runtime_metrics h of
                        None \<Rightarrow> None
                      | Some m \<Rightarrow>
                          if (0 < memory_total_mb m \<or> 0 < memory_working_set_mb m)
                             \<and> 0 \<le> total_seconds (now - collected_at m)
                             \<and> total_seconds (now - collected_at m) \<le> of_int (live_pressure_fresh_seconds policy)
                          then Some (max (memory_working_set_mb m)
                                         (max 0 (memory_total_mb m - memory_available_mb m)))
                          else None) of
                  Some measured \<Rightarrow> forecast measured
                | None \<Rightarrow>
                    if \<not> hb_inventory_complete h \<or> int (length active) < nd_active_sandboxes n
                    then max (physical_memory n)
                           (math_ceil (of_int promises / target_memory_utilization policy))
                    else forecast (sum_list (map (\<lambda>e. memory_mb (inv_resources e))
                           (filter (\<lambda>e. inv_state e = ''running'') active)))))"

definition forecast_free_resources :: "SandboxNode \<Rightarrow> ResourceQuantity" where
  "forecast_free_resources n =
     (case nd_heartbeat n of
        None \<Rightarrow> 0
      | Some h \<Rightarrow>
          with_memory (security_adjusted_resources n (free_resources h))
            (min (memory_mb (security_adjusted_resources n (hb_total_resources h))) (physical_memory n)))"

definition estimated_node_resources :: "SandboxNode \<Rightarrow> ScalePolicy \<Rightarrow> ResourceQuantity" where
  "estimated_node_resources n policy =
     (let get = (\<lambda>v. case v of None \<Rightarrow> 0 | Some x \<Rightarrow> x);
          maximum = default_node_resources policy;
          cpu = (of_int (get (job_cpu (nd_job n))) :: rat);
          memory = get (job_memory_gb (nd_job n)) * 1024;
          disk = get (job_disk_gb (nd_job n)) * 1024
      in ResourceQuantity
           (min (if cpu \<le> 0 then vcpu maximum else cpu) (vcpu maximum))
           (min (if memory \<le> 0 then memory_mb maximum else memory) (memory_mb maximum))
           (min (if disk \<le> 0 then disk_mb maximum else disk) (disk_mb maximum)))"

definition option_or :: "'a option \<Rightarrow> 'a option \<Rightarrow> 'a option" where
  "option_or a b = (case a of Some x \<Rightarrow> Some x | None \<Rightarrow> b)"

definition provisioning_age_seconds :: "SandboxNode \<Rightarrow> datetime \<Rightarrow> rat option" where
  "provisioning_age_seconds n now =
     map_option (\<lambda>t. max 0 (total_seconds (now - t)))
       (if job_is_running (nd_job n) then option_or (job_started_at (nd_job n)) (job_created_at (nd_job n))
        else job_created_at (nd_job n))"

definition provisioning_weight :: "SandboxNode \<Rightarrow> ScalePolicy \<Rightarrow> datetime \<Rightarrow> rat" where
  "provisioning_weight n policy now =
     (let weight = clamp_ratio (provisioning_capacity_weight policy);
          stale_after = max 0 (stale_provisioning_after_seconds policy);
          stale = min weight (clamp_ratio (stale_provisioning_capacity_weight policy))
      in if stale_after \<le> 0 then weight
         else case provisioning_age_seconds n now of
                None \<Rightarrow> stale
              | Some age \<Rightarrow> if of_int stale_after \<le> age then stale else weight)"

definition projected_provisioning_resources ::
  "SandboxNode \<Rightarrow> ScalePolicy \<Rightarrow> datetime \<Rightarrow> int option \<Rightarrow> ResourceQuantity" where
  "projected_provisioning_resources n policy now memory_capacity_mb =
     (let estimate = security_adjusted_resources n (estimated_node_resources n policy);
          estimated = (case memory_capacity_mb of
                         None \<Rightarrow> estimate
                       | Some c \<Rightarrow> with_memory estimate (min (memory_mb estimate) c));
          available =
            (case nd_heartbeat n of
               None \<Rightarrow> estimated
             | Some h \<Rightarrow>
                 if hb_resources_known h
                 then (let free = security_adjusted_resources n (free_resources h)
                       in case memory_capacity_mb of
                            None \<Rightarrow> free
                          | Some c \<Rightarrow>
                              with_memory free
                                (min (memory_mb (security_adjusted_resources n (hb_total_resources h)))
                                     (min (physical_memory n) c)))
                 else estimated)
      in scale_resources available (provisioning_weight n policy now))"

definition projected_free_resources ::
  "SandboxNode list \<Rightarrow> ScalePolicy \<Rightarrow> datetime \<Rightarrow> ResourceQuantity" where
  "projected_free_resources nodes policy now =
     (let forecast_memory = forecast_node_memory nodes policy
      in foldl (\<lambda>acc n.
           if job_is_final (nd_job n) then acc
           else case nd_heartbeat n of
                  Some h \<Rightarrow>
                    if nd_is_schedulable n
                    then (let physical = security_adjusted_resources n (hb_total_resources h)
                          in rq_add acc (with_memory
                               (reusable_dynamic_resources
                                  (security_adjusted_resources n (free_resources h)) physical)
                               (min (memory_mb physical) (physical_memory n))))
                    else if nd_is_provisioning n
                    then rq_add acc (projected_provisioning_resources n policy now (Some forecast_memory))
                    else acc
                | None \<Rightarrow>
                    if nd_is_provisioning n
                    then rq_add acc (projected_provisioning_resources n policy now (Some forecast_memory))
                    else acc) 0 nodes)"

definition placement_request_resources :: "SandboxPlacementRequest list \<Rightarrow> ResourceQuantity" where
  "placement_request_resources requests =
     ResourceQuantity (max_default 0 (map (\<lambda>r. vcpu (pr_resources r)) requests))
       (max_default 0 (map (\<lambda>r. memory_mb (pr_resources r)) requests))
       (sum_list (map (\<lambda>r. disk_mb (pr_resources r) * pr_count r) requests))"

section \<open>Counting the pool\<close>

definition counts_as_pool_node :: "SandboxNode \<Rightarrow> bool" where
  "counts_as_pool_node n \<longleftrightarrow>
     \<not> (job_is_final (nd_job n) \<or> job_is_lost (nd_job n) \<or> nd_permanently_lost n)"

definition counts_as_active_provisioning :: "SandboxNode \<Rightarrow> ScalePolicy \<Rightarrow> datetime \<Rightarrow> bool" where
  "counts_as_active_provisioning n policy now =
     (if \<not> nd_is_provisioning n then False
      else if \<not> job_is_running (nd_job n) then True
      else
        let stale_after = max 0 (stale_provisioning_after_seconds policy)
        in stale_after \<le> 0
           \<or> (case provisioning_age_seconds n now of None \<Rightarrow> True | Some age \<Rightarrow> age < of_int stale_after))"

definition counts_as_unreachable :: "SandboxNode \<Rightarrow> ScalePolicy \<Rightarrow> datetime \<Rightarrow> bool" where
  "counts_as_unreachable n policy now \<longleftrightarrow>
     (job_is_running (nd_job n) \<or> job_is_unavailable (nd_job n))
     \<and> (\<not> nd_heartbeat_fresh n \<or> job_is_unavailable (nd_job n))
     \<and> \<not> counts_as_active_provisioning n policy now"

definition past_idle_grace :: "SandboxNode \<Rightarrow> int \<Rightarrow> datetime \<Rightarrow> bool" where
  "past_idle_grace n idle_seconds now =
     (let idle = max 0 idle_seconds;
          reference =
            (case nd_heartbeat n of
               Some h \<Rightarrow>
                 (case hb_idle_since h of
                    Some t \<Rightarrow> Some t
                  | None \<Rightarrow> if nd_active_sandboxes n = 0 then Some (hb_updated_at h)
                             else option_or (job_started_at (nd_job n)) (job_created_at (nd_job n)))
             | None \<Rightarrow> option_or (job_started_at (nd_job n)) (job_created_at (nd_job n)))
      in if idle = 0 then True
         else case reference of None \<Rightarrow> False | Some t \<Rightarrow> of_int idle \<le> total_seconds (now - t))"

end
