(* ===== verification/Scale_Packing.thy ===== *)
theory Scale_Packing
  imports Scale_Capacity "HOL-Library.Multiset"
begin

text \<open>
  \<open>_nodes_for_unplaced_requests\<close> of \<open>src/ucloud_sandboxes/policy.py\<close>: the best-fit planner that
  counts the workers missing for the pending shapes. A bin is a worker with what it has available
  and its shape; identical demand is consumed in batches. The reference for the batches is
  \<open>unit_loop\<close>, which places one sandbox per iteration; the reference for a result of 0 is an
  assignment of every requested sandbox to an existing bin.
\<close>

section \<open>The planner\<close>

type_synonym bin = "string \<times> ResourceQuantity \<times> ResourceQuantity"

definition initial_bins :: "SandboxNode list \<Rightarrow> ScalePolicy \<Rightarrow> datetime \<Rightarrow> bin list" where
  "initial_bins nodes policy now =
     concat (map (\<lambda>n.
       if job_is_final (nd_job n) then []
       else case nd_heartbeat n of
              Some h \<Rightarrow>
                if nd_is_schedulable n
                then (let shape = security_adjusted_resources n (hb_total_resources h)
                      in [(nd_job_id n,
                           reusable_dynamic_resources (security_adjusted_resources n (free_resources h)) shape,
                           shape)])
                else if nd_is_provisioning n
                then (let available = projected_provisioning_resources n policy now None
                      in if has_resources available
                         then [(nd_job_id n, available, default_node_resources policy)] else [])
                else []
            | None \<Rightarrow>
                if nd_is_provisioning n
                then (let available = projected_provisioning_resources n policy now None
                      in if has_resources available
                         then [(nd_job_id n, available, default_node_resources policy)] else [])
                else []) nodes)"

definition request_pressure :: "ResourceQuantity \<Rightarrow> SandboxPlacementRequest \<Rightarrow> rat \<times> int \<times> rat" where
  "request_pressure default_bin r =
     (let q = pr_resources r
      in (max (if 0 < vcpu default_bin then vcpu q / vcpu default_bin else 0)
            (max (if 0 < memory_mb default_bin then of_int (memory_mb q) / of_int (memory_mb default_bin) else 0)
                 (if 0 < disk_mb default_bin then of_int (disk_mb q) / of_int (disk_mb default_bin) else 0)),
          memory_mb q + disk_mb q, vcpu q))"

definition fitting :: "ResourceQuantity \<Rightarrow> string list \<Rightarrow> bin list \<Rightarrow> (nat \<times> bin) list" where
  "fitting requested excluded bins =
     filter (\<lambda>(i, job_id, available, shape).
        job_id \<notin> set excluded \<and> dynamic_request_fits requested available shape) (enumerate 0 bins)"

definition leftover :: "ResourceQuantity \<Rightarrow> nat \<times> bin \<Rightarrow> int \<times> int \<times> rat" where
  "leftover requested = (\<lambda>(i, job_id, available, shape).
     (disk_mb available - disk_mb requested, memory_mb available - memory_mb requested,
      vcpu available - vcpu requested))"

definition best_bin :: "ResourceQuantity \<Rightarrow> string list \<Rightarrow> bin list \<Rightarrow> (nat \<times> bin) option" where
  "best_bin requested excluded bins =
     (case fitting requested excluded bins of
        [] \<Rightarrow> None | b # bs \<Rightarrow> Some (min_key (leftover requested) b bs))"

definition batch_size :: "ResourceQuantity \<Rightarrow> int \<Rightarrow> ResourceQuantity \<Rightarrow> int" where
  "batch_size requested remaining available =
     (if 0 < disk_mb requested then min remaining (disk_mb available div disk_mb requested) else remaining)"

definition with_disk :: "ResourceQuantity \<Rightarrow> int \<Rightarrow> ResourceQuantity" where
  "with_disk q d = ResourceQuantity (vcpu q) (memory_mb q) d"

definition take_from :: "ResourceQuantity \<Rightarrow> int \<Rightarrow> nat \<times> bin \<Rightarrow> bin list \<Rightarrow> bin list" where
  "take_from requested n = (\<lambda>(i, job_id, available, shape) bins.
     bins[i := (job_id, reserve_dynamic_resources available (with_disk requested (disk_mb requested * n)), shape)])"

definition default_bin_left :: "ResourceQuantity \<Rightarrow> ResourceQuantity \<Rightarrow> bin" where
  "default_bin_left default_bin requested =
     ([], if dynamic_request_fits requested default_bin default_bin
          then reserve_dynamic_resources default_bin requested else ResourceQuantity 0 0 0, default_bin)"

text \<open>A best bin fits the request, so a batch has at least one sandbox and the loop ends.\<close>

lemma fitting_spec:
  "(i, job, available, shape) \<in> set (fitting q excluded bins) \<longleftrightarrow>
     i < length bins \<and> bins ! i = (job, available, shape) \<and> job \<notin> set excluded
     \<and> dynamic_request_fits q available shape"
  by (auto simp: fitting_def in_set_enumerate_eq)

lemma best_bin_SomeD:
  assumes "best_bin q excluded bins = Some (i, job, available, shape)"
  shows "i < length bins" "bins ! i = (job, available, shape)" "job \<notin> set excluded"
    "dynamic_request_fits q available shape"
proof -
  obtain b bs where f: "fitting q excluded bins = b # bs"
    and m: "min_key (leftover q) b bs = (i, job, available, shape)"
    using assms by (auto simp: best_bin_def split: list.splits)
  have "(i, job, available, shape) \<in> set (fitting q excluded bins)"
    unfolding f m [symmetric] by (rule min_key_in)
  then show "i < length bins" "bins ! i = (job, available, shape)" "job \<notin> set excluded"
    "dynamic_request_fits q available shape" by (simp_all add: fitting_spec)
qed

lemma batch_size_bounds:
  assumes "dynamic_request_fits q available shape" "0 < remaining"
  shows "1 \<le> batch_size q remaining available" "batch_size q remaining available \<le> remaining"
    and "batch_size q remaining available * disk_mb q \<le> disk_mb available"
proof -
  note f = dynamic_request_fitsD [OF assms(1)]
  show "1 \<le> batch_size q remaining available"
    using f assms(2) by (auto simp: batch_size_def int_one_le_iff_zero_less pos_imp_zdiv_pos_iff)
  show "batch_size q remaining available \<le> remaining" by (simp add: batch_size_def)
  show "batch_size q remaining available * disk_mb q \<le> disk_mb available"
  proof (cases "0 < disk_mb q")
    case True
    have "batch_size q remaining available * disk_mb q \<le> disk_mb available div disk_mb q * disk_mb q"
      using True by (intro mult_right_mono) (simp_all add: batch_size_def)
    also have "\<dots> \<le> disk_mb available"
      using div_mult_mod_eq [of "disk_mb available" "disk_mb q"] pos_mod_sign [OF True, of "disk_mb available"]
      by linarith
    finally show ?thesis .
  qed (use f in \<open>simp add: batch_size_def\<close>)
qed

lemma batch_progress:
  assumes "best_bin q excluded bins = Some (i, job, available, shape)" "\<not> remaining \<le> 0"
  shows "0 < remaining" "0 < batch_size q remaining available"
  using assms batch_size_bounds(1) [OF best_bin_SomeD(4) [OF assms(1)], of remaining] by auto

function place_loop ::
  "int \<Rightarrow> ResourceQuantity \<Rightarrow> ResourceQuantity \<Rightarrow> string list \<Rightarrow> int \<Rightarrow> bin list \<Rightarrow> int \<Rightarrow> int + bin list \<times> int" where
  "place_loop limit default_bin requested excluded remaining bins missing =
     (if remaining \<le> 0 then Inr (bins, missing)
      else
        case best_bin requested excluded bins of
          Some (i, job_id, available, shape) \<Rightarrow>
            (let batch = batch_size requested remaining available
             in place_loop limit default_bin requested excluded (remaining - batch)
                  (take_from requested batch (i, job_id, available, shape) bins) missing)
        | None \<Rightarrow>
            if limit < missing + 1 then Inl (missing + 1)
            else place_loop limit default_bin requested excluded (remaining - 1)
                   (bins @ [default_bin_left default_bin requested]) (missing + 1))"
  by pat_completeness auto
termination
  by (relation "measure (\<lambda>(_, _, _, _, remaining, _, _). nat remaining)") (auto simp: batch_progress)

declare place_loop.simps [simp del]

fun place_all ::
  "int \<Rightarrow> ResourceQuantity \<Rightarrow> SandboxPlacementRequest list \<Rightarrow> bin list \<Rightarrow> int \<Rightarrow> int" where
  "place_all limit default_bin [] bins missing = missing"
| "place_all limit default_bin (r # rs) bins missing =
     (case place_loop limit default_bin (pr_resources r) (pr_excluded_job_ids r) (pr_count r) bins missing of
        Inl n \<Rightarrow> n
      | Inr (bins, missing) \<Rightarrow> place_all limit default_bin rs bins missing)"

definition nodes_for_unplaced_requests ::
  "SandboxNode list \<Rightarrow> SandboxPlacementRequest list \<Rightarrow> ScalePolicy \<Rightarrow> datetime \<Rightarrow> int" where
  "nodes_for_unplaced_requests nodes requests policy now =
     (if requests = [] then 0
      else place_all (max_nodes policy) (default_node_resources policy)
             (sorted_desc (request_pressure (default_node_resources policy)) requests)
             (initial_bins nodes policy now) 0)"

section \<open>Batches are repeated single placements\<close>

text \<open>The reference planner: one sandbox per iteration.\<close>

function unit_loop ::
  "int \<Rightarrow> ResourceQuantity \<Rightarrow> ResourceQuantity \<Rightarrow> string list \<Rightarrow> int \<Rightarrow> bin list \<Rightarrow> int \<Rightarrow> int + bin list \<times> int" where
  "unit_loop limit default_bin requested excluded remaining bins missing =
     (if remaining \<le> 0 then Inr (bins, missing)
      else
        case best_bin requested excluded bins of
          Some b \<Rightarrow>
            unit_loop limit default_bin requested excluded (remaining - 1) (take_from requested 1 b bins) missing
        | None \<Rightarrow>
            if limit < missing + 1 then Inl (missing + 1)
            else unit_loop limit default_bin requested excluded (remaining - 1)
                   (bins @ [default_bin_left default_bin requested]) (missing + 1))"
  by pat_completeness auto
termination by (relation "measure (\<lambda>(_, _, _, _, remaining, _, _). nat remaining)") auto

declare unit_loop.simps [simp del]

lemma min_key_first:
  "min_key k x xs = y \<longleftrightarrow>
     (\<exists>pre post. x # xs = pre @ y # post \<and> (\<forall>z \<in> set pre. k y < k z) \<and> (\<forall>z \<in> set post. k y \<le> k z))"
  (is "_ \<longleftrightarrow> ?R x xs y")
proof
  have R: "?R x xs (min_key k x xs)" for x xs
  proof (induction k x xs rule: min_key.induct)
    case (2 k x z zs)
    show ?case
    proof (cases "k z < k x")
      case True
      with 2 obtain pre post where p: "z # zs = pre @ min_key k z zs # post"
        "\<forall>w \<in> set pre. k (min_key k z zs) < k w" "\<forall>w \<in> set post. k (min_key k z zs) \<le> k w" by blast
      have eq: "min_key k x (z # zs) = min_key k z zs" using True by simp
      have "k (min_key k z zs) \<le> k z" by (rule min_key_le) simp
      with True p show ?thesis unfolding eq by (intro exI [of _ "x # pre"] exI [of _ post]) auto
    next
      case False
      with 2 obtain pre post where p: "x # zs = pre @ min_key k x zs # post"
        "\<forall>w \<in> set pre. k (min_key k x zs) < k w" "\<forall>w \<in> set post. k (min_key k x zs) \<le> k w" by blast
      have eq: "min_key k x (z # zs) = min_key k x zs" using False by simp
      show ?thesis
      proof (cases pre)
        case Nil
        with p False show ?thesis unfolding eq by (intro exI [of _ "[]"] exI [of _ "z # zs"]) auto
      next
        case (Cons w pre')
        with p False show ?thesis unfolding eq by (intro exI [of _ "x # z # pre'"] exI [of _ post]) auto
      qed
    qed
  qed (simp add: exI [of _ "[]"])
  show "min_key k x xs = y \<Longrightarrow> ?R x xs y" using R by blast
  assume "?R x xs y"
  then obtain pre post where y: "x # xs = pre @ y # post" "\<forall>z \<in> set pre. k y < k z" "\<forall>z \<in> set post. k y \<le> k z"
    by blast
  obtain pre' post' where m: "x # xs = pre' @ min_key k x xs # post'" "\<forall>z \<in> set pre'. k (min_key k x xs) < k z"
    using R [of x xs] by blast
  have le: "k (min_key k x xs) \<le> k y" using min_key_le [of y x xs k] y(1) by simp
  have ge: "k y \<le> k (min_key k x xs)" using min_key_in [of k x xs] y by auto
  have "y \<notin> set pre'" "min_key k x xs \<notin> set pre" using y(2) m(2) le ge by force+
  moreover have "pre @ y # post = pre' @ min_key k x xs # post'" using y(1) m(1) by simp
  ultimately show "min_key k x xs = y" by (auto simp: append_eq_append_conv2 Cons_eq_append_conv append_eq_Cons_conv)
qed

text \<open>A bin that was the best and still fits is the best again: its leftover only shrinks.\<close>

lemma best_bin_again:
  assumes "best_bin q excluded bins = Some (i, job, available, shape)"
    and "disk_mb available' \<le> disk_mb available" "memory_mb available' = memory_mb available"
    and "vcpu available' = vcpu available" "dynamic_request_fits q available' shape"
  shows "best_bin q excluded (bins[i := (job, available', shape)]) = Some (i, job, available', shape)"
proof -
  note b = best_bin_SomeD [OF assms(1)]
  let ?P = "\<lambda>(i, job_id, available, shape).
    job_id \<notin> set excluded \<and> dynamic_request_fits q available shape"
  let ?y = "(i, job, available, shape)" and ?y' = "(i, job, available', shape)"
  let ?F = "filter ?P (enumerate 0 (take i bins))" and ?G = "filter ?P (enumerate (Suc i) (drop (Suc i) bins))"
  have split: "bins = take i bins @ (job, available, shape) # drop (Suc i) bins"
    using b(1,2) by (metis id_take_nth_drop)
  have upd: "bins[i := (job, available', shape)] = take i bins @ (job, available', shape) # drop (Suc i) bins"
    using b(1) by (simp add: upd_conv_take_nth_drop)
  have len: "min (length bins) i = i" using b(1) by simp
  have fit: "fitting q excluded bins = ?F @ ?y # ?G"
    by (subst split) (simp add: fitting_def enumerate_append_eq len b(3,4))
  have fit': "fitting q excluded (bins[i := (job, available', shape)]) = ?F @ ?y' # ?G"
    unfolding upd by (simp add: fitting_def enumerate_append_eq len b(3) assms(5))
  obtain x xs where x: "fitting q excluded bins = x # xs" "min_key (leftover q) x xs = ?y"
    using assms(1) by (auto simp: best_bin_def split: list.splits)
  from x(2) obtain pre post where pp: "x # xs = pre @ ?y # post"
    "\<forall>z \<in> set pre. leftover q ?y < leftover q z" "\<forall>z \<in> set post. leftover q ?y \<le> leftover q z"
    unfolding min_key_first by blast
  have "?y \<notin> set ?F" "?y \<notin> set ?G" by (auto simp: in_set_enumerate_eq len)
  moreover have "pre @ ?y # post = ?F @ ?y # ?G" using x(1) pp(1) fit by simp
  moreover have "?y \<notin> set pre" using pp(2) by auto
  ultimately have eq: "pre = ?F" "post = ?G" by (metis append_Cons_eq_iff)+
  have le: "leftover q ?y' \<le> leftover q ?y"
    using assms(2-4) by (auto simp: leftover_def less_eq_prod_def)
  have "\<forall>z \<in> set ?F. leftover q ?y' < leftover q z" "\<forall>z \<in> set ?G. leftover q ?y' \<le> leftover q z"
    using pp(2,3) le unfolding eq by (blast intro: le_less_trans order_trans)+
  then have "min_key (leftover q) z zs = ?y'" if "?F @ ?y' # ?G = z # zs" for z zs
    unfolding min_key_first using that by metis
  then show ?thesis by (cases "?F @ ?y' # ?G") (auto simp: best_bin_def fit')
qed

lemma unit_batch:
  assumes "best_bin q excluded bins = Some (i, job, available, shape)" "int n < remaining"
    "int (Suc n) * disk_mb q \<le> disk_mb available"
  shows "unit_loop limit default_bin q excluded remaining bins missing
       = unit_loop limit default_bin q excluded (remaining - int (Suc n))
           (take_from q (int (Suc n)) (i, job, available, shape) bins) missing"
  using assms
proof (induction n arbitrary: bins available remaining)
  case 0
  then show ?case by (subst unit_loop.simps) simp
next
  case (Suc n)
  let ?a = "reserve_dynamic_resources available (with_disk q (disk_mb q * 1))"
  let ?bins = "take_from q 1 (i, job, available, shape) bins"
  note f = dynamic_request_fitsD [OF best_bin_SomeD(4) [OF Suc.prems(1)]]
  have nn: "0 \<le> int n * disk_mb q" using f(1) by simp
  have a: "disk_mb ?a = disk_mb available - disk_mb q" using f(4) by (simp add: with_disk_def)
  have fits: "dynamic_request_fits q ?a shape"
    using best_bin_SomeD(4) [OF Suc.prems(1)] Suc.prems(3) nn a
    by (auto simp: dynamic_request_fits_def algebra_simps split: if_splits)
  have bb: "best_bin q excluded ?bins = Some (i, job, ?a, shape)"
    unfolding take_from_def prod.case
    using f(1) a fits by (intro best_bin_again [OF Suc.prems(1)]) simp_all
  have "unit_loop limit default_bin q excluded remaining bins missing
      = unit_loop limit default_bin q excluded (remaining - 1) ?bins missing"
    using Suc.prems(1,2) by (subst unit_loop.simps) simp
  also have "\<dots> = unit_loop limit default_bin q excluded (remaining - 1 - int (Suc n))
      (take_from q (int (Suc n)) (i, job, ?a, shape) ?bins) missing"
    using Suc.prems(2,3) a by (intro Suc.IH bb) (simp_all add: algebra_simps)
  also have "take_from q (int (Suc n)) (i, job, ?a, shape) ?bins
      = take_from q (int (Suc (Suc n))) (i, job, available, shape) bins"
    using Suc.prems(3) f(1,4) nn
    by (simp add: take_from_def with_disk_def reserve_dynamic_resources_def algebra_simps)
  finally show ?case by (simp add: algebra_simps)
qed

lemma place_loop_eq_unit_loop:
  "place_loop limit default_bin q excluded remaining bins missing
     = unit_loop limit default_bin q excluded remaining bins missing"
proof (induction limit default_bin q excluded remaining bins missing rule: place_loop.induct)
  case (1 limit default_bin q excluded remaining bins missing)
  show ?case
  proof (cases "remaining \<le> 0")
    case True
    then show ?thesis by (simp add: place_loop.simps [of _ _ _ _ remaining] unit_loop.simps [of _ _ _ _ remaining])
  next
    case False
    show ?thesis
    proof (cases "best_bin q excluded bins")
      case None
      with False 1 show ?thesis
        by (simp add: place_loop.simps [of _ _ _ _ remaining] unit_loop.simps [of _ _ _ _ remaining])
    next
      case (Some b)
      obtain i job available shape where b: "b = (i, job, available, shape)" by (cases b)
      let ?n = "batch_size q remaining available"
      note bs = batch_size_bounds [OF best_bin_SomeD(4) [OF Some [unfolded b]], of remaining]
      have "unit_loop limit default_bin q excluded remaining bins missing
          = unit_loop limit default_bin q excluded (remaining - ?n) (take_from q ?n b bins) missing"
        using unit_batch [OF Some [unfolded b], of "nat (?n - 1)" remaining limit default_bin missing] bs False
        unfolding b by (simp add: mult.commute)
      with 1(2) [OF False Some] False Some b show ?thesis
        by (simp add: place_loop.simps [of _ _ _ _ remaining] Let_def)
    qed
  qed
qed

section \<open>Bounds\<close>

lemma place_loop_missing:
  "case place_loop limit default_bin q excluded remaining bins missing of
     Inl n \<Rightarrow> missing < n \<and> n \<le> max limit missing + 1
   | Inr (_, n) \<Rightarrow> missing \<le> n \<and> n \<le> max limit missing"
proof (induction limit default_bin q excluded remaining bins missing rule: unit_loop.induct)
  case (1 limit default_bin q excluded remaining bins missing)
  then show ?case
    unfolding place_loop_eq_unit_loop
    by (subst unit_loop.simps) (auto split: option.split sum.splits prod.splits)
qed

lemma place_all_bounds:
  "missing \<le> place_all limit default_bin rs bins missing
   \<and> place_all limit default_bin rs bins missing \<le> max limit missing + 1"
proof (induction rs arbitrary: bins missing)
  case (Cons r rs)
  from place_loop_missing [where limit = limit and default_bin = default_bin and q = "pr_resources r"
      and excluded = "pr_excluded_job_ids r" and remaining = "pr_count r" and bins = bins and missing = missing]
  show ?case using Cons.IH by (auto split: sum.splits) (smt (verit))+
qed simp

section \<open>A plan without new workers is an assignment\<close>

definition bin_disk :: "bin \<Rightarrow> int" where
  "bin_disk b = disk_mb (fst (snd b))"

definition bin_takes :: "SandboxPlacementRequest \<Rightarrow> bin \<Rightarrow> bool" where
  "bin_takes r b \<longleftrightarrow> fst b \<notin> set (pr_excluded_job_ids r)
     \<and> vcpu (pr_resources r) \<le> vcpu (snd (snd b)) \<and> memory_mb (pr_resources r) \<le> memory_mb (snd (snd b))"

text \<open>\<open>share k i\<close> sandboxes of the k-th request go to the i-th bin: every request is placed in
  full, on workers that are not excluded and whose shape holds it, and no worker's disk is
  promised twice.\<close>

definition assignment :: "SandboxPlacementRequest list \<Rightarrow> bin list \<Rightarrow> (nat \<Rightarrow> nat \<Rightarrow> int) \<Rightarrow> bool" where
  "assignment rs bins share \<longleftrightarrow>
     (\<forall>k < length rs. \<forall>i < length bins. 0 \<le> share k i)
     \<and> (\<forall>k < length rs. (\<Sum>i < length bins. share k i) = max 0 (pr_count (rs ! k)))
     \<and> (\<forall>k < length rs. \<forall>i < length bins. 0 < share k i \<longrightarrow> bin_takes (rs ! k) (bins ! i))
     \<and> (\<forall>i < length bins. (\<Sum>k < length rs. share k i * disk_mb (pr_resources (rs ! k)))
          \<le> max 0 (bin_disk (bins ! i)))"

definition same_bins :: "bin list \<Rightarrow> bin list \<Rightarrow> bool" where
  "same_bins bins bins' \<longleftrightarrow> length bins' = length bins
     \<and> (\<forall>i < length bins. fst (bins' ! i) = fst (bins ! i) \<and> snd (snd (bins' ! i)) = snd (snd (bins ! i)))"

text \<open>What placing one request does when it adds no worker.\<close>

definition placed :: "SandboxPlacementRequest \<Rightarrow> int \<Rightarrow> bin list \<Rightarrow> bin list \<Rightarrow> (nat \<Rightarrow> int) \<Rightarrow> bool" where
  "placed r n bins bins' share \<longleftrightarrow> same_bins bins bins' \<and> (\<Sum>i < length bins. share i) = n
     \<and> (\<forall>i < length bins. 0 \<le> share i \<and> (0 < share i \<longrightarrow> bin_takes r (bins ! i) \<and> 0 \<le> bin_disk (bins' ! i))
          \<and> bin_disk (bins' ! i) = bin_disk (bins ! i) - share i * disk_mb (pr_resources r))"

lemma place_loop_assigns:
  assumes "place_loop limit default_bin (pr_resources r) (pr_excluded_job_ids r) remaining bins missing
      = Inr (bins', missing)"
  shows "\<exists>share. placed r (max 0 remaining) bins bins' share"
  using assms unfolding place_loop_eq_unit_loop
proof (induction "nat remaining" arbitrary: remaining bins)
  case 0
  then have "bins' = bins" by (subst (asm) unit_loop.simps) simp
  then show ?case using 0(1) by (intro exI [of _ "\<lambda>_. 0"]) (simp add: placed_def same_bins_def)
next
  case (Suc n)
  let ?q = "pr_resources r" and ?e = "pr_excluded_job_ids r"
  have pos: "0 < remaining" using Suc.hyps(2) by simp
  show ?case
  proof (cases "best_bin ?q ?e bins")
    case None
    from Suc.prems pos None
    have "unit_loop limit default_bin ?q ?e (remaining - 1) (bins @ [default_bin_left default_bin ?q]) (missing + 1)
        = Inr (bins', missing)"
      by (subst (asm) unit_loop.simps) (simp split: if_splits)
    with place_loop_missing [where limit = limit and default_bin = default_bin and q = ?q and excluded = ?e
        and remaining = "remaining - 1" and bins = "bins @ [default_bin_left default_bin ?q]" and missing = "missing + 1"]
    show ?thesis by (simp add: place_loop_eq_unit_loop)
  next
    case (Some b)
    obtain i job available shape where b: "b = (i, job, available, shape)" by (cases b)
    note bb = best_bin_SomeD [OF Some [unfolded b]]
    note f = dynamic_request_fitsD [OF bb(4)]
    let ?bins = "take_from ?q 1 b bins"
    have "unit_loop limit default_bin ?q ?e (remaining - 1) ?bins missing = Inr (bins', missing)"
      using Suc.prems pos Some by (subst (asm) unit_loop.simps) simp
    moreover have "n = nat (remaining - 1)" "max 0 (remaining - 1) = remaining - 1" using Suc.hyps(2) by auto
    ultimately obtain share where sh: "placed r (remaining - 1) ?bins bins' share" using Suc.hyps(1) by metis
    have len: "length ?bins = length bins" by (simp add: take_from_def b)
    have at_i: "fst (?bins ! i) = job" "snd (snd (?bins ! i)) = shape" "bin_disk (?bins ! i) = disk_mb available - disk_mb ?q"
      using bb(1) f(4) by (simp_all add: take_from_def b bin_disk_def with_disk_def)
    have other: "?bins ! j = bins ! j" if "j \<noteq> i" for j using that by (simp add: take_from_def b)
    have "(\<Sum>j < length bins. (share(i := share i + 1)) j) = (\<Sum>j < length bins. share j + (if j = i then 1 else 0))"
      by (intro sum.cong) auto
    also have "\<dots> = remaining" using sh bb(1) len by (simp add: placed_def sum.distrib)
    finally have total: "(\<Sum>j < length bins. (share(i := share i + 1)) j) = remaining" .
    have "placed r remaining bins bins' (share(i := share i + 1))"
      unfolding placed_def
    proof (intro conjI total allI impI)
      show "same_bins bins bins'"
        using sh at_i bb(1,2) other len unfolding placed_def same_bins_def by (metis fst_conv snd_conv)
      fix j assume j: "j < length bins"
      have sj: "0 \<le> share j" "0 < share j \<longrightarrow> bin_takes r (?bins ! j) \<and> 0 \<le> bin_disk (bins' ! j)"
        "bin_disk (bins' ! j) = bin_disk (?bins ! j) - share j * disk_mb ?q"
        using sh j len by (auto simp: placed_def)
      show "0 \<le> (share(i := share i + 1)) j" using sj(1) by auto
      show "bin_disk (bins' ! j) = bin_disk (bins ! j) - (share(i := share i + 1)) j * disk_mb ?q"
        using sj(3) at_i(3) bb(2) other by (cases "j = i") (simp_all add: bin_disk_def algebra_simps)
      show "bin_takes r (bins ! j)" if "0 < (share(i := share i + 1)) j"
        using that sj(2) other bb(2,3) f(5,6) by (cases "j = i") (simp_all add: bin_takes_def)
      show "0 \<le> bin_disk (bins' ! j)" if "0 < (share(i := share i + 1)) j"
        using that sj at_i(3) f(4) by (cases "j = i") (auto simp: order_le_less)
    qed
    with pos show ?thesis by (auto simp: max_def)
  qed
qed

lemma placed_assignment:
  assumes "placed r (max 0 (pr_count r)) bins bins' first" "assignment rs bins' share"
  shows "assignment (r # rs) bins (\<lambda>k. case k of 0 \<Rightarrow> first | Suc k \<Rightarrow> share k)" (is "assignment _ _ ?share")
proof -
  have len: "length bins' = length bins"
    and same: "\<And>i. i < length bins \<Longrightarrow> bin_takes q (bins' ! i) = bin_takes q (bins ! i)" for q
    using assms(1) by (simp_all add: placed_def same_bins_def bin_takes_def)
  have disk: "(\<Sum>k < length (r # rs). ?share k i * disk_mb (pr_resources ((r # rs) ! k))) \<le> max 0 (bin_disk (bins ! i))"
    if i: "i < length bins" for i
  proof -
    have rest: "(\<Sum>k < length rs. share k i * disk_mb (pr_resources (rs ! k))) \<le> max 0 (bin_disk (bins' ! i))"
      using assms(2) i len by (simp add: assignment_def)
    have first: "0 \<le> first i" "0 < first i \<longrightarrow> 0 \<le> bin_disk (bins' ! i)"
      "bin_disk (bins' ! i) = bin_disk (bins ! i) - first i * disk_mb (pr_resources r)"
      using assms(1) i unfolding placed_def by blast+
    have "(\<Sum>k < length (r # rs). ?share k i * disk_mb (pr_resources ((r # rs) ! k)))
        = first i * disk_mb (pr_resources r) + (\<Sum>k < length rs. share k i * disk_mb (pr_resources (rs ! k)))"
      unfolding length_Cons sum.lessThan_Suc_shift by simp
    with rest first show ?thesis by (cases "first i = 0") auto
  qed
  show ?thesis
    unfolding assignment_def
    using assms len same disk
    by (simp add: All_less_Suc2 assignment_def placed_def)
qed

lemma place_all_assigns:
  "place_all limit default_bin rs bins missing = missing \<Longrightarrow> \<exists>share. assignment rs bins share"
proof (induction rs arbitrary: bins)
  case (Cons r rs)
  let ?loop = "place_loop limit default_bin (pr_resources r) (pr_excluded_job_ids r) (pr_count r) bins missing"
  note m = place_loop_missing [where limit = limit and default_bin = default_bin and q = "pr_resources r"
      and excluded = "pr_excluded_job_ids r" and remaining = "pr_count r" and bins = bins and missing = missing]
  from m Cons.prems obtain bins' n where loop: "?loop = Inr (bins', n)" by (cases ?loop) auto
  from m Cons.prems loop place_all_bounds [of n limit default_bin rs bins'] have "n = missing" by simp
  with loop Cons.prems Cons.IH [of bins'] obtain share where "assignment rs bins' share" by auto
  moreover from place_loop_assigns loop \<open>n = missing\<close> obtain first
    where "placed r (max 0 (pr_count r)) bins bins' first" by blast
  ultimately show ?case using placed_assignment by blast
qed (auto simp: assignment_def intro!: exI [of _ "\<lambda>_ _. 0"])

section \<open>Properties\<close>

fun unit_all ::
  "int \<Rightarrow> ResourceQuantity \<Rightarrow> SandboxPlacementRequest list \<Rightarrow> bin list \<Rightarrow> int \<Rightarrow> int" where
  "unit_all limit default_bin [] bins missing = missing"
| "unit_all limit default_bin (r # rs) bins missing =
     (case unit_loop limit default_bin (pr_resources r) (pr_excluded_job_ids r) (pr_count r) bins missing of
        Inl n \<Rightarrow> n
      | Inr (bins, missing) \<Rightarrow> unit_all limit default_bin rs bins missing)"

text \<open>C10. Batching does not change the plan: consuming identical demand together gives the number
  of missing workers that the planner gives when it places one sandbox at a time, each on the best
  fitting bin of that moment.\<close>

theorem packing_batches_exact:
  "nodes_for_unplaced_requests nodes requests policy now =
     unit_all (max_nodes policy) (default_node_resources policy)
       (sorted_desc (request_pressure (default_node_resources policy)) requests)
       (initial_bins nodes policy now) 0"
proof -
  have "place_all limit d rs bins missing = unit_all limit d rs bins missing" for limit d rs bins missing
    by (induction rs arbitrary: bins missing) (auto simp: place_loop_eq_unit_loop split: sum.split)
  then show ?thesis by (simp add: nodes_for_unplaced_requests_def sorted_desc_def)
qed

lemma packing_zero:
  assumes "nodes_for_unplaced_requests nodes requests policy now = 0"
  shows "\<exists>rs share. mset rs = mset requests \<and> assignment rs (initial_bins nodes policy now) share"
proof -
  let ?rs = "sorted_desc (request_pressure (default_node_resources policy)) requests"
  have "place_all (max_nodes policy) (default_node_resources policy) ?rs (initial_bins nodes policy now) 0 = 0"
    using assms by (auto simp: nodes_for_unplaced_requests_def sorted_desc_def split: if_splits)
  from place_all_assigns [OF this] show ?thesis by (intro exI [of _ ?rs]) (simp add: sorted_desc_def)
qed


text \<open>A ready worker for the witnesses: 4 cores, 8 GiB of memory and 1000 MiB of disk.\<close>

definition ready_worker :: "string \<Rightarrow> int \<Rightarrow> SandboxNode" where
  "ready_worker job_id active = new_node (new_instance job_id [] [] [] [] [] [] RUNNING)
     (Some ((new_heartbeat 0 ''n'' job_id 0 active)\<lparr>hb_total_resources := ResourceQuantity 4 8192 1000,
        hb_resources_known := True,
        hb_capabilities := [DISK_QUOTA_CAPABILITY], hb_idle_since := Some 0\<rparr>)) active True"

lemmas ready_worker_defs = ready_worker_def new_node_def new_instance_def new_heartbeat_def

definition pending_request :: "int \<Rightarrow> SandboxPlacementRequest" where
  "pending_request n = \<lparr>pr_resources = ResourceQuantity 1 1024 400, pr_count = n,
     pr_excluded_job_ids = [''j2''], pr_image = []\<rparr>"


end
