(* ===== verification/Scale_Drain.thy ===== *)
theory Scale_Drain
  imports Scale_Packing Consolidation
begin

text \<open>
  \<open>src/ucloud_sandboxes/policy.py\<close>, the removal half of the scale decision: which workers may be
  stopped (\<open>_stop_candidates\<close>, \<open>incompatible_stop_candidates\<close>, \<open>_unreachable_stop_candidates\<close>) and
  which single worker is emptied by moving its parked sandboxes (\<open>plan_soft_drain\<close>). The lemmas
  show that removed workers leave room for the demand and that at most one worker is ever being
  emptied. \<open>parse\<close> stands for \<open>parse_iso_datetime\<close>.
\<close>

section \<open>Removing a worker\<close>

definition SOFT_DRAIN_IDLE_SECONDS :: int where
  "SOFT_DRAIN_IDLE_SECONDS = 60"

definition reports_resources :: "SandboxNode \<Rightarrow> bool" where
  "reports_resources n = (case nd_heartbeat n of None \<Rightarrow> False | Some h \<Rightarrow> hb_resources_known h)"

definition reported_free_resources :: "SandboxNode list \<Rightarrow> ResourceQuantity" where
  "reported_free_resources nodes =
     foldl (\<lambda>acc n. if reports_resources n then rq_add acc (forecast_free_resources n) else acc) 0 nodes"

definition removal_fits ::
  "SandboxNode \<Rightarrow> ScalePolicy \<Rightarrow> datetime \<Rightarrow> ResourceQuantity \<Rightarrow> SandboxNode list \<Rightarrow> ResourceQuantity
   \<Rightarrow> SandboxPlacementRequest list \<Rightarrow> (ResourceQuantity \<times> SandboxNode list) option" where
  "removal_fits n policy now remaining_free remaining_nodes required requests =
     (let node_free = (if reports_resources n then forecast_free_resources n else 0);
          after_resources = subtract_resources remaining_free node_free;
          after_nodes = filter (\<lambda>c. nd_job_id c \<noteq> nd_job_id n) remaining_nodes;
          exact_after_nodes = filter (\<lambda>c. nd_is_schedulable c \<and> reports_resources c) after_nodes
      in if \<not> fits_within required after_resources then None
         else if nodes_for_unplaced_requests exact_after_nodes requests policy now \<noteq> 0 then None
         else Some (after_resources, after_nodes))"

fun stop_loop ::
  "ScalePolicy \<Rightarrow> datetime \<Rightarrow> ResourceQuantity \<Rightarrow> int \<Rightarrow> SandboxPlacementRequest list \<Rightarrow> SandboxNode list
   \<Rightarrow> SandboxNode list \<Rightarrow> ResourceQuantity \<Rightarrow> SandboxNode list \<Rightarrow> SandboxNode list" where
  "stop_loop policy now required max_count requests [] candidates free remaining = candidates"
| "stop_loop policy now required max_count requests (n # ns) candidates free remaining =
     (if max_count \<le> int (length candidates) then candidates
      else if \<not> nd_is_idle n then stop_loop policy now required max_count requests ns candidates free remaining
      else
        let idle_seconds = (if is_soft_drained (nd_heartbeat n)
              then min (scale_down_idle_seconds policy) SOFT_DRAIN_IDLE_SECONDS
              else scale_down_idle_seconds policy)
        in if \<not> past_idle_grace n idle_seconds now
           then stop_loop policy now required max_count requests ns candidates free remaining
           else case removal_fits n policy now free remaining required requests of
                  None \<Rightarrow> stop_loop policy now required max_count requests ns candidates free remaining
                | Some (free, remaining) \<Rightarrow>
                    stop_loop policy now required max_count requests ns (candidates @ [n]) free remaining)"

definition stop_candidates ::
  "SandboxNode list \<Rightarrow> ScalePolicy \<Rightarrow> datetime \<Rightarrow> ResourceQuantity \<Rightarrow> int \<Rightarrow> SandboxNode list
   \<Rightarrow> SandboxPlacementRequest list \<Rightarrow> SandboxNode list" where
  "stop_candidates ready_nodes policy now required max_count placement_nodes requests =
     (if max_count \<le> 0 then []
      else stop_loop policy now required max_count requests ready_nodes []
             (reported_free_resources ready_nodes) placement_nodes)"

definition incompatible_stop_candidates ::
  "(string \<Rightarrow> datetime option) \<Rightarrow> SandboxNode list \<Rightarrow> datetime \<Rightarrow> int \<Rightarrow> SandboxNode list" where
  "incompatible_stop_candidates parse nodes now limit_ms =
     sort_key (\<lambda>n. (case option_or (job_started_at (nd_job n)) (job_created_at (nd_job n)) of
                       None \<Rightarrow> now | Some t \<Rightarrow> t, nd_job_id n))
       (filter (\<lambda>n.
          let retiring = retiring_reason parse (nd_heartbeat n) now limit_ms \<noteq> None
          in if job_is_final (nd_job n) \<or> nd_agent_version_compatible n \<and> \<not> retiring then False
             else if job_is_provisioning (nd_job n) \<and> \<not> nd_agent_version_compatible n then True
             else job_is_running (nd_job n) \<and> nd_heartbeat_fresh n \<and> nd_is_idle n) nodes)"

definition unreachable_node_reference :: "SandboxNode \<Rightarrow> datetime option" where
  "unreachable_node_reference n =
     (case nd_heartbeat n of
        Some h \<Rightarrow> Some (freshness_at h)
      | None \<Rightarrow> option_or (job_started_at (nd_job n)) (job_created_at (nd_job n)))"

definition unreachable_node_stop_ready :: "SandboxNode \<Rightarrow> ScalePolicy \<Rightarrow> datetime \<Rightarrow> bool" where
  "unreachable_node_stop_ready n policy now =
     (let timeout_seconds = max 0 (unreachable_stop_after_seconds policy)
      in if timeout_seconds \<le> 0 \<or> \<not> job_is_running (nd_job n) \<or> nd_heartbeat_fresh n
            \<or> (case unreachable_node_reference n of
                  None \<Rightarrow> True | Some t \<Rightarrow> total_seconds (now - t) < of_int timeout_seconds)
            \<or> nd_active_sandboxes n \<noteq> 0
         then False
         else case nd_heartbeat n of
                None \<Rightarrow> True
              | Some h \<Rightarrow>
                  hb_inventory_complete h \<and> hb_inventory h = [] \<and> active_workloads h = 0
                  \<and> hb_used_resources h = 0 \<and> hb_reserved_resources h = 0
                  \<and> hb_build_reserved_resources h = 0)"

definition unreachable_stop_candidates :: "SandboxNode list \<Rightarrow> ScalePolicy \<Rightarrow> datetime \<Rightarrow> SandboxNode list" where
  "unreachable_stop_candidates nodes policy now =
     sort_key (\<lambda>n. (case unreachable_node_reference n of None \<Rightarrow> now | Some t \<Rightarrow> t, nd_job_id n))
       (filter (\<lambda>n. unreachable_node_stop_ready n policy now) nodes)"

definition node_free_resources :: "SandboxNode \<Rightarrow> ScalePolicy \<Rightarrow> ResourceQuantity" where
  "node_free_resources n policy =
     (if reports_resources n then forecast_free_resources n
      else security_adjusted_resources n (estimated_node_resources n policy))"

definition ready_free_resources :: "SandboxNode list \<Rightarrow> ScalePolicy \<Rightarrow> ResourceQuantity" where
  "ready_free_resources ready_nodes policy = foldl (\<lambda>acc n. rq_add acc (node_free_resources n policy)) 0 ready_nodes"

definition stop_reason :: "SandboxNode list \<Rightarrow> ScalePolicy \<Rightarrow> ResourceQuantity \<Rightarrow> string list \<Rightarrow> ScaleReason" where
  "stop_reason ready_nodes policy required job_ids =
     (if has_resources required
      then IdleAboveDemand job_ids
             (ready_free_resources (filter (\<lambda>n. nd_job_id n \<notin> set job_ids) ready_nodes) policy) required
      else IdleExceedsMin (min_nodes policy))"

section \<open>Emptying a worker\<close>

record SoftDrainPlan =
  sp_job_id :: string
  sp_selected :: bool
  sp_clear_job_ids :: "string list"
  sp_reason :: "DrainReason list"
  sp_retiring :: bool

definition soft_drain_sandboxes :: "SandboxNode \<Rightarrow> int" where
  "soft_drain_sandboxes n =
     max (nd_active_sandboxes n) (case nd_heartbeat n of None \<Rightarrow> 0 | Some h \<Rightarrow> int (length (hb_inventory h)))"

text \<open>The closures of \<open>plan_soft_drain\<close>, with the variables they capture as arguments.\<close>

definition surplus ::
  "ScalePolicy \<Rightarrow> datetime \<Rightarrow> ResourceQuantity \<Rightarrow> SandboxNode list \<Rightarrow> ResourceQuantity
   \<Rightarrow> SandboxPlacementRequest list \<Rightarrow> SandboxNode \<Rightarrow> bool" where
  "surplus policy now reported_free capacity_nodes required requests n =
     (case nd_heartbeat n of
        None \<Rightarrow> False
      | Some h \<Rightarrow>
          if \<not> hb_resources_known h then False
          else
            let held = subtract_resources (security_adjusted_resources n (hb_total_resources h))
                         (security_adjusted_resources n (free_resources h))
            in removal_fits n policy now reported_free capacity_nodes
                 (with_disk required (max 0 (disk_mb required) + disk_mb held)) requests \<noteq> None)"

definition serves_pending :: "int \<Rightarrow> SandboxPlacementRequest list \<Rightarrow> SandboxNode \<Rightarrow> bool" where
  "serves_pending pending_count requests n =
     (if pending_count \<le> 0 then False
      else if requests = [] then True
      else case nd_heartbeat n of
             None \<Rightarrow> True
           | Some h \<Rightarrow>
               (let shape = security_adjusted_resources n (hb_total_resources h);
                    available = reusable_dynamic_resources
                      (security_adjusted_resources n (free_resources h)) shape
                in list_ex (\<lambda>r. nd_job_id n \<notin> set (pr_excluded_job_ids r)
                      \<and> dynamic_request_fits (pr_resources r) available shape) requests))"

definition cpu_identity :: "SandboxNode \<Rightarrow> string option" where
  "cpu_identity n =
     (case filter (starts_with RUNTIME_CPU_CAPABILITY_PREFIX)
             (case nd_heartbeat n of None \<Rightarrow> [] | Some h \<Rightarrow> hb_capabilities h) of
        [x] \<Rightarrow> Some x | _ \<Rightarrow> None)"

definition has_move_peer :: "SandboxNode list \<Rightarrow> SandboxNode \<Rightarrow> bool" where
  "has_move_peer ready_nodes n =
     (case cpu_identity n of
        None \<Rightarrow> True
      | Some i \<Rightarrow> list_ex (\<lambda>other. nd_job_id other \<noteq> nd_job_id n
                     \<and> cpu_identity other \<in> {Some i, None}) ready_nodes)"

definition soft_drain_label :: "SandboxNode \<Rightarrow> string" where
  "soft_drain_label n =
     str_or (case nd_heartbeat n of None \<Rightarrow> None | Some h \<Rightarrow> dict_get (hb_labels h) SOFT_DRAIN_LABEL) []"

text \<open>The loop over the labelled workers: it keeps at most one of them, by its job id (the empty
  string for none), and clears the others.\<close>

fun keep_loop ::
  "(SandboxNode \<Rightarrow> bool) \<Rightarrow> (SandboxNode \<Rightarrow> bool) \<Rightarrow> (SandboxNode \<Rightarrow> bool) \<Rightarrow> (SandboxNode \<Rightarrow> bool)
   \<Rightarrow> SandboxNode list \<Rightarrow> string \<Rightarrow> string list \<Rightarrow> DrainReason list \<Rightarrow> string \<times> string list \<times> DrainReason list" where
  "keep_loop is_ready spare serves peer [] kept clear reasons = (kept, clear, reasons)"
| "keep_loop is_ready spare serves peer (n # ns) kept clear reasons =
     (let j = nd_job_id n
      in if kept \<noteq> [] then keep_loop is_ready spare serves peer ns kept (clear @ [j]) (reasons @ [DrainExceedsOne j])
         else if \<not> is_ready n then keep_loop is_ready spare serves peer ns j clear reasons
         else if \<not> spare n then keep_loop is_ready spare serves peer ns kept (clear @ [j]) (reasons @ [DrainNotSurplus j])
         else if serves n then keep_loop is_ready spare serves peer ns kept (clear @ [j]) (reasons @ [DrainServesPending j])
         else if \<not> peer n then keep_loop is_ready spare serves peer ns kept (clear @ [j]) (reasons @ [DrainNoPeer j])
         else keep_loop is_ready spare serves peer ns j clear reasons)"

text \<open>The head of the function: a disabled policy clears every label, a retiring worker takes the
  one slot. None when the function goes on.\<close>

definition soft_drain_forced ::
  "(string \<Rightarrow> datetime option) \<Rightarrow> SandboxNode list \<Rightarrow> ScalePolicy \<Rightarrow> datetime \<Rightarrow> SoftDrainPlan option" where
  "soft_drain_forced parse pool policy now =
     (let labelled = filter (\<lambda>n. is_soft_drained (nd_heartbeat n)) pool;
          why = (\<lambda>n. retiring_reason parse (nd_heartbeat n) now (max_cpu_check_ms policy))
      in if \<not> drain_on_park_enabled policy
         then Some \<lparr>sp_job_id = [], sp_selected = False, sp_clear_job_ids = map nd_job_id labelled,
                sp_reason = (if labelled = [] then [] else [DrainDisabled]), sp_retiring = False\<rparr>
         else case filter (\<lambda>n. why n \<noteq> None) pool of
                [] \<Rightarrow> None
              | n # ns \<Rightarrow>
                  (let chosen = min_key (\<lambda>n. (\<not> is_soft_drained (nd_heartbeat n), nd_job_id n)) n ns
                   in Some \<lparr>sp_job_id = nd_job_id chosen,
                        sp_selected = (\<not> is_soft_drained (nd_heartbeat chosen)),
                        sp_clear_job_ids = map nd_job_id (filter (\<lambda>n. nd_job_id n \<noteq> nd_job_id chosen) labelled),
                        sp_reason = (case why chosen of None \<Rightarrow> [] | Some w \<Rightarrow> [DrainRetiring (nd_job_id chosen) w]),
                        sp_retiring = True\<rparr>))"

text \<open>The tail of the function: choose the busy worker with the fewest sandboxes.\<close>

definition soft_drain_select ::
  "SandboxNode list \<Rightarrow> (SandboxNode \<Rightarrow> bool) \<Rightarrow> (SandboxNode \<Rightarrow> bool) \<Rightarrow> string list
   \<Rightarrow> string list \<Rightarrow> DrainReason list \<Rightarrow> SoftDrainPlan" where
  "soft_drain_select ready_nodes spare peer excluded clear reasons =
     (let candidates = filter (\<lambda>n. nd_job_id n \<notin> set excluded \<and> \<not> nd_is_idle n \<and> reports_resources n) ready_nodes;
          eligible = (if 1 < length candidates then filter (\<lambda>n. peer n \<and> spare n) candidates else [])
      in case eligible of
           [] \<Rightarrow> \<lparr>sp_job_id = [], sp_selected = False, sp_clear_job_ids = clear, sp_reason = reasons, sp_retiring = False\<rparr>
         | e # es \<Rightarrow>
             (let fewest = fold min (map soft_drain_sandboxes es) (soft_drain_sandboxes e);
                  tied = filter (\<lambda>n. soft_drain_sandboxes n = fewest) eligible;
                  chosen = max_key (\<lambda>n. case nd_heartbeat n of None \<Rightarrow> (0, [], []) | Some h \<Rightarrow> consolidation_rank h)
                             (hd tied) (tl tied)
              in \<lparr>sp_job_id = nd_job_id chosen, sp_selected = True, sp_clear_job_ids = clear,
                  sp_reason = reasons @ [DrainSelected (nd_job_id chosen) fewest], sp_retiring = False\<rparr>))"

definition plan_soft_drain ::
  "(string \<Rightarrow> datetime option) \<Rightarrow> SandboxNode list \<Rightarrow> ScalePolicy \<Rightarrow> datetime \<Rightarrow> ResourceQuantity
   \<Rightarrow> SandboxPlacementRequest list \<Rightarrow> int \<Rightarrow> bool \<Rightarrow> string list \<Rightarrow> SoftDrainPlan" where
  "plan_soft_drain parse nodes policy now required requests pending_count allow_select excluded =
     (let pool = filter counts_as_pool_node nodes
      in case soft_drain_forced parse pool policy now of
           Some plan \<Rightarrow> plan
         | None \<Rightarrow>
             (let labelled = filter (\<lambda>n. is_soft_drained (nd_heartbeat n)) pool;
                  capacity_nodes = filter (\<lambda>n. nd_agent_version_compatible n \<or> nd_is_provisioning n) pool;
                  ready_nodes = filter nd_is_schedulable capacity_nodes;
                  ready_job_ids = map nd_job_id ready_nodes;
                  excess = (min_nodes policy < int (length pool));
                  spare = surplus policy now (reported_free_resources ready_nodes) capacity_nodes required requests;
                  (kept, clear, reasons) =
                    keep_loop (\<lambda>n. nd_job_id n \<in> set ready_job_ids) (\<lambda>n. excess \<and> spare n)
                      (serves_pending pending_count requests) (has_move_peer ready_nodes)
                      (sort_key (\<lambda>n. (soft_drain_label n, nd_job_id n)) labelled) [] [] []
              in if kept \<noteq> [] \<or> \<not> allow_select \<or> \<not> excess \<or> 0 < pending_count
                 then \<lparr>sp_job_id = kept, sp_selected = False, sp_clear_job_ids = clear, sp_reason = reasons, sp_retiring = False\<rparr>
                 else soft_drain_select ready_nodes spare (has_move_peer ready_nodes) excluded clear reasons))"

section \<open>What a removal leaves\<close>

definition known_free :: "SandboxNode \<Rightarrow> ResourceQuantity" where
  "known_free n = (if reports_resources n then forecast_free_resources n else 0)"

definition exact_nodes :: "SandboxNode list \<Rightarrow> SandboxNode list" where
  "exact_nodes nodes = filter (\<lambda>c. nd_is_schedulable c \<and> reports_resources c) nodes"

definition without :: "string set \<Rightarrow> SandboxNode list \<Rightarrow> SandboxNode list" where
  "without js nodes = filter (\<lambda>c. nd_job_id c \<notin> js) nodes"

lemma without_without [simp]: "without A (without B nodes) = without (A \<union> B) nodes"
  by (auto simp: without_def intro: filter_cong)

lemma without_empty [simp]: "without {} nodes = nodes"
  by (simp add: without_def)

lemma removal_fits_Some:
  "removal_fits n policy now free remaining required requests = Some (free', remaining') \<longleftrightarrow>
     fits_within required free' \<and> free' = subtract_resources free (known_free n)
     \<and> remaining' = without {nd_job_id n} remaining
     \<and> nodes_for_unplaced_requests (exact_nodes remaining') requests policy now = 0"
  by (auto simp: removal_fits_def Let_def known_free_def without_def exact_nodes_def)

lemma reported_free_sum: "reported_free_resources nodes = sum_list (map known_free nodes)"
proof -
  have "foldl (\<lambda>acc n. if reports_resources n then rq_add acc (forecast_free_resources n) else acc) a nodes
      = a + sum_list (map known_free nodes)" for a
    by (induction nodes arbitrary: a) (simp_all add: known_free_def add.assoc)
  then show ?thesis by (simp add: reported_free_resources_def)
qed

text \<open>A worker whose advertised memory is not negative reports no negative resources.\<close>

definition memory_sane :: "SandboxNode \<Rightarrow> bool" where
  "memory_sane n = (case nd_heartbeat n of None \<Rightarrow> True | Some h \<Rightarrow> 0 \<le> memory_mb (hb_total_resources h))"

lemma known_free_nonneg: "memory_sane n \<Longrightarrow> 0 \<le> known_free n"
  using free_resources_nonneg
  by (auto simp: memory_sane_def known_free_def reports_resources_def forecast_free_resources_def
      security_adjusted_resources_def physical_memory_def with_memory_def less_eq_ResourceQuantity_def Let_def
      split: option.splits if_splits)

lemma subtract_cancel: "0 \<le> c \<Longrightarrow> subtract_resources (b + c) b = c"
  by (simp add: subtract_resources_def less_eq_ResourceQuantity_def rq_eq_iff)

lemma subtract_all:
  "0 \<le> c \<Longrightarrow> \<forall>n \<in> set ds. 0 \<le> known_free n \<Longrightarrow>
     foldl (\<lambda>f n. subtract_resources f (known_free n)) (sum_list (map known_free ds) + c) ds = c"
proof (induction ds)
  case (Cons d ds)
  have "0 \<le> sum_list (map known_free ds) + c"
    using Cons.prems by (intro add_nonneg_nonneg sum_list_nonneg) auto
  from subtract_cancel [OF this, of "known_free d"] Cons show ?case by (simp add: add.assoc)
qed simp

lemma sum_without:
  assumes "distinct (map nd_job_id ready)" "set ds \<subseteq> set ready" "distinct ds"
  shows "sum_list (map known_free ready)
       = sum_list (map known_free ds) + sum_list (map known_free (without (nd_job_id ` set ds) ready))"
proof -
  have inj: "inj_on nd_job_id (set ready)" and d: "distinct ready"
    using assms(1) by (simp_all add: distinct_map)
  have "set (without (nd_job_id ` set ds) ready) = set ready - set ds"
    using inj assms(2) by (auto simp: without_def dest: inj_onD)
  moreover have "distinct (without (nd_job_id ` set ds) ready)" using d by (simp add: without_def)
  ultimately show ?thesis
    using d assms(2,3) by (simp add: sum_list_distinct_conv_sum_set sum.subset_diff add.commute)
qed

section \<open>Stop candidates\<close>

definition idle_grace :: "ScalePolicy \<Rightarrow> SandboxNode \<Rightarrow> int" where
  "idle_grace policy n = (if is_soft_drained (nd_heartbeat n)
     then min (scale_down_idle_seconds policy) SOFT_DRAIN_IDLE_SECONDS else scale_down_idle_seconds policy)"

definition stoppable :: "ScalePolicy \<Rightarrow> datetime \<Rightarrow> SandboxNode \<Rightarrow> bool" where
  "stoppable policy now n \<longleftrightarrow> nd_is_idle n \<and> past_idle_grace n (idle_grace policy n) now"

lemma stop_loop_Cons:
  "stop_loop policy now required max_count requests (n # ns) candidates free remaining =
     (if int (length candidates) < max_count \<and> stoppable policy now n then
        case removal_fits n policy now free remaining required requests of
          None \<Rightarrow> stop_loop policy now required max_count requests ns candidates free remaining
        | Some (free, remaining) \<Rightarrow>
            stop_loop policy now required max_count requests ns (candidates @ [n]) free remaining
      else if int (length candidates) < max_count
      then stop_loop policy now required max_count requests ns candidates free remaining else candidates)"
  by (auto simp: stoppable_def idle_grace_def Let_def)

lemma stop_loop_spec:
  "\<exists>ds. stop_loop policy now required max_count requests ns candidates free remaining = candidates @ ds
     \<and> set ds \<subseteq> set ns \<and> (distinct ns \<longrightarrow> distinct ds) \<and> (\<forall>n \<in> set ds. stoppable policy now n)
     \<and> int (length ds) \<le> max 0 (max_count - int (length candidates))
     \<and> (ds \<noteq> [] \<longrightarrow> fits_within required (foldl (\<lambda>f n. subtract_resources f (known_free n)) free ds)
          \<and> nodes_for_unplaced_requests (exact_nodes (without (nd_job_id ` set ds) remaining)) requests policy now = 0)"
proof (induction ns arbitrary: candidates free remaining)
  case (Cons n ns)
  let ?loop = "stop_loop policy now required max_count requests"
  let ?step = "?loop (n # ns) candidates free remaining" and ?rm = "removal_fits n policy now free remaining required requests"
  consider (skip) "?step = ?loop ns candidates free remaining" | (full) "?step = candidates"
    | (take) free' remaining' where "?step = ?loop ns (candidates @ [n]) free' remaining'"
        "int (length candidates) < max_count" "stoppable policy now n" "?rm = Some (free', remaining')"
  proof (cases "int (length candidates) < max_count \<and> stoppable policy now n")
    case True
    then show ?thesis using skip take by (cases ?rm) (auto simp: stop_loop_Cons simp del: stop_loop.simps)
  next
    case False
    then show ?thesis using skip full
      by (cases "int (length candidates) < max_count") (auto simp: stop_loop_Cons simp del: stop_loop.simps)
  qed
  then show ?case
  proof cases
    case skip
    from Cons [of candidates free remaining] show ?thesis unfolding skip by auto
  next
    case full
    then show ?thesis by (intro exI [of _ "[]"]) simp
  next
    case take
    from Cons [of "candidates @ [n]" free' remaining'] obtain ds where ds:
      "?loop ns (candidates @ [n]) free' remaining' = (candidates @ [n]) @ ds" "set ds \<subseteq> set ns"
      "distinct ns \<longrightarrow> distinct ds" "\<forall>n \<in> set ds. stoppable policy now n"
      "int (length ds) \<le> max 0 (max_count - int (length (candidates @ [n])))"
      "ds \<noteq> [] \<longrightarrow> fits_within required (foldl (\<lambda>f n. subtract_resources f (known_free n)) free' ds)
          \<and> nodes_for_unplaced_requests (exact_nodes (without (nd_job_id ` set ds) remaining')) requests policy now = 0"
      by blast
    note r = take(4) [unfolded removal_fits_Some]
    show ?thesis
      using take(1-3) ds r by (intro exI [of _ "n # ds"]) (auto simp: Un_commute insert_commute)
  qed
qed simp

lemma stop_candidates_keep_demand:
  assumes "stop_candidates ready policy now required max_count nodes requests = ds" "ds \<noteq> []"
    and "distinct (map nd_job_id ready)" "\<forall>n \<in> set ready. memory_sane n"
  shows "required \<le> reported_free_resources (without (nd_job_id ` set ds) ready)"
    and "nodes_for_unplaced_requests (exact_nodes (without (nd_job_id ` set ds) nodes)) requests policy now = 0"
proof -
  have pos: "stop_loop policy now required max_count requests ready [] (reported_free_resources ready) nodes = ds"
    using assms(1,2) by (auto simp: stop_candidates_def split: if_splits)
  from stop_loop_spec [of policy now required max_count requests ready "[]" "reported_free_resources ready" nodes]
  have ds: "set ds \<subseteq> set ready" "distinct ds"
    and fits: "fits_within required (foldl (\<lambda>f n. subtract_resources f (known_free n)) (reported_free_resources ready) ds)"
    and zero: "nodes_for_unplaced_requests (exact_nodes (without (nd_job_id ` set ds) nodes)) requests policy now = 0"
    unfolding pos using assms(2,3) by (auto simp: distinct_map)
  show "nodes_for_unplaced_requests (exact_nodes (without (nd_job_id ` set ds) nodes)) requests policy now = 0"
    by (rule zero)
  have "0 \<le> sum_list (map known_free (without (nd_job_id ` set ds) ready))"
    using assms(4) by (intro sum_list_nonneg) (auto simp: without_def intro: known_free_nonneg)
  from subtract_all [OF this, of ds] fits
  show "required \<le> reported_free_resources (without (nd_job_id ` set ds) ready)"
    using ds(1) assms(4) known_free_nonneg
    unfolding reported_free_sum sum_without [OF assms(3) ds] fits_within_eq_le by (metis subsetD)
qed

section \<open>One worker is emptied at a time\<close>

definition drain_pool :: "SandboxNode list \<Rightarrow> SandboxNode list" where
  "drain_pool nodes = filter counts_as_pool_node nodes"

definition drain_capacity :: "SandboxNode list \<Rightarrow> SandboxNode list" where
  "drain_capacity nodes = filter (\<lambda>n. nd_agent_version_compatible n \<or> nd_is_provisioning n) (drain_pool nodes)"

definition drain_ready :: "SandboxNode list \<Rightarrow> SandboxNode list" where
  "drain_ready nodes = filter nd_is_schedulable (drain_capacity nodes)"

definition labelled :: "SandboxNode list \<Rightarrow> SandboxNode list" where
  "labelled nodes = filter (\<lambda>n. is_soft_drained (nd_heartbeat n)) (drain_pool nodes)"

definition drain_spare ::
  "ScalePolicy \<Rightarrow> datetime \<Rightarrow> SandboxNode list \<Rightarrow> ResourceQuantity \<Rightarrow> SandboxPlacementRequest list \<Rightarrow> SandboxNode \<Rightarrow> bool" where
  "drain_spare policy now nodes required requests n \<longleftrightarrow> min_nodes policy < int (length (drain_pool nodes))
     \<and> surplus policy now (reported_free_resources (drain_ready nodes)) (drain_capacity nodes) required requests n"

lemmas drain_group_defs = drain_pool_def drain_capacity_def drain_ready_def labelled_def

text \<open>What a plan does to the labels: exactly the labelled workers other than the named one lose
  theirs, and the named worker gets a label exactly when it has none.\<close>

definition single_slot :: "SandboxNode list \<Rightarrow> SoftDrainPlan \<Rightarrow> bool" where
  "single_slot nodes plan \<longleftrightarrow>
     set (sp_clear_job_ids plan) = nd_job_id ` set (labelled nodes) - {sp_job_id plan}
     \<and> (sp_job_id plan \<noteq> [] \<longrightarrow> (\<exists>n \<in> set (drain_pool nodes). nd_job_id n = sp_job_id plan
          \<and> sp_selected plan = (\<not> is_soft_drained (nd_heartbeat n))))
     \<and> (sp_job_id plan = [] \<longrightarrow> \<not> sp_selected plan \<and> \<not> sp_retiring plan)"

definition ids_ok :: "SandboxNode list \<Rightarrow> bool" where
  "ids_ok nodes \<longleftrightarrow> distinct (map nd_job_id nodes) \<and> (\<forall>n \<in> set nodes. nd_job_id n \<noteq> [])"

lemma ids_ok_groups:
  assumes "ids_ok nodes"
  shows "distinct (map nd_job_id (labelled nodes))" "distinct (map nd_job_id (drain_ready nodes))"
  using assms by (simp_all add: ids_ok_def drain_group_defs distinct_map_filter)

lemma keep_loop_kept:
  "kept \<noteq> [] \<Longrightarrow> keep_loop is_ready spare serves peer ns kept clear reasons
     = (kept, clear @ map nd_job_id ns, reasons @ map (DrainExceedsOne \<circ> nd_job_id) ns)"
  by (induction ns arbitrary: clear reasons) (auto simp: Let_def)

lemma keep_loop_spec:
  assumes "\<forall>n \<in> set ns. nd_job_id n \<noteq> []" "keep_loop is_ready spare serves peer ns [] clear reasons = (kept, clear', reasons')"
  shows "kept = [] \<and> clear' = clear @ map nd_job_id ns \<and> (\<forall>n \<in> set ns. is_ready n \<and> (\<not> spare n \<or> serves n \<or> \<not> peer n))
    \<or> (\<exists>pre n post. ns = pre @ n # post \<and> kept = nd_job_id n \<and> clear' = clear @ map nd_job_id (pre @ post)
         \<and> (is_ready n \<longrightarrow> spare n \<and> \<not> serves n \<and> peer n))"
  using assms
proof (induction ns arbitrary: clear reasons)
  case (Cons n ns)
  let ?j = "nd_job_id n"
  show ?case
  proof (cases "is_ready n \<and> (\<not> spare n \<or> serves n \<or> \<not> peer n)")
    case True
    then obtain r where "keep_loop is_ready spare serves peer ns [] (clear @ [?j]) r = (kept, clear', reasons')"
      using Cons.prems(2) by (auto simp: Let_def split: if_splits)
    from Cons.IH [OF _ this] Cons.prems(1) True consider
      "kept = []" "clear' = (clear @ [?j]) @ map nd_job_id ns" "\<forall>n \<in> set ns. is_ready n \<and> (\<not> spare n \<or> serves n \<or> \<not> peer n)"
      | pre m post where "ns = pre @ m # post" "kept = nd_job_id m" "clear' = (clear @ [?j]) @ map nd_job_id (pre @ post)"
        "is_ready m \<longrightarrow> spare m \<and> \<not> serves m \<and> peer m" by auto
    then show ?thesis
    proof cases
      case 1
      then show ?thesis using True by auto
    next
      case 2
      then show ?thesis by (intro disjI2 exI [of _ "n # pre"] exI [of _ m] exI [of _ post]) auto
    qed
  next
    case False
    then obtain r where "keep_loop is_ready spare serves peer ns ?j clear r = (kept, clear', reasons')"
      using Cons.prems(2) by (auto simp: Let_def split: if_splits)
    with keep_loop_kept [of ?j is_ready spare serves peer ns clear r] Cons.prems(1) False show ?thesis
      by (intro disjI2 exI [of _ "[]"] exI [of _ n] exI [of _ ns]) auto
  qed
qed simp

lemma forced_single_slot:
  assumes "soft_drain_forced parse (drain_pool nodes) policy now = Some plan" "ids_ok nodes"
  shows "single_slot nodes plan"
proof (cases "drain_on_park_enabled policy")
  case False
  have "[] \<notin> nd_job_id ` set (labelled nodes)" using assms(2) by (auto simp: ids_ok_def drain_group_defs)
  then show ?thesis using False assms(1)
    by (auto simp: soft_drain_forced_def single_slot_def labelled_def Let_def)
next
  case True
  let ?why = "\<lambda>n. retiring_reason parse (nd_heartbeat n) now (max_cpu_check_ms policy)"
  from assms(1) True obtain n ns where f: "filter (\<lambda>n. ?why n \<noteq> None) (drain_pool nodes) = n # ns"
    by (auto simp: soft_drain_forced_def Let_def split: list.splits)
  define c where "c = min_key (\<lambda>n. (\<not> is_soft_drained (nd_heartbeat n), nd_job_id n)) n ns"
  have "c \<in> set (n # ns)" unfolding c_def by (rule min_key_in)
  then have c: "c \<in> set (drain_pool nodes)" unfolding f [symmetric] by simp
  have "plan = \<lparr>sp_job_id = nd_job_id c, sp_selected = (\<not> is_soft_drained (nd_heartbeat c)),
      sp_clear_job_ids = map nd_job_id (filter (\<lambda>n. nd_job_id n \<noteq> nd_job_id c) (labelled nodes)),
      sp_reason = (case ?why c of None \<Rightarrow> [] | Some w \<Rightarrow> [DrainRetiring (nd_job_id c) w]), sp_retiring = True\<rparr>"
    using assms(1) [unfolded soft_drain_forced_def Let_def f list.case c_def [symmetric]] True by (simp add: labelled_def)
  moreover have "nd_job_id c \<noteq> []" using c assms(2) by (auto simp: ids_ok_def drain_pool_def)
  ultimately show ?thesis using c by (auto simp: single_slot_def)
qed

text \<open>The plan when no rule is forced, over the named groups.\<close>

lemma plan_soft_drain_alt:
  assumes "soft_drain_forced parse (drain_pool nodes) policy now = None"
    and "keep_loop (\<lambda>n. nd_job_id n \<in> nd_job_id ` set (drain_ready nodes)) (drain_spare policy now nodes required requests)
      (serves_pending pending requests) (has_move_peer (drain_ready nodes))
      (sort_key (\<lambda>n. (soft_drain_label n, nd_job_id n)) (labelled nodes)) [] [] [] = (kept, clear, reasons)"
  shows "plan_soft_drain parse nodes policy now required requests pending allow excluded =
     (if kept \<noteq> [] \<or> \<not> allow \<or> \<not> min_nodes policy < int (length (drain_pool nodes)) \<or> 0 < pending
      then \<lparr>sp_job_id = kept, sp_selected = False, sp_clear_job_ids = clear, sp_reason = reasons, sp_retiring = False\<rparr>
      else soft_drain_select (drain_ready nodes)
             (surplus policy now (reported_free_resources (drain_ready nodes)) (drain_capacity nodes) required requests)
             (has_move_peer (drain_ready nodes)) excluded clear reasons)"
proof -
  have spare: "drain_spare policy now nodes required requests = (\<lambda>n. min_nodes policy < int (length (drain_pool nodes))
     \<and> surplus policy now (reported_free_resources (drain_ready nodes)) (drain_capacity nodes) required requests n)"
    by (simp add: drain_spare_def fun_eq_iff)
  show ?thesis
    unfolding plan_soft_drain_def Let_def drain_pool_def [symmetric] assms(1) option.case drain_capacity_def [symmetric]
      drain_ready_def [symmetric] labelled_def [symmetric] set_map assms(2) [unfolded spare] prod.case by (rule refl)
qed

lemma soft_drain_select_cases:
  assumes "soft_drain_select ready spare peer excluded clear reasons = plan"
  shows "sp_clear_job_ids plan = clear \<and> \<not> sp_retiring plan
    \<and> (sp_job_id plan = [] \<and> \<not> sp_selected plan
       \<or> (\<exists>n \<in> set ready. sp_job_id plan = nd_job_id n \<and> sp_selected plan \<and> nd_job_id n \<notin> set excluded
            \<and> \<not> nd_is_idle n \<and> reports_resources n \<and> peer n \<and> spare n
            \<and> (distinct ready \<longrightarrow> (\<exists>m \<in> set ready. \<not> nd_is_idle m \<and> reports_resources m \<and> m \<noteq> n))))"
proof -
  let ?cs = "filter (\<lambda>n. nd_job_id n \<notin> set excluded \<and> \<not> nd_is_idle n \<and> reports_resources n) ready"
  let ?el = "if 1 < length ?cs then filter (\<lambda>n. peer n \<and> spare n) ?cs else []"
  show ?thesis
  proof (cases ?el)
    case Nil
    then show ?thesis using assms by (auto simp: soft_drain_select_def Let_def)
  next
    case (Cons e es)
    define fewest where "fewest = fold min (map soft_drain_sandboxes es) (soft_drain_sandboxes e)"
    define tied where "tied = filter (\<lambda>n. soft_drain_sandboxes n = fewest) ?el"
    define chosen where "chosen = max_key (\<lambda>n. case nd_heartbeat n of None \<Rightarrow> (0, [], []) | Some h \<Rightarrow> consolidation_rank h)
                             (hd tied) (tl tied)"
    have plan: "plan = \<lparr>sp_job_id = nd_job_id chosen, sp_selected = True, sp_clear_job_ids = clear,
        sp_reason = reasons @ [DrainSelected (nd_job_id chosen) fewest], sp_retiring = False\<rparr>"
      using assms [unfolded soft_drain_select_def Let_def Cons list.case] Cons
      unfolding fewest_def [symmetric] by (simp add: tied_def chosen_def Let_def)
    have "fewest \<in> soft_drain_sandboxes ` set (e # es)"
      unfolding fewest_def by (induction es arbitrary: e) (auto simp: min_def)
    then have "tied \<noteq> []" unfolding tied_def Cons by (auto simp: filter_empty_conv)
    then have "chosen \<in> set tied" using max_key_in [of _ "hd tied" "tl tied"] unfolding chosen_def by simp
    then have ch: "chosen \<in> set ?el" by (simp add: tied_def split: if_splits)
    then have two: "1 < length ?cs" by (auto split: if_splits)
    have "\<exists>m \<in> set ?cs. m \<noteq> chosen" if "distinct ready"
    proof (rule ccontr)
      assume "\<not> ?thesis"
      then have "card (set ?cs) \<le> 1" using card_mono [of "{chosen}" "set ?cs"] by auto
      moreover have "card (set ?cs) = length ?cs" using that by (intro distinct_card distinct_filter)
      ultimately show False using two by linarith
    qed
    with ch two show ?thesis unfolding plan by auto
  qed
qed

lemma unforced_single_slot:
  assumes "soft_drain_forced parse (drain_pool nodes) policy now = None" "ids_ok nodes"
  shows "single_slot nodes (plan_soft_drain parse nodes policy now required requests pending allow excluded)"
proof -
  let ?sorted = "sort_key (\<lambda>n. (soft_drain_label n, nd_job_id n)) (labelled nodes)"
  let ?ready = "\<lambda>n. nd_job_id n \<in> nd_job_id ` set (drain_ready nodes)"
  let ?spare = "drain_spare policy now nodes required requests" and ?peer = "has_move_peer (drain_ready nodes)"
  obtain kept clear reasons where loop: "keep_loop ?ready ?spare (serves_pending pending requests) ?peer ?sorted [] [] []
      = (kept, clear, reasons)" by (rule prod_cases3)
  note plan = plan_soft_drain_alt [OF assms(1) loop, of allow excluded]
  have ids: "\<forall>n \<in> set ?sorted. nd_job_id n \<noteq> []" using assms(2) by (auto simp: ids_ok_def drain_group_defs)
  have inj: "inj_on nd_job_id (set nodes)" using assms(2) by (simp add: ids_ok_def distinct_map)
  have sub: "set (labelled nodes) \<subseteq> set (drain_pool nodes)" "set (drain_ready nodes) \<subseteq> set (drain_pool nodes)"
    "set (drain_pool nodes) \<subseteq> set nodes" by (auto simp: drain_group_defs)
  from keep_loop_spec [OF ids loop] show ?thesis
  proof (elim disjE exE conjE)
    assume kept: "kept = []" and clear: "clear = [] @ map nd_job_id ?sorted"
      and why: "\<forall>n \<in> set ?sorted. ?ready n \<and> (\<not> ?spare n \<or> serves_pending pending requests n \<or> \<not> ?peer n)"
    show ?thesis
    proof (cases "\<not> allow \<or> \<not> min_nodes policy < int (length (drain_pool nodes)) \<or> 0 < pending")
      case True
      then show ?thesis using plan kept clear ids by (auto simp: single_slot_def)
    next
      case False
      then have p: "plan_soft_drain parse nodes policy now required requests pending allow excluded = soft_drain_select (drain_ready nodes)
             (surplus policy now (reported_free_resources (drain_ready nodes)) (drain_capacity nodes) required requests)
             ?peer excluded clear reasons" using plan kept by simp
      have fresh: "n \<notin> set (labelled nodes)" if "?peer n" "?spare n" for n
        using why that False by (auto simp: serves_pending_def)
      from soft_drain_select_cases [OF p [symmetric]] show ?thesis
      proof (elim conjE disjE bexE)
        fix n assume n: "n \<in> set (drain_ready nodes)" "?peer n"
          and "surplus policy now (reported_free_resources (drain_ready nodes)) (drain_capacity nodes) required requests n"
          and sel: "sp_job_id (plan_soft_drain parse nodes policy now required requests pending allow excluded) = nd_job_id n"
            "sp_selected (plan_soft_drain parse nodes policy now required requests pending allow excluded)"
            "sp_clear_job_ids (plan_soft_drain parse nodes policy now required requests pending allow excluded) = clear"
        then have "n \<notin> set (labelled nodes)" using fresh False by (auto simp: drain_spare_def)
        moreover from this have "nd_job_id n \<notin> nd_job_id ` set (labelled nodes)"
          using inj sub n(1) by (auto dest: inj_onD)
        moreover have "nd_job_id n \<noteq> []" using assms(2) sub n(1) by (auto simp: ids_ok_def)
        ultimately show ?thesis
          using sel clear n(1) sub by (auto simp: single_slot_def labelled_def)
      qed (use clear ids in \<open>auto simp: single_slot_def\<close>)
    qed
  next
    fix pre n post assume n: "?sorted = pre @ n # post" and kept: "kept = nd_job_id n"
      and clear: "clear = [] @ map nd_job_id (pre @ post)"
    have "set (labelled nodes) = set (pre @ n # post)" using arg_cong [OF n, of set] by simp
    moreover have "distinct (map nd_job_id ?sorted)" using ids_ok_groups(1) [OF assms(2)] by (simp add: distinct_map)
    ultimately show ?thesis
      using plan kept clear ids sub unfolding n by (auto simp: single_slot_def labelled_def)
  qed
qed

lemma plan_single_slot:
  "ids_ok nodes \<Longrightarrow> single_slot nodes (plan_soft_drain parse nodes policy now required requests pending allow excluded)"
proof (cases "soft_drain_forced parse (drain_pool nodes) policy now")
  case (Some plan)
  then have "plan_soft_drain parse nodes policy now required requests pending allow excluded = plan"
    by (simp add: plan_soft_drain_def drain_pool_def Let_def)
  then show "ids_ok nodes \<Longrightarrow> ?thesis" using forced_single_slot [OF Some] by simp
qed (rule unforced_single_slot)

lemma forced_retiring:
  "soft_drain_forced parse pool policy now = Some plan \<Longrightarrow> sp_selected plan \<Longrightarrow> sp_retiring plan"
  by (auto simp: soft_drain_forced_def Let_def split: if_splits list.splits)

text \<open>Without permission to select, only a retiring worker is newly named; with it, a worker that
  the re-validation did not keep is newly selected or not named at all.\<close>

lemma plan_no_select:
  assumes "sp_selected (plan_soft_drain parse nodes policy now required requests pending False excluded)"
  shows "sp_retiring (plan_soft_drain parse nodes policy now required requests pending False excluded)"
  using assms forced_retiring
  by (auto simp: plan_soft_drain_def Let_def split: option.splits prod.splits)

lemma plan_newly_selected:
  assumes "sp_job_id (plan_soft_drain parse nodes policy now required requests pending False excluded) = []"
    and "sp_job_id (plan_soft_drain parse nodes policy now required requests pending True excluded') \<noteq> []"
  shows "sp_selected (plan_soft_drain parse nodes policy now required requests pending True excluded')"
proof (cases "soft_drain_forced parse (drain_pool nodes) policy now")
  case (Some plan)
  then show ?thesis using assms by (simp add: plan_soft_drain_def drain_pool_def Let_def)
next
  case None
  obtain kept clear reasons where loop: "keep_loop (\<lambda>n. nd_job_id n \<in> nd_job_id ` set (drain_ready nodes))
      (drain_spare policy now nodes required requests) (serves_pending pending requests)
      (has_move_peer (drain_ready nodes)) (sort_key (\<lambda>n. (soft_drain_label n, nd_job_id n)) (labelled nodes)) [] [] []
      = (kept, clear, reasons)" by (rule prod_cases3)
  note p = plan_soft_drain_alt [OF None loop]
  from assms(1) p [of False excluded] have "kept = []" by simp
  then show ?thesis using assms(2) p [of True excluded'] soft_drain_select_cases [OF refl] by (metis SoftDrainPlan.select_convs(1))
qed

section \<open>Properties\<close>

text \<open>The disk a worker's sandboxes hold, which moves with them.\<close>

definition held_disk :: "SandboxNode \<Rightarrow> int" where
  "held_disk n = (case nd_heartbeat n of None \<Rightarrow> 0 | Some h \<Rightarrow>
     max 0 (disk_mb (security_adjusted_resources n (hb_total_resources h))
       - disk_mb (security_adjusted_resources n (free_resources h))))"

lemma surplusD:
  assumes "surplus policy now (reported_free_resources ready) nodes required requests n"
    and "distinct (map nd_job_id ready)" "n \<in> set ready" "\<forall>m \<in> set ready. memory_sane m"
  shows "with_disk required (max 0 (disk_mb required) + held_disk n) \<le> reported_free_resources (without {nd_job_id n} ready)"
    and "nodes_for_unplaced_requests (exact_nodes (without {nd_job_id n} nodes)) requests policy now = 0"
proof -
  from assms(1) obtain h free' rest where h: "nd_heartbeat n = Some h"
    and r: "removal_fits n policy now (reported_free_resources ready) nodes
        (with_disk required (max 0 (disk_mb required) + held_disk n)) requests = Some (free', rest)"
    by (auto simp: surplus_def Let_def held_disk_def subtract_resources_def split: option.splits if_splits)
  note r = r [unfolded removal_fits_Some]
  have "0 \<le> sum_list (map known_free (without {nd_job_id n} ready))"
    using assms(4) by (intro sum_list_nonneg) (auto simp: without_def intro: known_free_nonneg)
  then have "free' = reported_free_resources (without {nd_job_id n} ready)"
    using r sum_without [OF assms(2), of "[n]"] assms(3) by (simp add: reported_free_sum subtract_cancel)
  with r show "with_disk required (max 0 (disk_mb required) + held_disk n) \<le> reported_free_resources (without {nd_job_id n} ready)"
    and "nodes_for_unplaced_requests (exact_nodes (without {nd_job_id n} nodes)) requests policy now = 0"
    by (metis fits_within_eq_le)+
qed

text \<open>A worker is newly chosen for emptying only when it is safe: nothing is pending, the pool is
  above its minimum, the worker is ready, busy and not already planned for a stop, another busy
  worker reports its resources, and without the chosen one the ready workers report enough for the
  required resources and for the disk its sandboxes hold, and have room for every requested shape.\<close>

theorem soft_drain_selection_safe:
  assumes "plan = plan_soft_drain parse nodes policy now required requests pending allow excluded"
    and "sp_selected plan" "\<not> sp_retiring plan" "ids_ok nodes" "\<forall>n \<in> set nodes. memory_sane n"
  shows "\<exists>n \<in> set (drain_ready nodes). nd_job_id n = sp_job_id plan \<and> nd_is_schedulable n \<and> \<not> nd_is_idle n
    \<and> nd_job_id n \<notin> set excluded \<and> pending \<le> 0 \<and> min_nodes policy < int (length (drain_pool nodes))
    \<and> (\<exists>m \<in> set (drain_ready nodes). m \<noteq> n \<and> \<not> nd_is_idle m \<and> reports_resources m)
    \<and> with_disk required (max 0 (disk_mb required) + held_disk n)
        \<le> reported_free_resources (without {nd_job_id n} (drain_ready nodes))
    \<and> nodes_for_unplaced_requests (exact_nodes (without {nd_job_id n} (drain_capacity nodes))) requests policy now = 0"
proof (cases "soft_drain_forced parse (drain_pool nodes) policy now")
  case (Some p)
  then have "plan = p" using assms(1) by (simp add: plan_soft_drain_def drain_pool_def Let_def)
  with forced_retiring [OF Some] assms(2,3) show ?thesis by blast
next
  case None
  let ?sorted = "sort_key (\<lambda>n. (soft_drain_label n, nd_job_id n)) (labelled nodes)"
  obtain kept clear reasons where loop: "keep_loop (\<lambda>n. nd_job_id n \<in> nd_job_id ` set (drain_ready nodes))
      (drain_spare policy now nodes required requests) (serves_pending pending requests)
      (has_move_peer (drain_ready nodes)) ?sorted [] [] [] = (kept, clear, reasons)" by (rule prod_cases3)
  note p = plan_soft_drain_alt [OF None loop, of allow excluded]
  have guard: "kept = []" "allow" "min_nodes policy < int (length (drain_pool nodes))" "pending \<le> 0"
    using assms(1,2) p by (auto split: if_splits)
  then have "soft_drain_select (drain_ready nodes)
      (surplus policy now (reported_free_resources (drain_ready nodes)) (drain_capacity nodes) required requests)
      (has_move_peer (drain_ready nodes)) excluded clear reasons = plan" using assms(1) p by simp
  from soft_drain_select_cases [OF this] assms(2) obtain n where n: "n \<in> set (drain_ready nodes)"
    "sp_job_id plan = nd_job_id n" "nd_job_id n \<notin> set excluded" "\<not> nd_is_idle n"
    "surplus policy now (reported_free_resources (drain_ready nodes)) (drain_capacity nodes) required requests n"
    and other: "distinct (drain_ready nodes) \<longrightarrow> (\<exists>m \<in> set (drain_ready nodes). \<not> nd_is_idle m \<and> reports_resources m \<and> m \<noteq> n)"
    by blast
  have ready: "\<forall>m \<in> set (drain_ready nodes). memory_sane m" "nd_is_schedulable n"
    using assms(5) n(1) by (auto simp: drain_group_defs)
  note d = ids_ok_groups(2) [OF assms(4)]
  have "distinct (drain_ready nodes)" using d by (simp add: distinct_map)
  with surplusD [OF n(5) d n(1) ready(1)] n guard other ready(2) show ?thesis by metis
qed

definition drain_policy :: ScalePolicy where
  "drain_policy = default_policy\<lparr>drain_on_park_enabled := True\<rparr>"

lemma ready_workers_ok:
  "ids_ok [ready_worker ''j1'' a, ready_worker ''j2'' b]"
  "\<forall>n \<in> set [ready_worker ''j1'' a, ready_worker ''j2'' b]. memory_sane n"
  by (simp_all add: ids_ok_def nd_job_id_def memory_sane_def ready_worker_defs)

theorem soft_drain_selection_safe_witness:
  "\<exists>n \<in> set (drain_ready [ready_worker ''j1'' 1, ready_worker ''j2'' 1]). nd_job_id n = ''j2''
     \<and> with_disk 0 (held_disk n) \<le> reported_free_resources (without {nd_job_id n} (drain_ready [ready_worker ''j1'' 1, ready_worker ''j2'' 1]))"
proof -
  let ?plan = "plan_soft_drain (\<lambda>_. None) [ready_worker ''j1'' 1, ready_worker ''j2'' 1] drain_policy 3600000000 0 [] 0 True []"
  have "sp_selected ?plan" "\<not> sp_retiring ?plan" "sp_job_id ?plan = ''j2''" by code_simp+
  with soft_drain_selection_safe [OF refl, of "\<lambda>_. None" "[ready_worker ''j1'' 1, ready_worker ''j2'' 1]" drain_policy 3600000000 0 "[]" 0 True "[]"]
    ready_workers_ok [of 1 1] show ?thesis by (auto simp del: set_simps)
qed

end
