(* ===== verification/Scale_Policy.thy ===== *)
theory Scale_Policy
  imports Scale_Drain
begin

text \<open>
  \<open>evaluate_scale\<close> of \<open>src/ucloud_sandboxes/policy.py\<close>: the scale decision of one cycle. The function
  is split in the order of its body: the view of the pool (\<open>scale_view\<close>), the demand
  (\<open>scale_needs\<close>), the capacity with the emptied worker withheld (\<open>drained_capacity\<close>), and the
  phases that append actions and reasons. \<open>parse\<close> stands for \<open>parse_iso_datetime\<close>.
\<close>

section \<open>The view of the pool\<close>

record ScaleView =
  sv_unreachable_stops :: "SandboxNode list"
  sv_incompatible_stops :: "SandboxNode list"
  sv_pool :: "SandboxNode list"
  sv_capacity :: "SandboxNode list"
  sv_ready :: "SandboxNode list"
  sv_provisioning :: int
  sv_unreachable :: int
  sv_total :: int
  sv_available :: int
  sv_idle_seconds :: int
  sv_pressure :: bool
  sv_backlog :: bool
  sv_create_pressure :: bool
  sv_pending_backlog :: int

definition effective_idle_seconds :: "ScalePolicy \<Rightarrow> LiveScaleSignals option \<Rightarrow> int" where
  "effective_idle_seconds policy signals =
     (case (if live_pressure_enabled policy then Option.bind signals ls_provisioning_p95_seconds else None) of
        None \<Rightarrow> scale_down_idle_seconds policy
      | Some p95 \<Rightarrow> max (scale_down_idle_seconds policy)
                      (math_ceil (p95 * max 0 (provisioning_scale_down_multiplier policy))))"

definition scale_view ::
  "(string \<Rightarrow> datetime option) \<Rightarrow> SandboxNode list \<Rightarrow> SandboxDemand \<Rightarrow> ScalePolicy \<Rightarrow> datetime
   \<Rightarrow> LiveScaleSignals option \<Rightarrow> ScaleView" where
  "scale_view parse nodes demand policy now signals =
     (let stop_budget = max 0 (max_stop_per_cycle policy);
          unreachable_stops = py_prefix stop_budget (unreachable_stop_candidates nodes policy now);
          unreachable_job_ids = map nd_job_id unreachable_stops;
          incompatible_stops =
            py_prefix (max 0 (stop_budget - int (length unreachable_stops)))
              (incompatible_stop_candidates parse
                 (filter (\<lambda>n. nd_job_id n \<notin> set unreachable_job_ids) nodes) now (max_cpu_check_ms policy));
          pool = filter counts_as_pool_node nodes;
          capacity = filter (\<lambda>n. (nd_agent_version_compatible n \<or> nd_is_provisioning n)
            \<and> retiring_reason parse (nd_heartbeat n) now (max_cpu_check_ms policy) = None) pool;
          ready = filter nd_is_schedulable capacity;
          unreachable = int (length (filter (\<lambda>n. counts_as_unreachable n policy now) pool));
          total_nodes = int (length pool);
          pressure = live_pressure_requires_capacity policy signals \<and> \<not> list_ex nd_is_idle ready;
          backlog = startup_backlog_requires_capacity policy demand ready signals
      in \<lparr>sv_unreachable_stops = unreachable_stops, sv_incompatible_stops = incompatible_stops,
          sv_pool = pool, sv_capacity = capacity, sv_ready = ready,
          sv_provisioning = int (length (filter (\<lambda>n. counts_as_active_provisioning n policy now) pool)),
          sv_unreachable = unreachable, sv_total = total_nodes,
          sv_available = max 0 (total_nodes - unreachable),
          sv_idle_seconds = effective_idle_seconds policy signals,
          sv_pressure = pressure, sv_backlog = backlog,
          sv_create_pressure = (backlog \<or> create_pressure_requires_capacity policy signals),
          sv_pending_backlog =
            (if pressure \<and> 0 < dm_pending_count demand
             then ceil_div (max 0 (dm_pending_count demand)) (max 1 (create_target_concurrency_per_node policy))
             else 0)\<rparr>)"

section \<open>The demand\<close>

record ScaleNeeds =
  sn_requests :: "SandboxPlacementRequest list"
  sn_unschedulable :: int
  sn_desired :: ResourceQuantity
  sn_node_memory :: int

definition scale_needs ::
  "SandboxNode list \<Rightarrow> SandboxDemand \<Rightarrow> ScalePolicy \<Rightarrow> datetime \<Rightarrow> SandboxNode list \<Rightarrow> ScaleNeeds" where
  "scale_needs nodes demand policy now ready_nodes =
     (let maximum = default_node_resources policy;
          schedulable = filter (\<lambda>r. fits_within (pr_resources r) maximum);
          every = dm_placement_requests demand @ dm_prepared_placement_requests demand;
          pending = (if dm_placement_requests demand \<noteq> []
                     then placement_request_resources (schedulable (dm_placement_requests demand))
                     else dm_pending_resources demand);
          prepared = placement_request_resources (schedulable (dm_prepared_placement_requests demand));
          pending' = with_memory pending
            (if dm_placement_requests demand \<noteq> []
             then cold_memory_forecast (dm_placement_requests demand) maximum policy
             else math_ceil (of_int (memory_mb pending) / target_memory_utilization policy));
          prepared' = with_memory prepared
            (cold_memory_forecast (dm_prepared_placement_requests demand) maximum policy);
          resident = sum_list (map (\<lambda>n. resident_memory_forecast n policy now) ready_nodes);
          needed = add_resources pending' prepared';
          needed' = with_memory needed (memory_mb needed + resident)
      in \<lparr>sn_requests = schedulable every,
          sn_unschedulable = sum_list (map pr_count
            (filter (\<lambda>r. \<not> fits_within (pr_resources r) maximum) every)),
          sn_desired = add_resources needed' (warm_resources policy),
          sn_node_memory = forecast_node_memory nodes policy\<rparr>)"

section \<open>Capacity with the emptied worker withheld\<close>

record ScaleCapacity =
  sc_projected :: ResourceQuantity
  sc_deficit :: ResourceQuantity
  sc_placement_nodes :: int

definition scale_up_capacity ::
  "SandboxNode list \<Rightarrow> ScaleNeeds \<Rightarrow> ScalePolicy \<Rightarrow> datetime \<Rightarrow> string \<Rightarrow> ScaleCapacity" where
  "scale_up_capacity capacity_nodes needs policy now withheld =
     (let scale_nodes = filter (\<lambda>n. nd_job_id n \<noteq> withheld) capacity_nodes;
          projected = projected_free_resources scale_nodes policy now
      in \<lparr>sc_projected = projected, sc_deficit = subtract_resources (sn_desired needs) projected,
          sc_placement_nodes = nodes_for_unplaced_requests scale_nodes (sn_requests needs) policy now\<rparr>)"

definition needs_capacity :: "ScaleNeeds \<Rightarrow> ScaleCapacity \<Rightarrow> bool" where
  "needs_capacity needs c \<longleftrightarrow>
     0 < sc_placement_nodes c \<or> has_resources (sn_desired needs) \<and> has_resources (sc_deficit c)"

text \<open>The re-validated plan, whether its worker was released for demand, and the capacity.\<close>

definition drained_capacity ::
  "(string \<Rightarrow> datetime option) \<Rightarrow> SandboxNode list \<Rightarrow> SandboxDemand \<Rightarrow> ScalePolicy \<Rightarrow> datetime
   \<Rightarrow> SandboxNode list \<Rightarrow> ScaleNeeds \<Rightarrow> SoftDrainPlan \<times> bool \<times> ScaleCapacity" where
  "drained_capacity parse nodes demand policy now capacity_nodes needs =
     (let plan = plan_soft_drain parse nodes policy now (sn_desired needs) (sn_requests needs)
            (dm_pending_count demand) False [];
          c = scale_up_capacity capacity_nodes needs policy now (sp_job_id plan)
      in if sp_job_id plan \<noteq> [] \<and> \<not> sp_retiring plan \<and> needs_capacity needs c
         then (\<lparr>sp_job_id = [], sp_selected = False, sp_clear_job_ids = sp_clear_job_ids plan @ [sp_job_id plan],
                sp_reason = [DrainNeeded (sp_job_id plan)], sp_retiring = False\<rparr>,
               True, scale_up_capacity capacity_nodes needs policy now [])
         else (plan, False, c))"

section \<open>Actions and reasons\<close>

type_synonym plan = "Action list \<times> ScaleReason list"

definition add_action :: "Action \<Rightarrow> plan \<Rightarrow> plan" where
  "add_action a = (\<lambda>(actions, reasons). (actions @ [a], reasons @ [act_reason a]))"

definition add_reasons :: "ScaleReason list \<Rightarrow> plan \<Rightarrow> plan" where
  "add_reasons rs = (\<lambda>(actions, reasons). (actions, reasons @ rs))"

text \<open>The shape the create phases share: create what the budget allows, or say what limits it.\<close>

definition budget :: "ScalePolicy \<Rightarrow> ScaleView \<Rightarrow> plan \<Rightarrow> int" where
  "budget policy v p = create_budget policy (sv_available v) (sv_provisioning v) (fst p)"

definition create_or_explain ::
  "ScalePolicy \<Rightarrow> ScaleView \<Rightarrow> int \<Rightarrow> ScaleReason \<Rightarrow> bool \<Rightarrow> (LimitReason \<Rightarrow> ScaleReason) \<Rightarrow> plan \<Rightarrow> plan" where
  "create_or_explain policy v needed reason explain limited p =
     (let create_count = min needed (budget policy v p)
      in if 0 < create_count then add_action (create_action create_count reason) p
         else if explain
         then (case create_limit_reason policy (sv_available v) (sv_provisioning v) (fst p) of
                 None \<Rightarrow> p | Some l \<Rightarrow> add_reasons [limited l] p)
         else p)"

definition opening_phase :: "SandboxDemand \<Rightarrow> ScaleView \<Rightarrow> ScaleNeeds \<Rightarrow> plan" where
  "opening_phase demand v needs =
     ((if sv_unreachable_stops v \<noteq> []
       then [stop_action (map nd_job_id (sv_unreachable_stops v)) UnreachableStop] else [])
      @ (if sv_incompatible_stops v \<noteq> []
         then [stop_action (map nd_job_id (sv_incompatible_stops v)) IncompatibleStop] else []),
      (if 0 < sn_unschedulable needs then [ExceedShape (sn_unschedulable needs)] else [])
      @ (if 0 < dm_suppressed_pending_count demand
         then [SuppressedFailures (dm_suppressed_pending_count demand)] else [])
      @ (if sv_unreachable_stops v \<noteq> [] then [UnreachableStop] else [])
      @ (if sv_incompatible_stops v \<noteq> [] then [IncompatibleStop] else []))"

definition min_nodes_phase :: "ScalePolicy \<Rightarrow> ScaleView \<Rightarrow> plan \<Rightarrow> plan" where
  "min_nodes_phase policy v p =
     (if sv_available v < min_nodes policy
      then create_or_explain policy v (min_nodes policy - sv_available v) (BelowMinNodes (min_nodes policy))
             True (CannotSatisfyMin (min_nodes policy)) p
      else p)"

definition deficit_phase :: "ScalePolicy \<Rightarrow> ScaleView \<Rightarrow> ScaleNeeds \<Rightarrow> ScaleCapacity \<Rightarrow> plan \<Rightarrow> plan" where
  "deficit_phase policy v needs c p =
     (if needs_capacity needs c
      then (let deficit_nodes = (if has_resources (sc_deficit c)
                  then nodes_for_resource_deficit (sc_deficit c) policy (Some (sn_node_memory needs)) else 0)
            in create_or_explain policy v
                 (max 0 (max deficit_nodes (sc_placement_nodes c) - planned_creates (fst p)))
                 (if deficit_nodes < sc_placement_nodes c then ShapesNeedNodes (sc_placement_nodes c)
                  else ProjectedBelowDesired (sc_projected c) (sn_desired needs))
                 True (CannotCreateForDeficit (sc_deficit c)) p)
      else p)"

definition backlog_phase :: "ScalePolicy \<Rightarrow> SandboxDemand \<Rightarrow> ScaleView \<Rightarrow> plan \<Rightarrow> plan" where
  "backlog_phase policy demand v p =
     (if 0 < sv_pending_backlog v
      then (let target = min (max_nodes policy) (sv_available v + sv_pending_backlog v)
            in create_or_explain policy v (max 0 (target - sv_available v - planned_creates (fst p)))
                 (PendingBacklog (dm_pending_count demand) (sv_pending_backlog v) target)
                 (sv_available v + planned_creates (fst p) < target) CannotCreateForBacklog p)
      else p)"

definition pressure_phase :: "ScalePolicy \<Rightarrow> LiveScaleSignals option \<Rightarrow> ScaleView \<Rightarrow> plan \<Rightarrow> plan" where
  "pressure_phase policy signals v p =
     (if sv_pressure v \<and> \<not> sv_create_pressure v \<and> sv_ready v \<noteq> []
      then (let target = min (max_nodes policy) (int (length (sv_ready v)) + max_create_per_cycle policy)
            in create_or_explain policy v (max 0 (target - sv_available v - planned_creates (fst p)))
                 (live_pressure_reason policy signals) True CannotCreateForPressure p)
      else p)"

text \<open>The target of the create-pressure phase. The source asserts the signals; a missing limit or
  count is read as 0, which \<open>create_pressure_signals\<close> shows never happens.\<close>

definition pipeline_target ::
  "ScalePolicy \<Rightarrow> SandboxDemand \<Rightarrow> LiveScaleSignals option \<Rightarrow> ScaleView \<Rightarrow> ScaleNeeds \<Rightarrow> int" where
  "pipeline_target policy demand signals v needs =
     (let ready = int (length (sv_ready v));
          floor = max ready (min_nodes policy);
          baseline =
            (if has_resources (sn_desired needs)
             then max floor (nodes_for_resource_deficit (sn_desired needs) policy (Some (sn_node_memory needs)))
             else if 0 < sv_available v then max floor 1 else floor);
          limit = (case signals of None \<Rightarrow> 0 | Some s \<Rightarrow> ls_sandbox_create_limit s);
          concurrency = max 1 (create_target_concurrency_per_node policy);
          pipeline = ceil_div (max 1 limit) concurrency;
          pipeline' = (if sv_backlog v
                       then max pipeline (ready + ceil_div (dm_pending_count demand) concurrency) else pipeline);
          pipeline'' = max pipeline' (baseline
                         + min (max_create_per_cycle policy) (create_pressure_max_headroom_nodes policy))
      in min (max_nodes policy)
           (max baseline (min pipeline'' (baseline + max 0 (create_pressure_max_headroom_nodes policy)))))"

definition create_pressure_phase ::
  "ScalePolicy \<Rightarrow> SandboxDemand \<Rightarrow> LiveScaleSignals option \<Rightarrow> ScaleView \<Rightarrow> ScaleNeeds \<Rightarrow> plan \<Rightarrow> plan" where
  "create_pressure_phase policy demand signals v needs p =
     (if sv_create_pressure v \<and> \<not> list_ex nd_is_idle (sv_ready v)
      then (let target = pipeline_target policy demand signals v needs
            in create_or_explain policy v (max 0 (target - sv_available v - planned_creates (fst p)))
                 (if sv_backlog v
                  then StartupBacklog (dm_pending_count demand) (dm_oldest_capacity_pending_seconds demand) target
                  else CreateSaturated (case signals of None \<Rightarrow> 0 | Some s \<Rightarrow> ls_sandbox_create_limit s) target
                         (case signals of None \<Rightarrow> 0 | Some s \<Rightarrow> ls_sandbox_create_rejections s))
                 (sv_available v + planned_creates (fst p) < target) CannotCreateHeadroom p)
      else p)"

section \<open>Scale-down and the decision\<close>

definition pressure_cooldown :: "ScalePolicy \<Rightarrow> LiveScaleSignals option \<Rightarrow> bool" where
  "pressure_cooldown policy signals \<longleftrightarrow>
     (live_pressure_enabled policy \<or> create_pressure_enabled policy) \<and> signals \<noteq> None
     \<and> (case latest_capacity_pressure_age policy signals of
          None \<Rightarrow> False | Some age \<Rightarrow> age < pressure_scale_down_cooldown_seconds policy)"

definition scale_down_phase ::
  "ScalePolicy \<Rightarrow> datetime \<Rightarrow> LiveScaleSignals option \<Rightarrow> ScaleView \<Rightarrow> ScaleNeeds \<Rightarrow> plan \<Rightarrow> plan" where
  "scale_down_phase policy now signals v needs p =
     (let excess_nodes = sv_total v - min_nodes policy;
          stop_budget = max 0 (max_stop_per_cycle policy - planned_stops (fst p))
      in if pressure_cooldown policy signals then add_reasons [PressureCooldown] p
         else if 0 < excess_nodes \<and> 0 < stop_budget
         then (let candidates = stop_candidates (sv_ready v)
                     (policy\<lparr>scale_down_idle_seconds := sv_idle_seconds v\<rparr>) now (sn_desired needs)
                     (min excess_nodes stop_budget) (sv_capacity v) (sn_requests needs);
                   job_ids = map nd_job_id candidates
               in if candidates \<noteq> []
                  then add_action (stop_action job_ids (stop_reason (sv_ready v) policy (sn_desired needs) job_ids)) p
                  else p)
         else p)"

definition select_phase ::
  "(string \<Rightarrow> datetime option) \<Rightarrow> SandboxNode list \<Rightarrow> SandboxDemand \<Rightarrow> ScalePolicy \<Rightarrow> datetime
   \<Rightarrow> LiveScaleSignals option \<Rightarrow> ScaleView \<Rightarrow> ScaleNeeds \<Rightarrow> Action list \<Rightarrow> bool \<Rightarrow> SoftDrainPlan \<Rightarrow> SoftDrainPlan" where
  "select_phase parse nodes demand policy now signals v needs actions released plan =
     (let recent_creates = (case Option.bind signals ls_latest_schedule_age_seconds of
            None \<Rightarrow> False | Some age \<Rightarrow> age < sv_idle_seconds v)
      in if \<not> pressure_cooldown policy signals \<and> \<not> recent_creates \<and> sp_job_id plan = [] \<and> \<not> released
         then (let selected = plan_soft_drain parse nodes policy now (sn_desired needs) (sn_requests needs)
                     (dm_pending_count demand) True (planned_stop_job_ids actions)
               in selected\<lparr>sp_clear_job_ids :=
                     rev (remdups (rev (sp_clear_job_ids plan @ sp_clear_job_ids selected)))\<rparr>)
         else plan)"

definition evaluate_scale ::
  "(string \<Rightarrow> datetime option) \<Rightarrow> SandboxNode list \<Rightarrow> SandboxDemand \<Rightarrow> ScalePolicy \<Rightarrow> datetime
   \<Rightarrow> LiveScaleSignals option \<Rightarrow> ScaleReason ScaleDecision" where
  "evaluate_scale parse nodes demand policy now signals =
     (let v = scale_view parse nodes demand policy now signals;
          needs = scale_needs nodes demand policy now (sv_ready v);
          (plan, released, c) = drained_capacity parse nodes demand policy now (sv_capacity v) needs;
          p = create_pressure_phase policy demand signals v needs
                (pressure_phase policy signals v
                  (backlog_phase policy demand v
                    (deficit_phase policy v needs c
                      (min_nodes_phase policy v
                        (opening_phase demand v needs)))));
          quiet = (planned_creates (fst p) = 0 \<and> \<not> has_resources (sc_deficit c) \<and> sc_placement_nodes c = 0);
          p' = (if quiet then scale_down_phase policy now signals v needs p else p);
          plan' = (if quiet
                   then select_phase parse nodes demand policy now signals v needs (fst p') released plan
                   else plan);
          reasons = snd p' @ (if sp_reason plan' \<noteq> [] then [SoftDrain (sp_reason plan')] else [])
      in \<lparr>sd_actions = fst p', sd_ready_nodes = int (length (sv_ready v)), sd_provisioning_nodes = sv_provisioning v,
          sd_total_nodes = sv_total v,
          sd_reasons = (if fst p' = [] \<and> reasons = [] then [PoolMatches] else reasons),
          sd_unreachable_nodes = sv_unreachable v, sd_pending_resources = dm_pending_resources demand,
          sd_suppressed_pending_resources = dm_suppressed_pending_resources demand,
          sd_pending_count = dm_pending_count demand, sd_suppressed_pending_count = dm_suppressed_pending_count demand,
          sd_prepared_resources = prepared_resources demand, sd_desired_resources = sn_desired needs,
          sd_projected_free_resources = sc_projected c, sd_resource_deficit = sc_deficit c,
          sd_live_signals = signals, sd_pressure_scale_up = sv_pressure v,
          sd_create_pressure_scale_up = sv_create_pressure v,
          sd_effective_scale_down_idle_seconds = sv_idle_seconds v, sd_soft_drain_job_id = sp_job_id plan',
          sd_soft_drain_selected = sp_selected plan', sd_soft_drain_clear_job_ids = sp_clear_job_ids plan'\<rparr>)"

section \<open>The phases as a locale\<close>

text \<open>Every create phase is an instance of one contract: it keeps the planned stops and appends at
  most one create within the budget. A sequence of such phases keeps the create limits.\<close>

definition cap_ok :: "ScalePolicy \<Rightarrow> ScaleView \<Rightarrow> plan \<Rightarrow> bool" where
  "cap_ok policy v p \<longleftrightarrow> 0 \<le> planned_creates (fst p) \<and> (0 < planned_creates (fst p) \<longrightarrow>
     planned_creates (fst p) \<le> max_create_per_cycle policy
     \<and> sv_available v + planned_creates (fst p) \<le> max_nodes policy
     \<and> (0 < max_provisioning_nodes policy \<longrightarrow>
          sv_provisioning v + planned_creates (fst p) \<le> max_provisioning_nodes policy))"

definition same_stops :: "plan \<Rightarrow> plan \<Rightarrow> bool" where
  "same_stops p p' \<longleftrightarrow> planned_stop_job_ids (fst p') = planned_stop_job_ids (fst p)
     \<and> planned_stops (fst p') = planned_stops (fst p)"

locale create_phase =
  fixes policy :: ScalePolicy and v :: ScaleView and phase :: "plan \<Rightarrow> plan"
  assumes within_budget: "phase p = p \<or> (\<exists>r. phase p = add_reasons r p)
    \<or> (\<exists>n r. 0 < n \<and> n \<le> budget policy v p \<and> phase p = add_action (create_action n r) p)"
begin

lemma keeps_stops: "same_stops p (phase p)"
  using within_budget [of p]
  by (cases p) (auto simp: same_stops_def add_action_def add_reasons_def create_action_def
      planned_stop_job_ids_def planned_stops_def)

lemma keeps_cap: "cap_ok policy v p \<Longrightarrow> cap_ok policy v (phase p)"
  using within_budget [of p]
  by (cases p) (auto simp: cap_ok_def budget_def create_budget_def Let_def add_action_def add_reasons_def
      create_action_def planned_creates_def split: if_splits)

end

lemma create_or_explain_phase: "create_phase policy v (\<lambda>p. create_or_explain policy v (needed p) (reason p) (explain p) limited p)"
proof
  fix p
  let ?n = "min (needed p) (budget policy v p)" and ?step = "create_or_explain policy v (needed p) (reason p) (explain p) limited p"
  show "?step = p \<or> (\<exists>r. ?step = add_reasons r p)
    \<or> (\<exists>n r. 0 < n \<and> n \<le> budget policy v p \<and> ?step = add_action (create_action n r) p)"
  proof (cases "0 < ?n")
    case True
    then have "0 < ?n \<and> ?n \<le> budget policy v p \<and> ?step = add_action (create_action ?n (reason p)) p"
      unfolding create_or_explain_def Let_def by simp
    then show ?thesis by blast
  next
    case False
    then show ?thesis unfolding create_or_explain_def Let_def
      by (cases "create_limit_reason policy (sv_available v) (sv_provisioning v) (fst p)") auto
  qed
qed

lemma create_phase_if: "(\<And>p. c p \<Longrightarrow> phase p = f p) \<Longrightarrow> (\<And>p. \<not> c p \<Longrightarrow> phase p = p) \<Longrightarrow> create_phase policy v f
  \<Longrightarrow> create_phase policy v phase"
  unfolding create_phase_def by metis

interpretation mnp: create_phase policy v "min_nodes_phase policy v" for policy v
  by (rule create_phase_if [where c = "\<lambda>_. sv_available v < min_nodes policy", OF _ _ create_or_explain_phase])
    (simp_all add: min_nodes_phase_def)

interpretation dfp: create_phase policy v "deficit_phase policy v needs c" for policy v needs c
  by (rule create_phase_if [where c = "\<lambda>_. needs_capacity needs c", OF _ _ create_or_explain_phase])
    (simp_all add: deficit_phase_def Let_def)

interpretation blp: create_phase policy v "backlog_phase policy demand v" for policy demand v
  by (rule create_phase_if [where c = "\<lambda>_. 0 < sv_pending_backlog v", OF _ _ create_or_explain_phase])
    (simp_all add: backlog_phase_def Let_def)

interpretation prp: create_phase policy v "pressure_phase policy signals v" for policy signals v
  by (rule create_phase_if [where c = "\<lambda>_. sv_pressure v \<and> \<not> sv_create_pressure v \<and> sv_ready v \<noteq> []", OF _ _ create_or_explain_phase])
    (auto simp: pressure_phase_def Let_def)

interpretation cpp: create_phase policy v "create_pressure_phase policy demand signals v needs" for policy demand signals v needs
  by (rule create_phase_if [where c = "\<lambda>_. sv_create_pressure v \<and> \<not> list_ex nd_is_idle (sv_ready v)", OF _ _ create_or_explain_phase])
    (auto simp: create_pressure_phase_def Let_def)

section \<open>The decision\<close>

lemma distinct_map_sort_key: "distinct (map f (sort_key k xs)) = distinct (map f xs)"
  by (simp add: distinct_map)

definition create_plan ::
  "ScalePolicy \<Rightarrow> SandboxDemand \<Rightarrow> LiveScaleSignals option \<Rightarrow> ScaleView \<Rightarrow> ScaleNeeds \<Rightarrow> ScaleCapacity \<Rightarrow> plan" where
  "create_plan policy demand signals v needs c =
     create_pressure_phase policy demand signals v needs (pressure_phase policy signals v
       (backlog_phase policy demand v (deficit_phase policy v needs c (min_nodes_phase policy v
         (opening_phase demand v needs)))))"

lemma same_stops_trans: "same_stops p q \<Longrightarrow> same_stops q r \<Longrightarrow> same_stops p r"
  by (simp add: same_stops_def)

lemma create_plan_stops: "same_stops (opening_phase demand v needs) (create_plan policy demand signals v needs c)"
  unfolding create_plan_def
  by (rule same_stops_trans [OF mnp.keeps_stops same_stops_trans [OF dfp.keeps_stops same_stops_trans
      [OF blp.keeps_stops same_stops_trans [OF prp.keeps_stops cpp.keeps_stops]]]])

lemma create_plan_cap: "cap_ok policy v (create_plan policy demand signals v needs c)"
proof -
  have "cap_ok policy v (opening_phase demand v needs)"
    by (simp add: cap_ok_def opening_phase_def planned_creates_def stop_action_def)
  then show ?thesis unfolding create_plan_def by (intro cpp.keeps_cap prp.keeps_cap blp.keeps_cap dfp.keeps_cap mnp.keeps_cap)
qed

lemma opening_stops:
  "planned_stop_job_ids (fst (opening_phase demand v needs))
     = map nd_job_id (sv_unreachable_stops v) @ map nd_job_id (sv_incompatible_stops v)"
  "planned_stops (fst (opening_phase demand v needs))
     = int (length (sv_unreachable_stops v)) + int (length (sv_incompatible_stops v))"
  by (simp_all add: opening_phase_def planned_stop_job_ids_def planned_stops_def stop_action_def)

text \<open>The idle workers the scale-down phase stops.\<close>

definition idle_stops :: "ScalePolicy \<Rightarrow> datetime \<Rightarrow> LiveScaleSignals option \<Rightarrow> ScaleView \<Rightarrow> ScaleNeeds \<Rightarrow> plan \<Rightarrow> SandboxNode list" where
  "idle_stops policy now signals v needs p =
     (if pressure_cooldown policy signals \<or> sv_total v - min_nodes policy \<le> 0
         \<or> max_stop_per_cycle policy - planned_stops (fst p) \<le> 0 then []
      else stop_candidates (sv_ready v) (policy\<lparr>scale_down_idle_seconds := sv_idle_seconds v\<rparr>) now (sn_desired needs)
             (min (sv_total v - min_nodes policy) (max_stop_per_cycle policy - planned_stops (fst p)))
             (sv_capacity v) (sn_requests needs))"

lemma scale_down_actions:
  "fst (scale_down_phase policy now signals v needs p) = fst p @
     (let ds = idle_stops policy now signals v needs p; js = map nd_job_id ds
      in if ds = [] then [] else [stop_action js (stop_reason (sv_ready v) policy (sn_desired needs) js)])"
  by (cases p) (auto simp: scale_down_phase_def idle_stops_def Let_def add_reasons_def add_action_def max_def)

lemma scale_down_planned:
  "planned_creates (fst (scale_down_phase policy now signals v needs p)) = planned_creates (fst p)"
  "planned_stop_job_ids (fst (scale_down_phase policy now signals v needs p))
     = planned_stop_job_ids (fst p) @ map nd_job_id (idle_stops policy now signals v needs p)"
  "planned_stops (fst (scale_down_phase policy now signals v needs p))
     = planned_stops (fst p) + int (length (idle_stops policy now signals v needs p))"
  by (simp_all add: scale_down_actions Let_def planned_creates_def planned_stop_job_ids_def planned_stops_def stop_action_def)

text \<open>The whole decision over the parts the properties need.\<close>

lemma evaluate_scale_parts:
  assumes "d = evaluate_scale parse nodes demand policy now signals"
    and "v = scale_view parse nodes demand policy now signals" "needs = scale_needs nodes demand policy now (sv_ready v)"
    and "drained_capacity parse nodes demand policy now (sv_capacity v) needs = (plan, released, c)"
    and "p = create_plan policy demand signals v needs c"
    and "quiet = (planned_creates (fst p) = 0 \<and> \<not> has_resources (sc_deficit c) \<and> sc_placement_nodes c = 0)"
    and "p' = (if quiet then scale_down_phase policy now signals v needs p else p)"
    and "plan' = (if quiet then select_phase parse nodes demand policy now signals v needs (fst p') released plan else plan)"
  shows "sd_actions d = fst p' \<and> sd_total_nodes d = sv_total v \<and> sd_unreachable_nodes d = sv_unreachable v
    \<and> sd_provisioning_nodes d = sv_provisioning v \<and> sd_desired_resources d = sn_desired needs
    \<and> sd_soft_drain_job_id d = sp_job_id plan' \<and> sd_soft_drain_selected d = sp_selected plan'
    \<and> sd_soft_drain_clear_job_ids d = sp_clear_job_ids plan'"
  unfolding assms(1) evaluate_scale_def Let_def assms(2) [symmetric] assms(3) [symmetric] assms(4) prod.case
    create_plan_def [symmetric] assms(5) [symmetric]
  unfolding assms(6-8) by simp

lemma decision_counts:
  "creates d = planned_creates (sd_actions d)" "stops d = planned_stop_job_ids (sd_actions d)"
  by (simp_all add: creates_def stops_def planned_creates_def planned_stop_job_ids_def)

lemma evaluate_scale_actions:
  fixes parse nodes demand policy now signals
  defines "d \<equiv> evaluate_scale parse nodes demand policy now signals"
    and "v \<equiv> scale_view parse nodes demand policy now signals"
  obtains needs p ds where "needs = scale_needs nodes demand policy now (sv_ready v)"
    "cap_ok policy v p" "creates d = planned_creates (fst p)"
    "planned_stops (fst p) = int (length (sv_unreachable_stops v)) + int (length (sv_incompatible_stops v))"
    "stops d = map nd_job_id (sv_unreachable_stops v) @ map nd_job_id (sv_incompatible_stops v) @ map nd_job_id ds"
    "ds = [] \<or> creates d = 0 \<and> ds = idle_stops policy now signals v needs p"
proof -
  define needs where "needs = scale_needs nodes demand policy now (sv_ready v)"
  obtain plan released c where c: "drained_capacity parse nodes demand policy now (sv_capacity v) needs = (plan, released, c)"
    by (rule prod_cases3)
  define p where "p = create_plan policy demand signals v needs c"
  define quiet where "quiet = (planned_creates (fst p) = 0 \<and> \<not> has_resources (sc_deficit c) \<and> sc_placement_nodes c = 0)"
  define p' where "p' = (if quiet then scale_down_phase policy now signals v needs p else p)"
  have acts: "sd_actions d = fst p'"
    using evaluate_scale_parts [OF meta_eq_to_obj_eq [OF d_def] meta_eq_to_obj_eq [OF v_def] needs_def c p_def quiet_def p'_def refl]
    by simp
  have cr: "creates d = planned_creates (fst p)" by (simp add: decision_counts acts p'_def scale_down_planned)
  note st = create_plan_stops [of demand v needs policy signals c, folded p_def, unfolded same_stops_def opening_stops]
  show ?thesis
  proof (rule that [of needs p "if quiet then idle_stops policy now signals v needs p else []"])
    show "cap_ok policy v p" unfolding p_def by (rule create_plan_cap)
    show "stops d = map nd_job_id (sv_unreachable_stops v) @ map nd_job_id (sv_incompatible_stops v)
        @ map nd_job_id (if quiet then idle_stops policy now signals v needs p else [])"
      using st by (simp add: decision_counts acts p'_def scale_down_planned)
  qed (use cr st quiet_def in \<open>auto simp: needs_def\<close>)
qed

lemma idle_stops_spec:
  "set (idle_stops policy now signals v needs p) \<subseteq> set (sv_ready v)"
  "distinct (sv_ready v) \<Longrightarrow> distinct (idle_stops policy now signals v needs p)"
  "\<forall>n \<in> set (idle_stops policy now signals v needs p). stoppable (policy\<lparr>scale_down_idle_seconds := sv_idle_seconds v\<rparr>) now n"
  "int (length (idle_stops policy now signals v needs p)) \<le> max 0 (max_stop_per_cycle policy - planned_stops (fst p))"
  "int (length (idle_stops policy now signals v needs p)) \<le> max 0 (sv_total v - min_nodes policy)"
proof -
  let ?pol = "policy\<lparr>scale_down_idle_seconds := sv_idle_seconds v\<rparr>"
  let ?k = "min (sv_total v - min_nodes policy) (max_stop_per_cycle policy - planned_stops (fst p))"
  from stop_loop_spec [of ?pol now "sn_desired needs" ?k "sn_requests needs" "sv_ready v" "[]" "reported_free_resources (sv_ready v)" "sv_capacity v"]
  obtain ds where ds: "stop_loop ?pol now (sn_desired needs) ?k (sn_requests needs) (sv_ready v) [] (reported_free_resources (sv_ready v)) (sv_capacity v) = ds"
    "set ds \<subseteq> set (sv_ready v)" "distinct (sv_ready v) \<longrightarrow> distinct ds" "\<forall>n \<in> set ds. stoppable ?pol now n"
    "int (length ds) \<le> max 0 ?k" by auto
  have "idle_stops policy now signals v needs p = [] \<or> idle_stops policy now signals v needs p = ds"
    by (simp add: idle_stops_def stop_candidates_def ds(1))
  with ds show "set (idle_stops policy now signals v needs p) \<subseteq> set (sv_ready v)"
    "distinct (sv_ready v) \<Longrightarrow> distinct (idle_stops policy now signals v needs p)"
    "\<forall>n \<in> set (idle_stops policy now signals v needs p). stoppable ?pol now n"
    "int (length (idle_stops policy now signals v needs p)) \<le> max 0 (max_stop_per_cycle policy - planned_stops (fst p))"
    "int (length (idle_stops policy now signals v needs p)) \<le> max 0 (sv_total v - min_nodes policy)"
    by (elim disjE; simp)+
qed

lemma view_stops:
  fixes parse nodes demand policy now signals
  defines "v \<equiv> scale_view parse nodes demand policy now signals"
  shows "int (length (sv_unreachable_stops v)) + int (length (sv_incompatible_stops v)) \<le> max 0 (max_stop_per_cycle policy)"
    and "n \<in> set (sv_unreachable_stops v) \<Longrightarrow> n \<in> set nodes \<and> unreachable_node_stop_ready n policy now"
    and "n \<in> set (sv_incompatible_stops v) \<Longrightarrow> n \<in> set nodes \<and> \<not> job_is_final (nd_job n)
      \<and> (\<not> nd_agent_version_compatible n \<or> retiring_reason parse (nd_heartbeat n) now (max_cpu_check_ms policy) \<noteq> None)
      \<and> (job_is_provisioning (nd_job n) \<and> \<not> nd_agent_version_compatible n
         \<or> job_is_running (nd_job n) \<and> nd_heartbeat_fresh n \<and> nd_is_idle n)"
    and "n \<in> set (sv_ready v) \<Longrightarrow> n \<in> set nodes \<and> counts_as_pool_node n \<and> nd_is_schedulable n
      \<and> retiring_reason parse (nd_heartbeat n) now (max_cpu_check_ms policy) = None"
    and "distinct (map nd_job_id nodes) \<Longrightarrow> distinct (map nd_job_id (sv_unreachable_stops v) @ map nd_job_id (sv_incompatible_stops v))"
    and "distinct (map nd_job_id nodes) \<Longrightarrow> distinct (map nd_job_id (sv_ready v))"
proof -
  let ?u = "sv_unreachable_stops v" and ?i = "sv_incompatible_stops v"
  have u: "?u = py_prefix (max 0 (max_stop_per_cycle policy)) (unreachable_stop_candidates nodes policy now)"
    and i: "?i = py_prefix (max 0 (max 0 (max_stop_per_cycle policy) - int (length ?u)))
      (incompatible_stop_candidates parse (filter (\<lambda>n. nd_job_id n \<notin> set (map nd_job_id ?u)) nodes) now (max_cpu_check_ms policy))"
    by (simp_all add: v_def scale_view_def Let_def)
  have lu: "int (length ?u) \<le> max 0 (max_stop_per_cycle policy)" unfolding u by (rule length_py_prefix) simp
  moreover have "int (length ?i) \<le> max 0 (max 0 (max_stop_per_cycle policy) - int (length ?u))"
    by (subst i) (rule length_py_prefix, simp)
  ultimately show "int (length ?u) + int (length ?i) \<le> max 0 (max_stop_per_cycle policy)" by linarith
  show "n \<in> set ?u \<Longrightarrow> n \<in> set nodes \<and> unreachable_node_stop_ready n policy now"
    unfolding u using set_py_prefix by (fastforce simp: unreachable_stop_candidates_def)
  have si: "set ?i \<subseteq> set (incompatible_stop_candidates parse (filter (\<lambda>n. nd_job_id n \<notin> set (map nd_job_id ?u)) nodes) now (max_cpu_check_ms policy))"
    by (subst i) (rule set_py_prefix)
  then show "n \<in> set ?i \<Longrightarrow> n \<in> set nodes \<and> \<not> job_is_final (nd_job n)
      \<and> (\<not> nd_agent_version_compatible n \<or> retiring_reason parse (nd_heartbeat n) now (max_cpu_check_ms policy) \<noteq> None)
      \<and> (job_is_provisioning (nd_job n) \<and> \<not> nd_agent_version_compatible n
         \<or> job_is_running (nd_job n) \<and> nd_heartbeat_fresh n \<and> nd_is_idle n)"
    by (fastforce simp: incompatible_stop_candidates_def Let_def split: if_splits)
  show "n \<in> set (sv_ready v) \<Longrightarrow> n \<in> set nodes \<and> counts_as_pool_node n \<and> nd_is_schedulable n
      \<and> retiring_reason parse (nd_heartbeat n) now (max_cpu_check_ms policy) = None"
    and "distinct (map nd_job_id nodes) \<Longrightarrow> distinct (map nd_job_id (sv_ready v))"
    by (simp_all add: v_def scale_view_def Let_def distinct_map_filter)
  assume d: "distinct (map nd_job_id nodes)"
  have "distinct (map nd_job_id ?u)"
    unfolding u by (rule distinct_py_prefix) (simp add: unreachable_stop_candidates_def distinct_map_sort_key distinct_map_filter d)
  moreover have "distinct (map nd_job_id ?i)"
    by (subst i) (rule distinct_py_prefix, simp add: incompatible_stop_candidates_def distinct_map_sort_key distinct_map_filter d)
  moreover have "nd_job_id ` set ?i \<inter> nd_job_id ` set ?u = {}"
    using si by (auto simp: incompatible_stop_candidates_def)
  ultimately show "distinct (map nd_job_id ?u @ map nd_job_id ?i)" by auto
qed

end
