(* ===== verification/Scale_Decision.thy ===== *)
theory Scale_Decision
  imports Scale_Policy
begin

text \<open>
  The properties of the scale decision \<open>evaluate_scale\<close> (\<open>src/ucloud_sandboxes/policy.py\<close>): the
  limits of one cycle, why a worker may be stopped, what the stops leave for the demand, and the
  single slot for emptying a worker.
\<close>

section \<open>Ready workers are stopped only when idle\<close>

lemma ready_not_stop_ready: "nd_is_schedulable n \<Longrightarrow> \<not> unreachable_node_stop_ready n policy now"
  by (auto simp: nd_is_schedulable_def nd_is_ready_def unreachable_node_stop_ready_def Let_def)

lemma ready_compatible: "nd_is_schedulable n \<Longrightarrow> nd_agent_version_compatible n"
  by (simp add: nd_is_schedulable_def)

text \<open>No unreachable or incompatible stop is a ready worker.\<close>

lemma forced_stops_not_ready:
  fixes parse nodes demand policy now signals
  defines "v \<equiv> scale_view parse nodes demand policy now signals"
  assumes "distinct (map nd_job_id nodes)" "n \<in> set (sv_unreachable_stops v) \<union> set (sv_incompatible_stops v)"
    and "m \<in> set nodes" "nd_is_schedulable m"
    and "retiring_reason parse (nd_heartbeat m) now (max_cpu_check_ms policy) = None"
  shows "nd_job_id n \<noteq> nd_job_id m"
proof
  assume eq: "nd_job_id n = nd_job_id m"
  note vs = view_stops(2,3) [of n parse nodes demand policy now signals, folded v_def]
  have "n \<in> set nodes" using assms(3) vs by blast
  with eq assms(2,4) have "n = m" by (auto simp: distinct_map dest: inj_onD)
  with assms(3,5,6) vs show False
    using ready_not_stop_ready [OF assms(5), of policy now] ready_compatible [OF assms(5)] by auto
qed

lemma without_forced:
  assumes "\<forall>n \<in> set ns. nd_job_id n \<notin> A"
  shows "without (A \<union> B) ns = without B ns"
  using assms by (auto simp: without_def intro: filter_cong)

text \<open>The workers that serve demand, as \<open>evaluate_scale\<close> selects them.\<close>

definition scale_ready :: "(string \<Rightarrow> datetime option) \<Rightarrow> SandboxNode list \<Rightarrow> ScalePolicy \<Rightarrow> datetime \<Rightarrow> SandboxNode list" where
  "scale_ready parse nodes policy now = filter (\<lambda>n. counts_as_pool_node n \<and> nd_is_schedulable n
     \<and> retiring_reason parse (nd_heartbeat n) now (max_cpu_check_ms policy) = None) nodes"

lemma sv_ready_eq: "sv_ready (scale_view parse nodes demand policy now signals) = scale_ready parse nodes policy now"
  by (auto simp: scale_view_def scale_ready_def Let_def nd_is_schedulable_def intro!: filter_cong)

lemma exact_capacity:
  "exact_nodes (without S (sv_capacity (scale_view parse nodes demand policy now signals)))
     = filter reports_resources (without S (scale_ready parse nodes policy now))"
  by (auto simp: exact_nodes_def without_def scale_view_def scale_ready_def Let_def nd_is_schedulable_def intro!: filter_cong)

lemma unplaced_idle_update:
  "nodes_for_unplaced_requests nodes requests (policy\<lparr>scale_down_idle_seconds := x\<rparr>) now
     = nodes_for_unplaced_requests nodes requests policy now"
proof -
  have eq: "projected_provisioning_resources n (policy\<lparr>scale_down_idle_seconds := x\<rparr>) now m
      = projected_provisioning_resources n policy now m" for n m
    unfolding projected_provisioning_resources_def provisioning_weight_def estimated_node_resources_def by simp
  have node: "default_node_resources (policy\<lparr>scale_down_idle_seconds := x\<rparr>) = default_node_resources policy" by simp
  show ?thesis unfolding nodes_for_unplaced_requests_def initial_bins_def eq node by simp
qed

lemma idle_stops_keep_demand:
  assumes "ds = idle_stops policy now signals v needs p" "ds \<noteq> []"
    and "distinct (map nd_job_id (sv_ready v))" "\<forall>n \<in> set (sv_ready v). memory_sane n"
  shows "sn_desired needs \<le> reported_free_resources (without (nd_job_id ` set ds) (sv_ready v))"
    and "nodes_for_unplaced_requests (exact_nodes (without (nd_job_id ` set ds) (sv_capacity v))) (sn_requests needs) policy now = 0"
proof -
  have "stop_candidates (sv_ready v) (policy\<lparr>scale_down_idle_seconds := sv_idle_seconds v\<rparr>) now (sn_desired needs)
      (min (sv_total v - min_nodes policy) (max_stop_per_cycle policy - planned_stops (fst p)))
      (sv_capacity v) (sn_requests needs) = ds"
    using assms(1,2) by (simp add: idle_stops_def split: if_splits)
  note r = stop_candidates_keep_demand [OF this assms(2-4)]
  show "sn_desired needs \<le> reported_free_resources (without (nd_job_id ` set ds) (sv_ready v))" by (rule r(1))
  show "nodes_for_unplaced_requests (exact_nodes (without (nd_job_id ` set ds) (sv_capacity v))) (sn_requests needs) policy now = 0"
    using r(2) by (simp add: unplaced_idle_update)
qed

definition schedulable_requests :: "SandboxDemand \<Rightarrow> ScalePolicy \<Rightarrow> SandboxPlacementRequest list" where
  "schedulable_requests demand policy = filter (\<lambda>r. fits_within (pr_resources r) (default_node_resources policy))
     (dm_placement_requests demand @ dm_prepared_placement_requests demand)"

text \<open>Releasing the named worker, and merging a re-validated plan with a new selection, keep the
  single slot.\<close>

lemma released_single_slot:
  assumes "single_slot nodes plan" "sp_selected plan \<Longrightarrow> sp_retiring plan" "sp_job_id plan \<noteq> []" "\<not> sp_retiring plan" "ids_ok nodes"
  shows "single_slot nodes \<lparr>sp_job_id = [], sp_selected = False, sp_clear_job_ids = sp_clear_job_ids plan @ [sp_job_id plan],
     sp_reason = r, sp_retiring = False\<rparr>"
proof -
  obtain n where n: "n \<in> set (drain_pool nodes)" "nd_job_id n = sp_job_id plan" "is_soft_drained (nd_heartbeat n)"
    using assms(1-4) unfolding single_slot_def by blast
  then have "sp_job_id plan \<in> nd_job_id ` set (labelled nodes)" by (intro image_eqI [of _ _ n]) (simp_all add: labelled_def)
  moreover have "[] \<notin> nd_job_id ` set (labelled nodes)" using assms(5) by (auto simp: ids_ok_def drain_group_defs)
  ultimately show ?thesis using assms(1) unfolding single_slot_def by auto
qed

lemma drained_capacity_slot:
  assumes "drained_capacity parse nodes demand policy now capacity needs = (plan, released, c)" "ids_ok nodes"
  shows "single_slot nodes plan \<and> (\<not> released \<longrightarrow>
    plan = plan_soft_drain parse nodes policy now (sn_desired needs) (sn_requests needs) (dm_pending_count demand) False [])"
proof -
  define first where "first = plan_soft_drain parse nodes policy now (sn_desired needs) (sn_requests needs) (dm_pending_count demand) False []"
  have slot: "single_slot nodes first" unfolding first_def by (rule plan_single_slot [OF assms(2)])
  have sel: "sp_selected first \<Longrightarrow> sp_retiring first" unfolding first_def by (rule plan_no_select)
  note eq = assms(1) [unfolded drained_capacity_def Let_def first_def [symmetric]]
  show ?thesis
  proof (cases "sp_job_id first \<noteq> [] \<and> \<not> sp_retiring first
      \<and> needs_capacity needs (scale_up_capacity capacity needs policy now (sp_job_id first))")
    case True
    then show ?thesis using eq released_single_slot [OF slot sel _ _ assms(2)] by auto
  next
    case False
    then have "plan = first" using eq by (auto split: if_splits)
    then show ?thesis using slot unfolding first_def by simp
  qed
qed

lemma merged_single_slot:
  assumes "ids_ok nodes" "single_slot nodes plan" "single_slot nodes new" "sp_job_id plan = []"
    and "sp_job_id new \<noteq> [] \<Longrightarrow> sp_selected new"
  shows "single_slot nodes (new\<lparr>sp_clear_job_ids := rev (remdups (rev (sp_clear_job_ids plan @ sp_clear_job_ids new)))\<rparr>)"
proof -
  have lab: "[] \<notin> nd_job_id ` set (labelled nodes)" using assms(1) by (auto simp: ids_ok_def drain_group_defs)
  have "sp_job_id new \<notin> nd_job_id ` set (labelled nodes)"
  proof
    assume a: "sp_job_id new \<in> nd_job_id ` set (labelled nodes)"
    then have "sp_job_id new \<noteq> []" using lab by auto
    with assms(3,5) obtain n where n: "n \<in> set (drain_pool nodes)" "nd_job_id n = sp_job_id new" "\<not> is_soft_drained (nd_heartbeat n)"
      unfolding single_slot_def by auto
    from a obtain m where m: "m \<in> set (labelled nodes)" "nd_job_id m = sp_job_id new" by auto
    have "inj_on nd_job_id (set nodes)" using assms(1) by (simp add: ids_ok_def distinct_map)
    moreover have "n \<in> set nodes" "m \<in> set nodes" using n(1) m(1) by (simp_all add: labelled_def drain_pool_def)
    ultimately have "m = n" using n(2) m(2) by (metis inj_onD)
    with n(3) m(1) show False by (simp add: labelled_def)
  qed
  then show ?thesis using assms(2-4) lab unfolding single_slot_def by auto
qed

section \<open>Properties\<close>

text \<open>C11. The limits of one cycle hold whatever the pool, the demand and the signals are: the planned
  creates are within \<open>max_create_per_cycle\<close>, they never take the workers that are not unreachable
  over \<open>max_nodes\<close> or the workers in provisioning over \<open>max_provisioning_nodes\<close>, and the planned
  stops are within \<open>max_stop_per_cycle\<close>.\<close>

theorem scale_limits:
  assumes "d = evaluate_scale parse nodes demand policy now signals"
  shows "0 \<le> creates d \<and> creates d \<le> max 0 (max_create_per_cycle policy)
    \<and> (0 < creates d \<longrightarrow> max 0 (sd_total_nodes d - sd_unreachable_nodes d) + creates d \<le> max_nodes policy
        \<and> (0 < max_provisioning_nodes policy \<longrightarrow> sd_provisioning_nodes d + creates d \<le> max_provisioning_nodes policy))
    \<and> int (length (stops d)) \<le> max 0 (max_stop_per_cycle policy)"
proof -
  let ?v = "scale_view parse nodes demand policy now signals"
  obtain needs p ds where p: "cap_ok policy ?v p" "creates d = planned_creates (fst p)"
    "planned_stops (fst p) = int (length (sv_unreachable_stops ?v)) + int (length (sv_incompatible_stops ?v))"
    "stops d = map nd_job_id (sv_unreachable_stops ?v) @ map nd_job_id (sv_incompatible_stops ?v) @ map nd_job_id ds"
    "ds = [] \<or> creates d = 0 \<and> ds = idle_stops policy now signals ?v needs p"
    unfolding assms by (rule evaluate_scale_actions)
  have d: "sd_total_nodes d = sv_total ?v" "sd_unreachable_nodes d = sv_unreachable ?v" "sd_provisioning_nodes d = sv_provisioning ?v"
    unfolding assms evaluate_scale_def Let_def by (simp_all split: prod.split)
  have av: "sv_available ?v = max 0 (sv_total ?v - sv_unreachable ?v)"
    unfolding scale_view_def Let_def ScaleView.simps by (rule refl)
  have "int (length ds) \<le> max 0 (max_stop_per_cycle policy - planned_stops (fst p))"
    using p(5) idle_stops_spec(4) [where policy = policy and now = now and signals = signals and v = ?v and needs = needs and p = p] by auto
  then have "int (length (stops d)) \<le> max 0 (max_stop_per_cycle policy)"
    using p(3,4) view_stops(1) [of parse nodes demand policy now signals] by simp
  then show ?thesis using p(1,2) unfolding cap_ok_def d av by auto
qed


text \<open>C3. Stopping an idle worker never takes capacity the demand needs: in a decision that stops a
  ready worker, the ready workers that stay report at least the desired resources, and every
  requested sandbox that fits a worker's shape has a place on one of them, without promising any
  disk twice.\<close>

theorem scale_stops_leave_demand:
  assumes "d = evaluate_scale parse nodes demand policy now signals"
    and "distinct (map nd_job_id nodes)" "\<forall>n \<in> set nodes. memory_sane n"
    and "n \<in> set (scale_ready parse nodes policy now)" "nd_job_id n \<in> set (stops d)"
    and "left = without (set (stops d)) (scale_ready parse nodes policy now)"
  shows "sd_desired_resources d \<le> reported_free_resources left
    \<and> (\<exists>rs share. mset rs = mset (schedulable_requests demand policy)
         \<and> assignment rs (initial_bins (filter reports_resources left) policy now) share)"
proof -
  let ?v = "scale_view parse nodes demand policy now signals"
  obtain needs p ds where needs: "needs = scale_needs nodes demand policy now (sv_ready ?v)"
    and st: "stops d = map nd_job_id (sv_unreachable_stops ?v) @ map nd_job_id (sv_incompatible_stops ?v) @ map nd_job_id ds"
    and ds: "ds = [] \<or> creates d = 0 \<and> ds = idle_stops policy now signals ?v needs p"
    unfolding assms(1) by (rule evaluate_scale_actions)
  let ?A = "nd_job_id ` (set (sv_unreachable_stops ?v) \<union> set (sv_incompatible_stops ?v))"
  have A: "\<forall>m \<in> set (scale_ready parse nodes policy now). nd_job_id m \<notin> ?A"
    using forced_stops_not_ready [OF assms(2)] by (fastforce simp: scale_ready_def)
  have set: "set (stops d) = ?A \<union> nd_job_id ` set ds" unfolding st by auto
  have ne: "ds \<noteq> []" using A assms(4,5) unfolding set by auto
  then have ids: "ds = idle_stops policy now signals ?v needs p" using ds by blast
  have left: "left = without (nd_job_id ` set ds) (sv_ready ?v)"
    unfolding assms(6) set sv_ready_eq by (rule without_forced [OF A])
  note keep = idle_stops_keep_demand [OF ids ne view_stops(6) [OF assms(2)]]
  have sane: "\<forall>n \<in> set (sv_ready ?v). memory_sane n" using assms(3) by (auto simp: sv_ready_eq scale_ready_def)
  have "sd_desired_resources d = sn_desired needs"
    unfolding assms(1) needs evaluate_scale_def Let_def by (simp split: prod.split)
  moreover have "nodes_for_unplaced_requests (filter reports_resources left) (schedulable_requests demand policy) policy now = 0"
    using keep(2) [OF sane] unfolding exact_capacity left sv_ready_eq
    by (simp add: needs scale_needs_def Let_def schedulable_requests_def)
  ultimately show ?thesis
    using keep(1) [OF sane] packing_zero [of "filter reports_resources left" "schedulable_requests demand policy" policy now]
    unfolding left by simp
qed

text \<open>C31. At most one worker is being emptied: a decision clears the label of every labelled worker of
  the pool except the one it names, it never names and clears the same worker, and it marks the
  named one as newly selected exactly when it has no label yet.\<close>

theorem soft_drain_single_slot:
  assumes "d = evaluate_scale parse nodes demand policy now signals" "ids_ok nodes"
  shows "set (sd_soft_drain_clear_job_ids d) = nd_job_id ` set (labelled nodes) - {sd_soft_drain_job_id d}
    \<and> (sd_soft_drain_job_id d \<noteq> [] \<longrightarrow> (\<exists>n \<in> set (drain_pool nodes). nd_job_id n = sd_soft_drain_job_id d
         \<and> sd_soft_drain_selected d = (\<not> is_soft_drained (nd_heartbeat n))))"
proof -
  define v where "v = scale_view parse nodes demand policy now signals"
  define needs where "needs = scale_needs nodes demand policy now (sv_ready v)"
  let ?plan = "plan_soft_drain parse nodes policy now (sn_desired needs) (sn_requests needs) (dm_pending_count demand)"
  obtain plan released c where c: "drained_capacity parse nodes demand policy now (sv_capacity v) needs = (plan, released, c)"
    by (rule prod_cases3)
  define p where "p = create_plan policy demand signals v needs c"
  define quiet where "quiet = (planned_creates (fst p) = 0 \<and> \<not> has_resources (sc_deficit c) \<and> sc_placement_nodes c = 0)"
  define p' where "p' = (if quiet then scale_down_phase policy now signals v needs p else p)"
  define plan' where "plan' = (if quiet then select_phase parse nodes demand policy now signals v needs (fst p') released plan else plan)"
  note d = evaluate_scale_parts [OF assms(1) v_def needs_def c p_def quiet_def p'_def plan'_def]
  note slot = plan_single_slot [OF assms(2), of parse policy now "sn_desired needs" "sn_requests needs" "dm_pending_count demand"]
  note first = drained_capacity_slot [OF c assms(2)]
  have "single_slot nodes plan'"
  proof (cases "quiet \<and> plan' \<noteq> plan")
    case True
    then have sel: "sp_job_id plan = []" "\<not> released" "plan' = (?plan True (planned_stop_job_ids (fst p')))\<lparr>sp_clear_job_ids :=
        rev (remdups (rev (sp_clear_job_ids plan @ sp_clear_job_ids (?plan True (planned_stop_job_ids (fst p'))))))\<rparr>"
      unfolding plan'_def select_phase_def Let_def by (auto split: if_splits)
    then have plan: "plan = ?plan False []" using first by blast
    let ?new = "?plan True (planned_stop_job_ids (fst p'))"
    have new: "sp_job_id ?new \<noteq> [] \<Longrightarrow> sp_selected ?new" using plan_newly_selected sel(1) plan by metis
    show ?thesis unfolding sel(3)
      by (rule merged_single_slot [OF assms(2) _ slot sel(1) new]) (use first in blast)
  qed (use first plan'_def in auto)
  then show ?thesis using d unfolding single_slot_def by simp
qed

section \<open>Witnesses\<close>

definition idle_pool :: "SandboxNode list" where
  "idle_pool = [ready_worker ''j1'' 0, ready_worker ''j2'' 0]"

definition busy_worker :: "string \<Rightarrow> SandboxNode" where
  "busy_worker job_id = (ready_worker job_id 1)\<lparr>nd_heartbeat :=
     map_option (hb_runtime_metrics_update (\<lambda>_. Some ((new_metrics 3600000000)\<lparr>memory_total_mb := 8192,
        memory_available_mb := 8000\<rparr>))) (nd_heartbeat (ready_worker job_id 1))\<rparr>"

definition busy_pool :: "SandboxNode list" where
  "busy_pool = [busy_worker ''j1'', busy_worker ''j2'']"

lemma idle_pool_stops:
  "stops (evaluate_scale (\<lambda>_. None) idle_pool new_demand default_policy 3600000000 None) = [''j1'']"
  by code_simp

theorem scale_limits_witness:
  "0 < creates (evaluate_scale (\<lambda>_. None) [] new_demand (default_policy\<lparr>min_nodes := 2\<rparr>) 3600000000 None)
   \<and> creates (evaluate_scale (\<lambda>_. None) [] new_demand (default_policy\<lparr>min_nodes := 2\<rparr>) 3600000000 None) \<le> 4"
proof -
  have "creates (evaluate_scale (\<lambda>_. None) [] new_demand (default_policy\<lparr>min_nodes := 2\<rparr>) 3600000000 None) = 2" by code_simp
  with scale_limits [OF refl, of "\<lambda>_. None" "[]" new_demand "default_policy\<lparr>min_nodes := 2\<rparr>" 3600000000 None]
  show ?thesis by (simp add: default_policy_def)
qed

lemma idle_pool_ok: "distinct (map nd_job_id idle_pool)" "\<forall>n \<in> set idle_pool. memory_sane n"
  using ready_workers_ok [of 0 0] by (simp_all add: ids_ok_def idle_pool_def)


theorem scale_stops_leave_demand_witness:
  "sd_desired_resources (evaluate_scale (\<lambda>_. None) idle_pool new_demand default_policy 3600000000 None)
     \<le> reported_free_resources (without {''j1''} (scale_ready (\<lambda>_. None) idle_pool default_policy 3600000000))"
proof -
  let ?n = "ready_worker ''j1'' 0"
  have "counts_as_pool_node ?n" "nd_is_schedulable ?n"
    "retiring_reason (\<lambda>_. None) (nd_heartbeat ?n) 3600000000 (max_cpu_check_ms default_policy) = None" by code_simp+
  then have r: "?n \<in> set (scale_ready (\<lambda>_. None) idle_pool default_policy 3600000000)"
    by (simp add: scale_ready_def idle_pool_def)
  have j: "nd_job_id ?n \<in> set (stops (evaluate_scale (\<lambda>_. None) idle_pool new_demand default_policy 3600000000 None))"
    unfolding idle_pool_stops by (simp add: nd_job_id_def ready_worker_defs)
  from scale_stops_leave_demand [OF refl idle_pool_ok r j refl] show ?thesis unfolding idle_pool_stops by simp
qed

theorem soft_drain_single_slot_witness:
  "sd_soft_drain_clear_job_ids (evaluate_scale (\<lambda>_. None) busy_pool new_demand drain_policy 3600000000 None) = []
   \<and> sd_soft_drain_selected (evaluate_scale (\<lambda>_. None) busy_pool new_demand drain_policy 3600000000 None)"
proof -
  have j: "sd_soft_drain_job_id (evaluate_scale (\<lambda>_. None) busy_pool new_demand drain_policy 3600000000 None) = ''j2''" by code_simp
  have l: "labelled busy_pool = []" "\<forall>n \<in> set (drain_pool busy_pool). \<not> is_soft_drained (nd_heartbeat n)"
    by (simp_all add: busy_pool_def busy_worker_def drain_group_defs is_soft_drained_def ready_worker_defs truthy_str_def)
  have "ids_ok busy_pool" using ready_workers_ok(1) [of 1 1] by (simp add: busy_pool_def busy_worker_def ids_ok_def nd_job_id_def)
  from soft_drain_single_slot [OF refl this, of "\<lambda>_. None" new_demand drain_policy 3600000000 None] j l
  show ?thesis by auto
qed

section \<open>The floor of a scale-down\<close>

text \<open>The stops that do not come from the scale-down phase.\<close>

definition forced_stops :: "(string \<Rightarrow> datetime option) \<Rightarrow> SandboxNode list \<Rightarrow> SandboxDemand \<Rightarrow> ScalePolicy \<Rightarrow> datetime
   \<Rightarrow> LiveScaleSignals option \<Rightarrow> string list" where
  "forced_stops parse nodes demand policy now signals =
     (let v = scale_view parse nodes demand policy now signals
      in map nd_job_id (sv_unreachable_stops v) @ map nd_job_id (sv_incompatible_stops v))"

text \<open>C32. How far one decision can shrink the pool: the scale-down phase takes it no lower than
  \<open>min_nodes\<close>, and the stops of unreachable and incompatible workers come on top, because that
  phase compares the whole pool with the minimum and does not deduct them. The bound is sharp: in
  the witness a pool of three workers with a minimum of two is left with one.\<close>

theorem scale_down_floor:
  assumes "d = evaluate_scale parse nodes demand policy now signals"
    and "forced = forced_stops parse nodes demand policy now signals"
  shows "min (sd_total_nodes d) (min_nodes policy) - int (length forced) \<le> sd_total_nodes d - int (length (stops d))
    \<and> (\<exists>idle. stops d = forced @ idle)"
proof -
  let ?v = "scale_view parse nodes demand policy now signals"
  obtain needs p ds where
    "stops d = map nd_job_id (sv_unreachable_stops ?v) @ map nd_job_id (sv_incompatible_stops ?v) @ map nd_job_id ds"
    "ds = [] \<or> creates d = 0 \<and> ds = idle_stops policy now signals ?v needs p"
    unfolding assms(1) by (rule evaluate_scale_actions)
  moreover have "sd_total_nodes d = sv_total ?v"
    unfolding assms(1) evaluate_scale_def Let_def by (simp split: prod.split)
  ultimately show ?thesis
    using idle_stops_spec(5) [where policy = policy and now = now and signals = signals and v = ?v and needs = needs and p = p]
    by (auto simp: assms(2) forced_stops_def Let_def)
qed

theorem scale_down_floor_witness:
  "\<exists>nodes policy. 3 = int (length nodes) \<and> min_nodes policy = 2
     \<and> 3 - int (length (stops (evaluate_scale (\<lambda>_. None) nodes new_demand policy 3600000000 None))) < 2
     \<and> 2 - int (length (forced_stops (\<lambda>_. None) nodes new_demand policy 3600000000 None))
         \<le> 3 - int (length (stops (evaluate_scale (\<lambda>_. None) nodes new_demand policy 3600000000 None)))"
proof -
  let ?nodes = "[ready_worker ''j1'' 0, ready_worker ''j2'' 0, (ready_worker ''j3'' 0)\<lparr>nd_agent_version_compatible := False\<rparr>]"
  let ?policy = "default_policy\<lparr>min_nodes := 2, max_stop_per_cycle := 2\<rparr>"
  let ?d = "evaluate_scale (\<lambda>_. None) ?nodes new_demand ?policy 3600000000 None"
  have st: "stops ?d = [''j3'', ''j1'']" "sd_total_nodes ?d = 3" by code_simp+
  have m: "min_nodes ?policy = 2" by simp
  from scale_down_floor [OF refl refl, of "\<lambda>_. None" ?nodes new_demand ?policy 3600000000 None]
  have "2 - int (length (forced_stops (\<lambda>_. None) ?nodes new_demand ?policy 3600000000 None)) \<le> 3 - int (length (stops ?d))"
    unfolding st(2) m by simp
  then show ?thesis using st(1) by (intro exI [of _ ?nodes] exI [of _ ?policy]) simp
qed

end
