(* ===== verification/Wire.thy ===== *)
theory Wire
  imports Models
begin

text \<open>
  The wire forms of \<open>src/ucloud_sandboxes/models.py\<close>: what \<open>from_dict\<close> accepts of a decoded JSON
  document and what \<open>to_dict\<close> writes, for resource quantities, memory observations and inventory
  entries. \<open>parse\<close> stands for \<open>parse_iso_datetime\<close>; \<open>repr\<close> for \<open>str\<close> of a float, list or dict,
  which only a malformed id reaches. The lemmas show that decoding gives well-formed entries and
  raises on a number that has no finite conversion only, and that decoding what was encoded gives the entry back.
\<close>

section \<open>Python conversions of JSON values\<close>

definition is_digit :: "char \<Rightarrow> bool" where
  "is_digit c = (let n = of_char c :: nat in 48 \<le> n \<and> n \<le> 57)"

definition is_lower_hex :: "char \<Rightarrow> bool" where
  "is_lower_hex c = (let n = of_char c :: nat in 48 \<le> n \<and> n \<le> 57 \<or> 97 \<le> n \<and> n \<le> 102)"

definition is_alnum :: "char \<Rightarrow> bool" where
  "is_alnum c = (let n = of_char c :: nat in 48 \<le> n \<and> n \<le> 57 \<or> 65 \<le> n \<and> n \<le> 90 \<or> 97 \<le> n \<and> n \<le> 122)"

text \<open>The full matches \<open>[A-Za-z0-9][A-Za-z0-9...]{0,n}\<close> and \<open>[0-9a-f]{64}\<close>.\<close>

fun matches_id :: "string \<Rightarrow> nat \<Rightarrow> string \<Rightarrow> bool" where
  "matches_id extra n [] = False"
| "matches_id extra n (c # cs) =
     (is_alnum c \<and> length cs \<le> n \<and> list_all (\<lambda>c. is_alnum c \<or> c \<in> set extra) cs)"

definition matches_operation_id :: "string \<Rightarrow> bool" where
  "matches_operation_id = matches_id ''_.:-'' 127"

definition matches_hex64 :: "string \<Rightarrow> bool" where
  "matches_hex64 s \<longleftrightarrow> length s = 64 \<and> list_all is_lower_hex s"

fun split_on :: "char \<Rightarrow> string \<Rightarrow> string list" where
  "split_on sep [] = [[]]"
| "split_on sep (c # cs) =
     (if c = sep then [] # split_on sep cs
      else (case split_on sep cs of [] \<Rightarrow> [[c]] | p # ps \<Rightarrow> (c # p) # ps))"

text \<open>\<open>int(s)\<close> of a text: blanks around it, a sign, digits with single underscores between them, and no
  more digits than the interpreter converts.\<close>

definition INT_MAX_STR_DIGITS :: nat where
  "INT_MAX_STR_DIGITS = 4300"

definition parse_digits :: "string \<Rightarrow> int option" where
  "parse_digits s =
     (let parts = split_on (CHR ''_'') s
      in if list_all (\<lambda>p. p \<noteq> [] \<and> list_all is_digit p) parts \<and> length (concat parts) \<le> INT_MAX_STR_DIGITS
         then Some (int (nat_str (concat parts))) else None)"

definition parse_int :: "string \<Rightarrow> int option" where
  "parse_int s =
     (case str_strip s of
        [] \<Rightarrow> None
      | c # cs \<Rightarrow>
          if c = CHR ''-'' then map_option uminus (parse_digits cs)
          else if c = CHR ''+'' then parse_digits cs else parse_digits (c # cs))"

text \<open>What a conversion does: a value, a \<open>TypeError\<close> or \<open>ValueError\<close>, or an \<open>OverflowError\<close>.\<close>

datatype 'a conversion = Converted 'a | Inconvertible | Overflowed

fun json_int :: "json \<Rightarrow> int conversion" where
  "json_int (JInt i) = Converted i"
| "json_int (JFloat r) = Converted (py_int r)"
| "json_int JPosInf = Overflowed"
| "json_int JNegInf = Overflowed"
| "json_int (JStr s) = (case parse_int s of None \<Rightarrow> Inconvertible | Some i \<Rightarrow> Converted i)"
| "json_int (JBool b) = Converted (if b then 1 else 0)"
| "json_int _ = Inconvertible"

text \<open>\<open>float(n)\<close> of an int: past the largest double and half of its last place there is no value.\<close>

definition float_fits :: "int \<Rightarrow> bool" where
  "float_fits n \<longleftrightarrow> \<bar>n\<bar> < 2 ^ 1024 - 2 ^ 970"

fun json_truthy :: "json \<Rightarrow> bool" where
  "json_truthy JNull = False"
| "json_truthy (JBool b) = b"
| "json_truthy (JInt i) = (i \<noteq> 0)"
| "json_truthy (JFloat r) = (r \<noteq> 0)"
| "json_truthy JPosInf = True"
| "json_truthy JNegInf = True"
| "json_truthy JNaN = True"
| "json_truthy (JStr s) = (s \<noteq> [])"
| "json_truthy (JList l) = (l \<noteq> [])"
| "json_truthy (JObj d) = (d \<noteq> [])"

fun py_str :: "(json \<Rightarrow> string) \<Rightarrow> json \<Rightarrow> string" where
  "py_str repr (JStr s) = s"
| "py_str repr (JInt i) = str_int i"
| "py_str repr (JBool b) = (if b then ''True'' else ''False'')"
| "py_str repr JNull = ''None''"
| "py_str repr v = repr v"

text \<open>The values \<open>isinstance\<close> checks accept: a finite \<open>float\<close> of an int or float that is no
  bool, an int that is no bool, a string, an object.\<close>

fun as_finite :: "json option \<Rightarrow> rat conversion" where
  "as_finite (Some (JInt i)) = (if float_fits i then Converted (of_int i) else Overflowed)"
| "as_finite (Some (JFloat r)) = Converted r"
| "as_finite _ = Inconvertible"

fun as_int :: "json option \<Rightarrow> int option" where
  "as_int (Some (JInt i)) = Some i"
| "as_int _ = None"

fun as_str :: "json option \<Rightarrow> string option" where
  "as_str (Some (JStr s)) = Some s"
| "as_str _ = None"

fun as_obj :: "json option \<Rightarrow> (string, json) dict option" where
  "as_obj (Some (JObj d)) = Some d"
| "as_obj _ = None"

text \<open>\<open>str(d.get(k) or "")\<close>.\<close>

definition str_or_empty :: "(json \<Rightarrow> string) \<Rightarrow> json option \<Rightarrow> string" where
  "str_or_empty repr v = (case v of None \<Rightarrow> [] | Some j \<Rightarrow> if json_truthy j then py_str repr j else [])"

definition keys :: "('k, 'v) dict \<Rightarrow> 'k set" where
  "keys d = fst ` set d"

section \<open>Resource quantities\<close>

datatype resource_error = InvalidSchema | InvalidVcpu | VcpuOverflow | InvalidMemory | InvalidDisk

definition RESOURCE_KEYS :: "string set" where
  "RESOURCE_KEYS = {''vcpu'', ''memory_mb'', ''disk_mb''}"

definition resource_from_dict :: "json \<Rightarrow> resource_error + ResourceQuantity" where
  "resource_from_dict raw =
     (case as_obj (Some raw) of
        None \<Rightarrow> Inl InvalidSchema
      | Some d \<Rightarrow>
          if keys d \<noteq> RESOURCE_KEYS then Inl InvalidSchema
          else case as_finite (dict_get d ''vcpu'') of
                 Inconvertible \<Rightarrow> Inl InvalidVcpu
               | Overflowed \<Rightarrow> Inl VcpuOverflow
               | Converted c \<Rightarrow>
                   if c < 0 then Inl InvalidVcpu
                   else case as_int (dict_get d ''memory_mb'') of
                          None \<Rightarrow> Inl InvalidMemory
                        | Some m \<Rightarrow>
                            if m < 0 then Inl InvalidMemory
                            else case as_int (dict_get d ''disk_mb'') of
                                   None \<Rightarrow> Inl InvalidDisk
                                 | Some k \<Rightarrow> if k < 0 then Inl InvalidDisk else Inr (ResourceQuantity c m k))"

definition resource_to_dict :: "ResourceQuantity \<Rightarrow> (string, json) dict" where
  "resource_to_dict q =
     [(''vcpu'', JFloat (vcpu q)), (''memory_mb'', JInt (memory_mb q)), (''disk_mb'', JInt (disk_mb q))]"

lemma resource_roundtrip:
  "resource_from_dict (JObj (resource_to_dict q)) = Inr q \<longleftrightarrow> rq_is_valid q"
  by (cases q) (auto simp: resource_from_dict_def resource_to_dict_def rq_is_valid_def keys_def RESOURCE_KEYS_def split: if_splits)

lemma resource_from_dict_valid: "resource_from_dict raw = Inr q \<Longrightarrow> rq_is_valid q"
  by (auto simp: resource_from_dict_def rq_is_valid_def split: if_splits option.splits conversion.splits)

lemma resource_overflow:
  assumes "resource_from_dict raw = Inl VcpuOverflow"
  shows "\<exists>q n. raw = JObj q \<and> dict_get q ''vcpu'' = Some (JInt n) \<and> \<not> float_fits n"
proof -
  obtain q where q: "raw = JObj q" using assms by (cases raw) (simp_all add: resource_from_dict_def)
  then have "as_finite (dict_get q ''vcpu'') = Overflowed"
    using assms by (simp add: resource_from_dict_def split: if_splits option.splits conversion.splits)
  then show ?thesis
    using q by (auto elim!: as_finite.elims split: if_splits)
qed

section \<open>Memory observations\<close>

definition observation_valid :: "(string \<Rightarrow> datetime option) \<Rightarrow> SandboxMemoryObservation \<Rightarrow> bool" where
  "observation_valid parse m \<longleftrightarrow>
     0 \<le> memory_bytes m \<and> memory_bytes m \<le> 2 ^ 63 - 1 \<and> parse (sampled_at m) \<noteq> None"

definition OBSERVATION_KEYS :: "string set" where
  "OBSERVATION_KEYS = {''memory_bytes'', ''sampled_at''}"

definition observation_from_dict ::
  "(string \<Rightarrow> datetime option) \<Rightarrow> json option \<Rightarrow> SandboxMemoryObservation option" where
  "observation_from_dict parse value =
     (case as_obj value of
        None \<Rightarrow> None
      | Some d \<Rightarrow>
          if keys d \<noteq> OBSERVATION_KEYS then None
          else case (as_int (dict_get d ''memory_bytes''), as_str (dict_get d ''sampled_at'')) of
                 (Some b, Some t) \<Rightarrow>
                   (let m = \<lparr>memory_bytes = b, sampled_at = t\<rparr>
                    in if observation_valid parse m then Some m else None)
               | _ \<Rightarrow> None)"

definition observation_to_dict :: "SandboxMemoryObservation \<Rightarrow> (string, json) dict" where
  "observation_to_dict m = [(''memory_bytes'', JInt (memory_bytes m)), (''sampled_at'', JStr (sampled_at m))]"

lemma observation_roundtrip:
  "observation_valid parse m \<Longrightarrow> observation_from_dict parse (Some (JObj (observation_to_dict m))) = Some m"
  by (cases m) (auto simp: observation_from_dict_def observation_to_dict_def keys_def OBSERVATION_KEYS_def)

lemma observation_from_dict_valid: "observation_from_dict parse v = Some m \<Longrightarrow> observation_valid parse m"
  by (auto simp: observation_from_dict_def Let_def split: option.splits if_splits)

section \<open>Inventory entries\<close>

datatype entry_error =
    DependencyNotObject | IdRequired | GenerationNotPositive | OperationIdInvalid | SpecHashInvalid
  | StateRequired | ResourcesInvalid | SnapshotIncomplete | DescriptorWithoutIdentity | DescriptorRequired
  | OverflowError

definition snapshot_values :: "SandboxInventoryEntry \<Rightarrow> string list" where
  "snapshot_values e = [inv_storage_schema e, inv_snapshot_manifest_digest e, inv_snapshot_repository e, inv_snapshot_tag e]"

definition any_true :: "string list \<Rightarrow> bool" where
  "any_true vs = list_ex (\<lambda>v. v \<noteq> []) vs"

definition all_true :: "string list \<Rightarrow> bool" where
  "all_true vs = list_all (\<lambda>v. v \<noteq> []) vs"

text \<open>\<open>__post_init__\<close>; its first check is of a type the record already gives.\<close>

definition entry_post_init :: "SandboxInventoryEntry \<Rightarrow> entry_error + SandboxInventoryEntry" where
  "entry_post_init e =
     (if inv_sandbox_id e = [] then Inl IdRequired
      else if inv_generation e < 1 then Inl GenerationNotPositive
      else if \<not> matches_operation_id (inv_operation_id e) then Inl OperationIdInvalid
      else if \<not> matches_hex64 (inv_spec_hash e) then Inl SpecHashInvalid
      else if inv_state e = [] then Inl StateRequired
      else if \<not> rq_is_valid (inv_resources e) then Inl ResourcesInvalid
      else if any_true (snapshot_values e) \<noteq> all_true (snapshot_values e) then Inl SnapshotIncomplete
      else if inv_storage_snapshot e \<noteq> [] \<and> \<not> all_true (snapshot_values e) then Inl DescriptorWithoutIdentity
      else if all_true (snapshot_values e) \<and> inv_storage_snapshot e = [] then Inl DescriptorRequired
      else Inr e)"

definition REQUIRED_KEYS :: "string set" where
  "REQUIRED_KEYS = {''sandbox_id'', ''generation'', ''operation_id'', ''spec_hash'', ''state'', ''resources''}"

definition SNAPSHOT_KEYS :: "string set" where
  "SNAPSHOT_KEYS = {''storage_schema'', ''snapshot_manifest_digest'', ''snapshot_repository'', ''snapshot_tag'', ''storage_snapshot''}"

definition keys_accepted :: "string set \<Rightarrow> bool" where
  "keys_accepted ks \<longleftrightarrow>
     REQUIRED_KEYS \<subseteq> ks
     \<and> ks \<subseteq> REQUIRED_KEYS \<union> SNAPSHOT_KEYS \<union> {''storage_dependency'', ''memory_observation'', ''managed_process''}
     \<and> (ks \<inter> SNAPSHOT_KEYS = {} \<or> ks \<inter> SNAPSHOT_KEYS = SNAPSHOT_KEYS)"

text \<open>\<open>raw.get(key, default)\<close> of a string and of an object, None when the type is wrong.\<close>

definition get_str :: "(string, json) dict \<Rightarrow> string \<Rightarrow> string option" where
  "get_str d k = (case dict_get d k of None \<Rightarrow> Some [] | v \<Rightarrow> as_str v)"

definition get_obj :: "(string, json) dict \<Rightarrow> string \<Rightarrow> (string, json) dict option" where
  "get_obj d k = (case dict_get d k of None \<Rightarrow> Some [] | v \<Rightarrow> as_obj v)"

definition entry_generation :: "(string, json) dict \<Rightarrow> int conversion" where
  "entry_generation d =
     (case dict_get d ''generation'' of
        None \<Rightarrow> Inconvertible
      | Some (JBool _) \<Rightarrow> Inconvertible
      | Some v \<Rightarrow> (case json_int v of Converted g \<Rightarrow> if g < 1 then Inconvertible else Converted g | c \<Rightarrow> c))"

definition entry_dependency :: "(string, json) dict \<Rightarrow> (string, json) dict option option" where
  "entry_dependency d =
     (case dict_get d ''storage_dependency'' of
        None \<Rightarrow> Some None | Some JNull \<Rightarrow> Some None | v \<Rightarrow> map_option Some (as_obj v))"

text \<open>The snapshot fields: schema, digest, repository, tag and descriptor.\<close>

definition entry_snapshot :: "(string, json) dict \<Rightarrow> (string list \<times> (string, json) dict) option" where
  "entry_snapshot d =
     (case (get_str d ''storage_schema'', get_str d ''snapshot_manifest_digest'', get_str d ''snapshot_repository'',
            get_str d ''snapshot_tag'', get_obj d ''storage_snapshot'') of
        (Some a, Some b, Some c, Some t, Some s) \<Rightarrow>
          if any_true [a, b, c, t] \<noteq> all_true [a, b, c, t] then None
          else if (s \<noteq> []) \<noteq> all_true [a, b, c, t] then None else Some ([a, b, c, t], s)
      | _ \<Rightarrow> None)"

text \<open>The result of decoding: None when \<open>from_dict\<close> returns None, \<open>Inl\<close> when the constructor
  raises or a conversion overflows: the handlers around the conversions catch \<open>TypeError\<close> and
  \<open>ValueError\<close> only.\<close>

definition entry_from_dict ::
  "(string \<Rightarrow> datetime option) \<Rightarrow> (json \<Rightarrow> string) \<Rightarrow> json \<Rightarrow> entry_error + SandboxInventoryEntry option" where
  "entry_from_dict parse repr raw =
     (case as_obj (Some raw) of
        None \<Rightarrow> Inr None
      | Some d \<Rightarrow>
          (let sandbox_id = str_strip (str_or_empty repr (dict_get d ''sandbox_id''))
           in if sandbox_id = [] \<or> \<not> keys_accepted (keys d) then Inr None
              else case (entry_generation d, as_str (dict_get d ''operation_id''), as_str (dict_get d ''spec_hash''),
                         as_str (dict_get d ''state'')) of
                     (Overflowed, _, _, _) \<Rightarrow> Inl OverflowError
                   | (Converted generation, Some operation_id, Some spec_hash, Some state) \<Rightarrow>
                       if \<not> matches_operation_id operation_id \<or> \<not> matches_hex64 spec_hash \<or> state = [] then Inr None
                       else (case (resource_from_dict (the (dict_get d ''resources'')), entry_dependency d, entry_snapshot d) of
                               (Inl VcpuOverflow, _, _) \<Rightarrow> Inl OverflowError
                             | (Inr resources, Some dependency, Some ([schema, digest, repository, tag], snapshot)) \<Rightarrow>
                                 map_sum id Some (entry_post_init
                                   \<lparr>inv_sandbox_id = sandbox_id, inv_generation = generation, inv_operation_id = operation_id,
                                    inv_spec_hash = spec_hash, inv_state = state, inv_resources = resources,
                                    inv_storage_schema = schema, inv_snapshot_manifest_digest = digest,
                                    inv_snapshot_repository = repository, inv_snapshot_tag = tag,
                                    inv_storage_snapshot = snapshot, inv_storage_dependency = dependency,
                                    inv_memory_observation = observation_from_dict parse (dict_get d ''memory_observation''),
                                    inv_managed_process = as_obj (dict_get d ''managed_process'')\<rparr>)
                             | _ \<Rightarrow> Inr None)
                   | _ \<Rightarrow> Inr None))"

definition entry_to_dict :: "SandboxInventoryEntry \<Rightarrow> (string, json) dict" where
  "entry_to_dict e =
     [(''sandbox_id'', JStr (inv_sandbox_id e)), (''generation'', JInt (inv_generation e)),
      (''operation_id'', JStr (inv_operation_id e)), (''spec_hash'', JStr (inv_spec_hash e)),
      (''state'', JStr (inv_state e)), (''resources'', JObj (resource_to_dict (inv_resources e)))]
     @ (case inv_storage_dependency e of None \<Rightarrow> [] | Some d \<Rightarrow> [(''storage_dependency'', JObj d)])
     @ (case inv_memory_observation e of None \<Rightarrow> [] | Some m \<Rightarrow> [(''memory_observation'', JObj (observation_to_dict m))])
     @ (case inv_managed_process e of None \<Rightarrow> [] | Some d \<Rightarrow> [(''managed_process'', JObj d)])
     @ (if inv_storage_snapshot e = [] then []
        else [(''storage_schema'', JStr (inv_storage_schema e)),
              (''snapshot_manifest_digest'', JStr (inv_snapshot_manifest_digest e)),
              (''snapshot_repository'', JStr (inv_snapshot_repository e)), (''snapshot_tag'', JStr (inv_snapshot_tag e)),
              (''storage_snapshot'', JObj (inv_storage_snapshot e))])"

section \<open>Decoding what was encoded\<close>

definition optional_keys :: "SandboxInventoryEntry \<Rightarrow> string set" where
  "optional_keys e =
     (if inv_storage_dependency e = None then {} else {''storage_dependency''})
     \<union> (if inv_memory_observation e = None then {} else {''memory_observation''})
     \<union> (if inv_managed_process e = None then {} else {''managed_process''})"

lemma optional_not_snapshot: "optional_keys e \<inter> SNAPSHOT_KEYS = {}" "REQUIRED_KEYS \<inter> SNAPSHOT_KEYS = {}"
  by (simp_all add: optional_keys_def SNAPSHOT_KEYS_def REQUIRED_KEYS_def)

lemma keys_entry_to_dict:
  "keys (entry_to_dict e) = REQUIRED_KEYS \<union> optional_keys e \<union> (if inv_storage_snapshot e = [] then {} else SNAPSHOT_KEYS)"
proof -
  have parts:
    "fst ` set (case x of None \<Rightarrow> [] | Some d \<Rightarrow> [(k, f d)]) = (if x = None then {} else {k})"
    "fst ` set (if b then [] else ys) = (if b then {} else fst ` set ys)"
    for k :: string and f :: "'a \<Rightarrow> json" and x :: "'a option" and b and ys :: "(string, json) dict"
    by (cases x; simp) simp
  show ?thesis
    unfolding keys_def entry_to_dict_def set_append image_Un parts optional_keys_def REQUIRED_KEYS_def SNAPSHOT_KEYS_def
    by (simp only: Un_assoc list.set image_insert image_empty fst_conv)
qed

lemma keys_accepted_entry: "keys_accepted (keys (entry_to_dict e))"
proof -
  have "optional_keys e \<subseteq> {''storage_dependency'', ''memory_observation'', ''managed_process''}"
    by (simp add: optional_keys_def)
  then show ?thesis unfolding keys_entry_to_dict keys_accepted_def using optional_not_snapshot(1) [of e] optional_not_snapshot(2) by auto
qed

lemma entry_lookup:
  "dict_get (entry_to_dict e) ''sandbox_id'' = Some (JStr (inv_sandbox_id e))"
  "dict_get (entry_to_dict e) ''generation'' = Some (JInt (inv_generation e))"
  "dict_get (entry_to_dict e) ''operation_id'' = Some (JStr (inv_operation_id e))"
  "dict_get (entry_to_dict e) ''spec_hash'' = Some (JStr (inv_spec_hash e))"
  "dict_get (entry_to_dict e) ''state'' = Some (JStr (inv_state e))"
  "dict_get (entry_to_dict e) ''resources'' = Some (JObj (resource_to_dict (inv_resources e)))"
  by (simp_all add: entry_to_dict_def)

lemma entry_lookup_optional:
  "dict_get (entry_to_dict e) ''storage_dependency'' = map_option JObj (inv_storage_dependency e)"
  "dict_get (entry_to_dict e) ''memory_observation'' = map_option (JObj \<circ> observation_to_dict) (inv_memory_observation e)"
  "dict_get (entry_to_dict e) ''managed_process'' = map_option JObj (inv_managed_process e)"
  by (auto simp: entry_to_dict_def split: option.splits)

lemma entry_lookup_snapshot:
  "dict_get (entry_to_dict e) ''storage_schema'' = (if inv_storage_snapshot e = [] then None else Some (JStr (inv_storage_schema e)))"
  "dict_get (entry_to_dict e) ''snapshot_manifest_digest''
     = (if inv_storage_snapshot e = [] then None else Some (JStr (inv_snapshot_manifest_digest e)))"
  "dict_get (entry_to_dict e) ''snapshot_repository''
     = (if inv_storage_snapshot e = [] then None else Some (JStr (inv_snapshot_repository e)))"
  "dict_get (entry_to_dict e) ''snapshot_tag'' = (if inv_storage_snapshot e = [] then None else Some (JStr (inv_snapshot_tag e)))"
  "dict_get (entry_to_dict e) ''storage_snapshot'' = (if inv_storage_snapshot e = [] then None else Some (JObj (inv_storage_snapshot e)))"
  by (auto simp: entry_to_dict_def split: option.splits)

text \<open>A valid entry: what the constructors of the entry and of its observation accept.\<close>

definition entry_valid :: "(string \<Rightarrow> datetime option) \<Rightarrow> SandboxInventoryEntry \<Rightarrow> bool" where
  "entry_valid parse e \<longleftrightarrow> entry_post_init e = Inr e \<and> str_strip (inv_sandbox_id e) = inv_sandbox_id e
     \<and> (case inv_memory_observation e of None \<Rightarrow> True | Some m \<Rightarrow> observation_valid parse m)"

lemma entry_post_initD:
  assumes "entry_post_init e = Inr e"
  shows "inv_sandbox_id e \<noteq> []" "1 \<le> inv_generation e" "matches_operation_id (inv_operation_id e)"
    "matches_hex64 (inv_spec_hash e)" "inv_state e \<noteq> []" "rq_is_valid (inv_resources e)"
    "any_true (snapshot_values e) = all_true (snapshot_values e)" "(inv_storage_snapshot e \<noteq> []) = all_true (snapshot_values e)"
  using assms by (auto simp: entry_post_init_def split: if_splits)

lemma entry_post_init_dest: "entry_post_init e = Inr e' \<Longrightarrow> e' = e"
  by (simp add: entry_post_init_def split: if_splits)

lemma entry_snapshot_roundtrip:
  assumes "entry_post_init e = Inr e"
  shows "entry_snapshot (entry_to_dict e) = Some (snapshot_values e, inv_storage_snapshot e)"
proof (cases "inv_storage_snapshot e = []")
  case True
  with entry_post_initD(7,8) [OF assms] have "snapshot_values e = [[], [], [], []]"
    by (simp add: snapshot_values_def any_true_def)
  with True show ?thesis by (simp add: entry_snapshot_def get_str_def get_obj_def entry_lookup_snapshot any_true_def all_true_def)
next
  case False
  with entry_post_initD(7,8) [OF assms] show ?thesis
    by (simp add: entry_snapshot_def get_str_def get_obj_def entry_lookup_snapshot snapshot_values_def)
qed

lemma entry_fields_roundtrip:
  assumes "entry_valid parse e"
  shows "str_strip (str_or_empty repr (Some (JStr (inv_sandbox_id e)))) = inv_sandbox_id e"
    "entry_generation (entry_to_dict e) = Converted (inv_generation e)"
    "entry_dependency (entry_to_dict e) = Some (inv_storage_dependency e)"
    "observation_from_dict parse (dict_get (entry_to_dict e) ''memory_observation'') = inv_memory_observation e"
    "as_obj (dict_get (entry_to_dict e) ''managed_process'') = inv_managed_process e"
    "resource_from_dict (JObj (resource_to_dict (inv_resources e))) = Inr (inv_resources e)"
proof -
  note v = assms [unfolded entry_valid_def]
  note d = entry_post_initD [OF v [THEN conjunct1]]
  show "str_strip (str_or_empty repr (Some (JStr (inv_sandbox_id e)))) = inv_sandbox_id e"
    using v d(1) by (simp add: str_or_empty_def)
  show "entry_generation (entry_to_dict e) = Converted (inv_generation e)"
    using d(2) by (simp add: entry_generation_def entry_lookup)
  show "entry_dependency (entry_to_dict e) = Some (inv_storage_dependency e)"
    by (cases "inv_storage_dependency e") (simp_all add: entry_dependency_def entry_lookup_optional)
  show "observation_from_dict parse (dict_get (entry_to_dict e) ''memory_observation'') = inv_memory_observation e"
    using v observation_roundtrip
    by (cases "inv_memory_observation e") (simp_all add: entry_lookup_optional observation_from_dict_def)
  show "as_obj (dict_get (entry_to_dict e) ''managed_process'') = inv_managed_process e"
    by (cases "inv_managed_process e") (simp_all add: entry_lookup_optional)
  show "resource_from_dict (JObj (resource_to_dict (inv_resources e))) = Inr (inv_resources e)"
    using d(6) by (simp add: resource_roundtrip)
qed

section \<open>What decoding accepts is well-formed\<close>

lemma str_strip_idem: "str_strip (str_strip s) = str_strip s"
proof -
  have ends: "dropWhile P (rev (dropWhile P (rev xs))) = rev (dropWhile P (rev xs))" if "dropWhile P xs = xs" for P and xs :: string
  proof -
    let ?a = "rev (dropWhile P (rev xs))"
    have "xs = ?a @ rev (takeWhile P (rev xs))" by (metis rev_append rev_rev_ident takeWhile_dropWhile_id)
    then have "?a = [] \<or> hd ?a = hd xs \<and> xs \<noteq> []" by (metis Nil_is_append_conv hd_append2)
    then show ?thesis using that by (auto simp: dropWhile_eq_self_iff)
  qed
  define t where "t = dropWhile is_space s"
  have t: "dropWhile is_space t = t" by (simp add: t_def)
  show ?thesis unfolding str_strip_def t_def [symmetric] using ends [OF t] by simp
qed

lemma entry_generation_pos: "entry_generation d = Converted g \<Longrightarrow> 1 \<le> g"
  by (auto simp: entry_generation_def split: option.splits json.splits if_splits conversion.splits)

lemma entry_generation_overflow:
  assumes "entry_generation d = Overflowed"
  shows "dict_get d ''generation'' = Some JPosInf \<or> dict_get d ''generation'' = Some JNegInf"
proof -
  obtain v where v: "dict_get d ''generation'' = Some v" "json_int v = Overflowed"
    using assms by (auto simp: entry_generation_def split: option.splits json.splits if_splits conversion.splits)
  then show ?thesis by (cases v) (auto split: option.splits)
qed

lemma entry_snapshotD:
  assumes "entry_snapshot d = Some (vs, snapshot)"
  shows "any_true vs = all_true vs" "(snapshot \<noteq> []) = all_true vs" "\<exists>a b c t. vs = [a, b, c, t]"
  using assms by (auto simp: entry_snapshot_def split: option.splits if_splits)

section \<open>Properties\<close>

text \<open>The documents on which a conversion overflows.\<close>

definition overflows :: "json \<Rightarrow> bool" where
  "overflows raw \<longleftrightarrow>
     (\<exists>d. raw = JObj d
       \<and> (dict_get d ''generation'' \<in> {Some JPosInf, Some JNegInf}
          \<or> (\<exists>q n. dict_get d ''resources'' = Some (JObj q) \<and> dict_get q ''vcpu'' = Some (JInt n)
               \<and> \<not> float_fits n)))"

lemma decode_fields:
  assumes "entry_from_dict parse repr raw \<noteq> Inr None" "entry_from_dict parse repr raw \<noteq> Inl OverflowError"
  obtains d g oid h st q dep a b c t snapshot where "raw = JObj d"
    "str_strip (str_or_empty repr (dict_get d ''sandbox_id'')) \<noteq> []" "keys_accepted (keys d)"
    "entry_generation d = Converted g" "as_str (dict_get d ''operation_id'') = Some oid"
    "as_str (dict_get d ''spec_hash'') = Some h" "as_str (dict_get d ''state'') = Some st"
    "matches_operation_id oid" "matches_hex64 h" "st \<noteq> []"
    "resource_from_dict (the (dict_get d ''resources'')) = Inr q" "entry_dependency d = Some dep"
    "entry_snapshot d = Some ([a, b, c, t], snapshot)"
proof -
  obtain d where d: "raw = JObj d" using assms(1) by (cases raw) (auto simp: entry_from_dict_def)
  note ne = assms [unfolded d entry_from_dict_def as_obj.simps option.case Let_def]
  have sid: "str_strip (str_or_empty repr (dict_get d ''sandbox_id'')) \<noteq> []" by (rule notI) (use ne in simp)
  have ks: "keys_accepted (keys d)" by (rule ccontr) (use ne in simp)
  obtain g where g: "entry_generation d = Converted g"
    using ne sid ks by (cases "entry_generation d") (simp_all split: option.splits)
  have "as_str (dict_get d ''operation_id'') \<noteq> None" by (rule notI) (use ne sid ks g in simp)
  then obtain oid where oid: "as_str (dict_get d ''operation_id'') = Some oid" by blast
  have "as_str (dict_get d ''spec_hash'') \<noteq> None" by (rule notI) (use ne sid ks g oid in simp)
  then obtain h where h: "as_str (dict_get d ''spec_hash'') = Some h" by blast
  have "as_str (dict_get d ''state'') \<noteq> None" by (rule notI) (use ne sid ks g oid h in simp)
  then obtain st where st: "as_str (dict_get d ''state'') = Some st" by blast
  have ok: "matches_operation_id oid" "matches_hex64 h" "st \<noteq> []"
    by (rule ccontr, use ne sid ks g oid h st in simp)+
  have "resource_from_dict (the (dict_get d ''resources'')) \<noteq> Inl x" for x
    by (rule notI, cases x) (use ne sid ks g oid h st ok in simp_all)
  then obtain q where q: "resource_from_dict (the (dict_get d ''resources'')) = Inr q" by (meson sum.exhaust)
  have "entry_dependency d \<noteq> None" by (rule notI) (use ne sid ks g oid h st ok q in simp)
  then obtain dep where dep: "entry_dependency d = Some dep" by blast
  have "entry_snapshot d \<noteq> None" by (rule notI) (use ne sid ks g oid h st ok q dep in simp)
  then obtain vs snapshot where vs: "entry_snapshot d = Some (vs, snapshot)" by auto
  obtain a b c t where "vs = [a, b, c, t]" using entry_snapshotD(3) [OF vs] by blast
  with that d sid ks g oid h st ok q dep vs show thesis by blast
qed

lemma decode_overflows:
  assumes "entry_from_dict parse repr raw = Inl OverflowError"
  shows "overflows raw"
proof (rule ccontr)
  assume no: "\<not> overflows raw"
  obtain d where d: "raw = JObj d" using assms by (cases raw) (auto simp: entry_from_dict_def)
  have g: "entry_generation d \<noteq> Overflowed" and q: "resource_from_dict (the (dict_get d ''resources'')) \<noteq> Inl VcpuOverflow"
    if "keys_accepted (keys d)"
  proof -
    show "entry_generation d \<noteq> Overflowed"
      using entry_generation_overflow no d by (auto simp: overflows_def)
    have "''resources'' \<in> fst ` set d" using that by (auto simp: keys_accepted_def REQUIRED_KEYS_def keys_def)
    then obtain v where "dict_get d ''resources'' = Some v"
      by (metis dict_get_None_iff option.exhaust)
    then show "resource_from_dict (the (dict_get d ''resources'')) \<noteq> Inl VcpuOverflow"
      using resource_overflow no d by (auto simp: overflows_def)
  qed
  have "entry_post_init e \<noteq> Inl OverflowError" for e by (simp add: entry_post_init_def)
  then have "map_sum id Some (entry_post_init e) \<noteq> Inl OverflowError" for e
    by (cases "entry_post_init e") auto
  with assms g q show False
    unfolding d entry_from_dict_def as_obj.simps option.case Let_def
    by (auto split: if_splits conversion.splits option.splits sum.splits prod.splits list.splits resource_error.splits)
qed


text \<open>And on an infinite generation it does raise, once the id and the keys are in order.\<close>

lemma infinite_generation_raises:
  assumes "str_strip (str_or_empty repr (dict_get d ''sandbox_id'')) \<noteq> []" "keys_accepted (keys d)"
    and "dict_get d ''generation'' = Some JPosInf"
  shows "entry_from_dict parse repr (JObj d) = Inl OverflowError"
  using assms by (simp add: entry_from_dict_def entry_generation_def)

text \<open>C34. An inventory entry survives the wire: decoding what \<open>to_dict\<close> wrote of a valid entry gives
  exactly that entry, with its snapshot identity, storage dependency, memory observation and
  managed process.\<close>

theorem inventory_roundtrip:
  assumes "entry_valid parse e"
  shows "entry_from_dict parse repr (JObj (entry_to_dict e)) = Inr (Some e)"
proof -
  note v = assms [unfolded entry_valid_def, THEN conjunct1]
  note d = entry_post_initD [OF v]
  have all: "\<lparr>inv_sandbox_id = inv_sandbox_id e, inv_generation = inv_generation e, inv_operation_id = inv_operation_id e,
      inv_spec_hash = inv_spec_hash e, inv_state = inv_state e, inv_resources = inv_resources e,
      inv_storage_schema = inv_storage_schema e, inv_snapshot_manifest_digest = inv_snapshot_manifest_digest e,
      inv_snapshot_repository = inv_snapshot_repository e, inv_snapshot_tag = inv_snapshot_tag e,
      inv_storage_snapshot = inv_storage_snapshot e, inv_storage_dependency = inv_storage_dependency e,
      inv_memory_observation = inv_memory_observation e, inv_managed_process = inv_managed_process e\<rparr> = e" by simp
  show ?thesis
    using v d(1-5)
    by (simp add: entry_from_dict_def Let_def entry_fields_roundtrip [OF assms] keys_accepted_entry entry_lookup
        entry_snapshot_roundtrip [OF v] snapshot_values_def all)
qed

definition example_entry :: SandboxInventoryEntry where
  "example_entry = (new_inventory_entry ''sb1'' 1 ''op1'' (replicate 64 (CHR ''a'')))\<lparr>inv_state := ''parked'',
     inv_storage_schema := ''storage-native-v1'', inv_snapshot_manifest_digest := ''sha256:0'',
     inv_snapshot_repository := ''r'', inv_snapshot_tag := ''t'', inv_storage_snapshot := [(''k'', JNull)],
     inv_memory_observation := Some \<lparr>memory_bytes = 1024, sampled_at = ''2026-01-01T00:00:00Z''\<rparr>\<rparr>"

theorem inventory_roundtrip_witness:
  "entry_from_dict (\<lambda>_. Some 0) (\<lambda>_. []) (JObj (entry_to_dict example_entry)) = Inr (Some example_entry)"
proof -
  have "entry_valid (\<lambda>_. Some 0) example_entry"
    by (simp add: entry_valid_def entry_post_init_def example_entry_def new_inventory_entry_def observation_valid_def
        matches_operation_id_def is_alnum_def matches_hex64_def list_all_iff is_lower_hex_def rq_is_valid_def
        any_true_def all_true_def snapshot_values_def str_strip_def is_space_def)
  then show ?thesis by (rule inventory_roundtrip)
qed

end
