(* ===== verification/Networking.thy ===== *)
theory Networking
  imports Prelude
begin

text \<open>
  \<open>src/ucloud_sandboxes/networking.py\<close>: hostnames for instances. A text is made of runs: the
  regular expression substitutions replace every maximal run of a character class. The lemmas show
  that a generated hostname passes \<open>validate_hostname\<close> and when generating keeps a name as it is.
\<close>

definition HOSTNAME_MAX_LENGTH :: nat where
  "HOSTNAME_MAX_LENGTH = 63"

text \<open>The class \<open>[a-z0-9-]\<close>.\<close>

definition hostname_char :: "char \<Rightarrow> bool" where
  "hostname_char c = (let n = of_char c :: nat in 97 \<le> n \<and> n \<le> 122 \<or> 48 \<le> n \<and> n \<le> 57 \<or> c = CHR ''-'')"

text \<open>\<open>re.sub(r"[...]+", repl, text)\<close> for a character class.\<close>

function sub_runs :: "(char \<Rightarrow> bool) \<Rightarrow> string \<Rightarrow> string \<Rightarrow> string" where
  "sub_runs P repl [] = []"
| "sub_runs P repl (c # cs) =
     (if P c then repl @ sub_runs P repl (dropWhile P cs) else c # sub_runs P repl cs)"
  by pat_completeness auto
termination
  by (relation "measure (\<lambda>(_, _, s). length s)") (auto simp: le_imp_less_Suc length_dropWhile_le)

definition strip_dashes :: "string \<Rightarrow> string" where
  "strip_dashes s = rev (dropWhile (\<lambda>c. c = CHR ''-'') (rev (dropWhile (\<lambda>c. c = CHR ''-'') s)))"

definition stable_hostname :: "string \<Rightarrow> string \<Rightarrow> string" where
  "stable_hostname seed prefix =
     (let base = str_lower (str_strip seed);
          base' = (if prefix \<noteq> [] then prefix @ ''-'' @ base else base);
          hostname = sub_runs (\<lambda>c. \<not> hostname_char c) ''-'' base';
          hostname' = strip_dashes (sub_runs (\<lambda>c. c = CHR ''-'') ''-'' hostname);
          hostname'' = (if hostname' = [] then (if prefix = [] then ''sandbox-node'' else prefix) else hostname');
          short = strip_dashes (take HOSTNAME_MAX_LENGTH hostname'')
      in if short = [] then ''sandbox-node'' else short)"

datatype hostname_error = HostnameRequired | HostnameTooLong | HostnameDash | HostnameCharacters

definition validate_hostname :: "string \<Rightarrow> hostname_error option" where
  "validate_hostname v =
     (if v = [] then Some HostnameRequired
      else if HOSTNAME_MAX_LENGTH < length v then Some HostnameTooLong
      else if hd v = CHR ''-'' \<or> last v = CHR ''-'' then Some HostnameDash
      else if list_ex (\<lambda>c. \<not> hostname_char c) v \<or> str_lower v \<noteq> v then Some HostnameCharacters
      else None)"

section \<open>Clean names\<close>

text \<open>A clean name has only hostname characters, no two dashes in a row and no dash at an end.\<close>

fun single_dashes :: "string \<Rightarrow> bool" where
  "single_dashes (c # d # cs) = (\<not> (c = CHR ''-'' \<and> d = CHR ''-'') \<and> single_dashes (d # cs))"
| "single_dashes _ = True"

definition dash_free_ends :: "string \<Rightarrow> bool" where
  "dash_free_ends s \<longleftrightarrow> s \<noteq> [] \<and> hd s \<noteq> CHR ''-'' \<and> last s \<noteq> CHR ''-''"

definition clean :: "string \<Rightarrow> bool" where
  "clean s \<longleftrightarrow> list_all hostname_char s \<and> single_dashes s \<and> dash_free_ends s"

lemma hostname_char_dash [simp]: "hostname_char (CHR ''-'')"
  by (simp add: hostname_char_def)

lemma hostname_char_lower: "hostname_char c \<Longrightarrow> char_lower c = c"
  by (auto simp: hostname_char_def char_lower_def Let_def)

lemma sub_runs_none: "list_all (\<lambda>c. \<not> P c) s \<Longrightarrow> sub_runs P r s = s"
  by (induction P r s rule: sub_runs.induct) auto

lemma sub_runs_all: "list_all Q r \<Longrightarrow> (\<And>c. \<not> P c \<Longrightarrow> Q c) \<Longrightarrow> list_all Q (sub_runs P r s)"
  by (induction P r s rule: sub_runs.induct) auto

lemma sub_runs_all_keep: "list_all Q r \<Longrightarrow> list_all Q s \<Longrightarrow> list_all Q (sub_runs P r s)"
  by (induction P r s rule: sub_runs.induct) (auto simp: list_all_iff dest: set_dropWhileD)

lemma single_dashes_Cons:
  "single_dashes (c # s) \<longleftrightarrow> single_dashes s \<and> (c = CHR ''-'' \<longrightarrow> s = [] \<or> hd s \<noteq> CHR ''-'')"
  by (cases s) auto

lemma sub_runs_dash_single:
  "single_dashes (sub_runs (\<lambda>c. c = CHR ''-'') ''-'' s)
   \<and> (s = [] \<or> hd s \<noteq> CHR ''-'' \<longrightarrow> sub_runs (\<lambda>c. c = CHR ''-'') ''-'' s = [] \<or> hd (sub_runs (\<lambda>c. c = CHR ''-'') ''-'' s) \<noteq> CHR ''-'')"
proof (induction "\<lambda>c. c = CHR ''-''" "''-''" s rule: sub_runs.induct)
  case (2 c cs)
  have "dropWhile (\<lambda>c. c = CHR ''-'') cs = [] \<or> hd (dropWhile (\<lambda>c. c = CHR ''-'') cs) \<noteq> CHR ''-''"
    using hd_dropWhile [of "\<lambda>c. c = CHR ''-''" cs] by blast
  with 2 show ?case by (auto simp: single_dashes_Cons)
qed simp

lemma single_dashes_keeps: "single_dashes s \<Longrightarrow> sub_runs (\<lambda>c. c = CHR ''-'') ''-'' s = s"
proof (induction s)
  case (Cons c s)
  have "dropWhile (\<lambda>c. c = CHR ''-'') s = s" if "c = CHR ''-''"
    using Cons.prems that by (auto simp: single_dashes_Cons dropWhile_eq_self_iff)
  with Cons show ?case by (auto simp: single_dashes_Cons)
qed simp

lemma strip_dashes_keeps: "dash_free_ends s \<Longrightarrow> strip_dashes s = s"
proof -
  assume a: "dash_free_ends s"
  have "dropWhile (\<lambda>c. c = CHR ''-'') s = s" "dropWhile (\<lambda>c. c = CHR ''-'') (rev s) = rev s"
    using a unfolding dropWhile_eq_self_iff by (simp_all add: dash_free_ends_def hd_rev)
  then show "strip_dashes s = s" by (simp add: strip_dashes_def)
qed

lemma single_dashes_append: "single_dashes (a @ b) \<Longrightarrow> single_dashes a \<and> single_dashes b"
proof (induction a)
  case (Cons c a)
  then show ?case by (cases a) (auto simp: single_dashes_Cons)
qed simp

lemma strip_dashes_infix: "\<exists>a b. s = a @ strip_dashes s @ b"
proof -
  let ?P = "\<lambda>c. c = CHR ''-''"
  let ?t = "dropWhile ?P s"
  have "s = takeWhile ?P s @ ?t" by simp
  moreover have "?t = strip_dashes s @ rev (takeWhile ?P (rev ?t))"
    unfolding strip_dashes_def by (metis rev_append rev_rev_ident takeWhile_dropWhile_id)
  ultimately show ?thesis by metis
qed

lemma strip_dashes_ends: "strip_dashes s = [] \<or> dash_free_ends (strip_dashes s)"
proof (cases "strip_dashes s = []")
  case False
  let ?P = "\<lambda>c. c = CHR ''-''"
  let ?t = "dropWhile ?P s"
  have l: "last (strip_dashes s) \<noteq> CHR ''-''"
    using False hd_dropWhile [of ?P "rev ?t"] by (simp add: strip_dashes_def last_rev)
  have eq: "?t = strip_dashes s @ rev (takeWhile ?P (rev ?t))"
    unfolding strip_dashes_def by (metis rev_append rev_rev_ident takeWhile_dropWhile_id)
  have "?t \<noteq> []"
  proof
    assume t: "?t = []"
    have "strip_dashes s = []" unfolding strip_dashes_def t by simp
    with False show False by blast
  qed
  moreover have "hd ?t = hd (strip_dashes s)" by (rule trans [OF arg_cong [OF eq, of hd] hd_append2 [OF False]])
  ultimately have "hd (strip_dashes s) \<noteq> CHR ''-''" using hd_dropWhile [of ?P s] by simp
  with l False show ?thesis by (simp add: dash_free_ends_def)
qed simp

lemma strip_dashes_clean:
  assumes "list_all hostname_char s" "single_dashes s" "strip_dashes s \<noteq> []"
  shows "clean (strip_dashes s)"
proof -
  obtain a b where s: "s = a @ strip_dashes s @ b" using strip_dashes_infix by blast
  have "list_all hostname_char (a @ strip_dashes s @ b)" "single_dashes (a @ strip_dashes s @ b)"
    using assms(1,2) unfolding s [symmetric] by simp_all
  then have "list_all hostname_char (strip_dashes s)" "single_dashes (strip_dashes s)"
    by (simp, metis single_dashes_append)
  then show ?thesis using strip_dashes_ends [of s] assms(3) by (simp add: clean_def)
qed

lemma in_set_dropWhile_rev: "\<not> P x \<Longrightarrow> x \<in> set s \<Longrightarrow> x \<in> set (dropWhile P s)"
  by (induction s) auto

lemma clean_take:
  assumes "clean s"
  shows "clean (strip_dashes (take HOSTNAME_MAX_LENGTH s))" "length (strip_dashes (take HOSTNAME_MAX_LENGTH s)) \<le> HOSTNAME_MAX_LENGTH"
proof -
  let ?t = "take HOSTNAME_MAX_LENGTH s"
  have l: "list_all hostname_char ?t" using assms by (auto simp: clean_def list_all_iff dest: in_set_takeD)
  have "single_dashes (?t @ drop HOSTNAME_MAX_LENGTH s)" using assms by (simp add: clean_def)
  from single_dashes_append [OF this] have t: "single_dashes ?t" by (rule conjunct1)
  have "hd ?t = hd s" "?t \<noteq> []" using assms by (auto simp: clean_def dash_free_ends_def HOSTNAME_MAX_LENGTH_def)
  then have "hd ?t \<noteq> CHR ''-''" using assms by (simp add: clean_def dash_free_ends_def)
  then have "hd ?t \<in> set (dropWhile (\<lambda>c. c = CHR ''-'') (rev (dropWhile (\<lambda>c. c = CHR ''-'') ?t)))"
    using \<open>?t \<noteq> []\<close> by (cases ?t) (auto simp: in_set_dropWhile_rev)
  then have "hd ?t \<in> set (strip_dashes ?t)" unfolding strip_dashes_def set_rev .
  then have "strip_dashes ?t \<noteq> []" by (rule list.set_cases) simp_all
  then show "clean (strip_dashes ?t)" by (rule strip_dashes_clean [OF l t])
  obtain a b where "?t = a @ strip_dashes ?t @ b" using strip_dashes_infix by blast
  then have "length ?t = length a + length (strip_dashes ?t) + length b" by (metis length_append add.assoc)
  then show "length (strip_dashes ?t) \<le> HOSTNAME_MAX_LENGTH" by simp
qed

lemma sandbox_node_clean: "clean ''sandbox-node''"
  by (simp add: clean_def dash_free_ends_def hostname_char_def)

lemma clean_validates: "clean s \<Longrightarrow> length s \<le> HOSTNAME_MAX_LENGTH \<Longrightarrow> validate_hostname s = None"
  by (auto simp: clean_def dash_free_ends_def validate_hostname_def list_ex_iff list_all_iff str_lower_def
      hostname_char_lower intro!: map_idI)

lemma stable_hostname_clean:
  assumes "prefix = [] \<or> clean prefix"
  shows "clean (stable_hostname seed prefix)" "length (stable_hostname seed prefix) \<le> HOSTNAME_MAX_LENGTH"
proof -
  define base where "base = (if prefix \<noteq> [] then prefix @ ''-'' @ str_lower (str_strip seed) else str_lower (str_strip seed))"
  define h where "h = sub_runs (\<lambda>c. c = CHR ''-'') ''-'' (sub_runs (\<lambda>c. \<not> hostname_char c) ''-'' base)"
  define h' where "h' = (if strip_dashes h = [] then (if prefix = [] then ''sandbox-node'' else prefix) else strip_dashes h)"
  have "list_all hostname_char (sub_runs (\<lambda>c. \<not> hostname_char c) ''-'' base)" by (rule sub_runs_all) auto
  then have "list_all hostname_char h" "single_dashes h"
    unfolding h_def by (rule sub_runs_all_keep [rotated], simp) (rule sub_runs_dash_single [THEN conjunct1])
  then have h': "clean h'" unfolding h'_def using strip_dashes_clean sandbox_node_clean assms by auto
  note c = clean_take [OF h']
  have "strip_dashes (take HOSTNAME_MAX_LENGTH h') \<noteq> []" using c(1) by (auto simp: clean_def dash_free_ends_def)
  then have "stable_hostname seed prefix = strip_dashes (take HOSTNAME_MAX_LENGTH h')"
    unfolding stable_hostname_def Let_def base_def [symmetric] h_def [symmetric] h'_def [symmetric] by (rule if_not_P)
  with c show "clean (stable_hostname seed prefix)" "length (stable_hostname seed prefix) \<le> HOSTNAME_MAX_LENGTH"
    by simp_all
qed

text \<open>A short clean name is kept behind its prefix.\<close>

lemma clean_append:
  assumes "clean a" "clean b"
  shows "clean (a @ ''-'' @ b)"
proof -
  have "single_dashes (a @ ''-'' @ b)" if "single_dashes a" "a \<noteq> []" "last a \<noteq> CHR ''-''" for a
    using that
  proof (induction a)
    case (Cons c a)
    then show ?case using assms(2) by (cases a) (auto simp: single_dashes_Cons clean_def dash_free_ends_def)
  qed simp
  then show ?thesis using assms by (simp add: clean_def dash_free_ends_def)
qed

lemma stable_hostname_keeps:
  assumes "clean prefix" "clean seed" "length prefix + 1 + length seed \<le> HOSTNAME_MAX_LENGTH"
  shows "stable_hostname seed prefix = prefix @ ''-'' @ seed"
proof -
  let ?b = "prefix @ ''-'' @ seed"
  have b: "clean ?b" by (rule clean_append [OF assms(1,2)])
  have space: "\<not> is_space c" if "hostname_char c" for c
    using that by (auto simp: hostname_char_def is_space_def Let_def)
  have "\<not> is_space (hd seed)" "\<not> is_space (last seed)" "seed \<noteq> []"
    using assms(2) space by (auto simp: clean_def dash_free_ends_def list_all_iff)
  then have "dropWhile is_space seed = seed" "dropWhile is_space (rev seed) = rev seed"
    unfolding dropWhile_eq_self_iff by (simp_all add: hd_rev)
  then have s: "str_strip seed = seed" by (simp add: str_strip_def)
  have l: "str_lower seed = seed" using assms(2)
    by (auto simp: clean_def str_lower_def list_all_iff hostname_char_lower intro!: map_idI)
  have r: "sub_runs (\<lambda>c. \<not> hostname_char c) ''-'' ?b = ?b" using b by (intro sub_runs_none) (simp add: clean_def)
  have d: "sub_runs (\<lambda>c. c = CHR ''-'') ''-'' ?b = ?b" using b by (intro single_dashes_keeps) (simp add: clean_def)
  have st: "strip_dashes ?b = ?b" using b by (intro strip_dashes_keeps) (simp add: clean_def)
  have t: "take HOSTNAME_MAX_LENGTH ?b = ?b" using assms(3) by simp
  have ne: "prefix \<noteq> []" using assms(1) by (auto simp: clean_def dash_free_ends_def)
  show ?thesis unfolding stable_hostname_def Let_def s l if_P [OF ne] r d st using t st by simp
qed

section \<open>Properties\<close>

text \<open>A generated hostname is a valid one, whatever the seed is, when the prefix is empty or itself
  a clean name: it passes \<open>validate_hostname\<close>.\<close>

theorem stable_hostname_valid:
  assumes "prefix = [] \<or> clean prefix"
  shows "validate_hostname (stable_hostname seed prefix) = None"
  using stable_hostname_clean [OF assms] by (rule clean_validates)

theorem stable_hostname_valid_witness:
  "validate_hostname (stable_hostname ''  My_Job//7 '' ''sandbox-node'') = None"
  by (rule stable_hostname_valid) (simp add: sandbox_node_clean)

end
