(* ===== verification/Reconcile.thy ===== *)
theory Reconcile
  imports Scale_Drain Networking
begin

text \<open>
  \<open>src/ucloud_sandboxes/reconcile.py\<close>: the builder pool's scale decision, the create intents of a
  decision, and the guards between a stop decision and the provider (\<open>node_drain_ready\<close>,
  \<open>partition_safe_stop_job_ids\<close>). The package version, the deployment id and the random part of a
  cycle's seed are arguments. \<open>parse\<close> stands for \<open>parse_iso_datetime\<close>.
\<close>

section \<open>Labels and intents\<close>

definition NODE_LABEL :: string where "NODE_LABEL = ''ucloud-sandboxes/node''"
definition BUILDER_LABEL :: string where "BUILDER_LABEL = ''ucloud-sandboxes/builder''"
definition RECONCILE_LABEL :: string where "RECONCILE_LABEL = ''ucloud-sandboxes/reconcile''"
definition RECONCILE_CYCLE_LABEL :: string where "RECONCILE_CYCLE_LABEL = ''ucloud-sandboxes/reconcile-cycle''"
definition CREATE_INDEX_LABEL :: string where "CREATE_INDEX_LABEL = ''ucloud-sandboxes/create-index''"
definition DEPLOYMENT_LABEL :: string where "DEPLOYMENT_LABEL = ''ucloud-sandboxes/deployment''"
definition AGENT_VERSION_LABEL :: string where "AGENT_VERSION_LABEL = ''ucloud-sandboxes/agent-version''"
definition INIT_VERSION_LABEL :: string where "INIT_VERSION_LABEL = ''ucloud-sandboxes/init-version''"
definition DEFAULT_INIT_VERSION :: string where "DEFAULT_INIT_VERSION = ''3''"
definition PROVIDER_OPERATION_LABEL :: string where
  "PROVIDER_OPERATION_LABEL = ''ucloud-sandboxes/provider-operation''"

datatype Role = Sandbox_Role | Builder_Role

record InstanceCreateIntent =
  in_seed :: string
  in_role :: Role
  in_name :: string
  in_node_id :: string
  in_node_url :: string
  in_labels :: "(string, string) dict"

datatype label_error = OperationIdRequired | OtherOperation | DeploymentIdRequired | OtherDeployment

text \<open>\<open>existing and existing != wanted\<close> for a label.\<close>

definition conflicts :: "(string, string) dict \<Rightarrow> string \<Rightarrow> string \<Rightarrow> bool" where
  "conflicts labels key wanted = (case dict_get labels key of None \<Rightarrow> False | Some v \<Rightarrow> v \<noteq> [] \<and> v \<noteq> wanted)"

definition with_provider_operation_label ::
  "InstanceCreateIntent \<Rightarrow> string \<Rightarrow> string option \<Rightarrow> label_error + InstanceCreateIntent" where
  "with_provider_operation_label intent operation_id deployment_id =
     (let operation = str_strip operation_id;
          labels = in_labels intent;
          labels' = AList.update PROVIDER_OPERATION_LABEL operation labels
      in if operation = [] then Inl OperationIdRequired
         else if conflicts labels PROVIDER_OPERATION_LABEL operation then Inl OtherOperation
         else case deployment_id of
                None \<Rightarrow> Inr (intent\<lparr>in_labels := labels'\<rparr>)
              | Some d \<Rightarrow>
                  (let deployment = str_strip d
                   in if deployment = [] then Inl DeploymentIdRequired
                      else if conflicts labels' DEPLOYMENT_LABEL deployment then Inl OtherDeployment
                      else Inr (intent\<lparr>in_labels := AList.update DEPLOYMENT_LABEL deployment labels'\<rparr>)))"

text \<open>The row of the role table: seed part, node prefix, name prefix and label.\<close>

fun role_row :: "Role \<Rightarrow> string \<times> string \<times> string \<times> string" where
  "role_row Sandbox_Role = ([], ''sandbox-node'', ''ucloud-sandbox-node'', NODE_LABEL)"
| "role_row Builder_Role = (''-builder'', ''sandbox-builder'', ''ucloud-sandbox-builder'', BUILDER_LABEL)"

definition create_intent :: "string \<Rightarrow> string \<Rightarrow> Role \<Rightarrow> string \<Rightarrow> nat \<Rightarrow> InstanceCreateIntent" where
  "create_intent deployment_id version role cycle_seed index =
     (case role_row role of
        (seed_role, node_prefix, name_prefix, role_label) \<Rightarrow>
          (let seed = cycle_seed @ seed_role @ ''-'' @ str_nat index;
               hostname = stable_hostname seed node_prefix
           in \<lparr>in_seed = seed, in_role = role, in_name = stable_hostname seed name_prefix, in_node_id = hostname,
               in_node_url = ''http://'' @ hostname @ '':8090'',
               in_labels = [(role_label, ''true''), (RECONCILE_LABEL, ''true''), (RECONCILE_CYCLE_LABEL, cycle_seed),
                  (CREATE_INDEX_LABEL, str_nat index), (DEPLOYMENT_LABEL, deployment_id),
                  (AGENT_VERSION_LABEL, version), (INIT_VERSION_LABEL, DEFAULT_INIT_VERSION)]\<rparr>))"

definition build_create_intents ::
  "string \<Rightarrow> string \<Rightarrow> string \<Rightarrow> 'r ScaleDecision \<Rightarrow> Role \<Rightarrow> string option \<Rightarrow> InstanceCreateIntent list" where
  "build_create_intents deployment_id version uuid decision role seed_prefix =
     (if creates decision \<le> 0 then []
      else
        let cycle_seed = stable_hostname (str_or seed_prefix (take 10 uuid)) []
        in map (create_intent deployment_id version role cycle_seed) [1..<nat (creates decision) + 1])"

section \<open>The builder pool\<close>

definition DEFAULT_MAX_ACTIVE_IMAGE_BUILDS :: int where
  "DEFAULT_MAX_ACTIVE_IMAGE_BUILDS = 4"

definition requested_builder_nodes :: "SandboxNode list \<Rightarrow> int \<Rightarrow> int \<Rightarrow> int" where
  "requested_builder_nodes nodes pending_builds prepared_builders =
     (let active = sum_list (map (\<lambda>n. case nd_heartbeat n of None \<Rightarrow> 0 | Some h \<Rightarrow> max 0 (hb_active_image_builds h))
            (filter (\<lambda>n. nd_heartbeat n \<noteq> None \<and> nd_heartbeat_fresh n \<and> \<not> job_is_final (nd_job n)
               \<and> \<not> job_is_lost (nd_job n) \<and> \<not> nd_permanently_lost n) nodes))
      in max (math_ceil (of_int (active + max 0 pending_builds) / of_int DEFAULT_MAX_ACTIVE_IMAGE_BUILDS))
             (max 0 prepared_builders))"

datatype BuilderReason =
    BuilderCapped int int
  | BuilderUnreachable
  | BuilderIncompatible
  | BuilderDemand int int int
  | BuilderMaxReached int
  | BuilderMeetsTarget int int int
  | BuilderIdle
  | BuilderMatches

definition builder_stop :: "SandboxNode list \<Rightarrow> BuilderReason \<Rightarrow> BuilderReason ScaleAction list \<times> BuilderReason list" where
  "builder_stop nodes reason =
     (if nodes = [] then ([], [])
      else ([\<lparr>act_kind = Stop, act_count = int (length nodes), act_job_ids = map nd_job_id nodes, act_reason = reason\<rparr>],
            [reason]))"

definition evaluate_builder_scale ::
  "(string \<Rightarrow> datetime option) \<Rightarrow> SandboxNode list \<Rightarrow> int \<Rightarrow> int \<Rightarrow> ScalePolicy \<Rightarrow> int \<Rightarrow> datetime
   \<Rightarrow> BuilderReason ScaleDecision" where
  "evaluate_builder_scale parse nodes pending_builds prepared_builders policy max_builder_nodes now =
     (let stop_budget = max 0 (max_stop_per_cycle policy);
          unreachable = py_prefix stop_budget (filter (\<lambda>n. unreachable_node_stop_ready n policy now) nodes);
          incompatible = py_prefix (max 0 (stop_budget - int (length unreachable)))
            (incompatible_stop_candidates parse
               (filter (\<lambda>n. nd_job_id n \<notin> set (map nd_job_id unreachable)) nodes) now 0);
          pool = filter (\<lambda>n. \<not> job_is_final (nd_job n) \<and> \<not> job_is_lost (nd_job n) \<and> \<not> nd_permanently_lost n) nodes;
          ready = filter nd_is_schedulable pool;
          provisioning = filter nd_is_provisioning pool;
          total_nodes = int (length pool);
          limit = max 0 max_builder_nodes;
          pending = max 0 pending_builds;
          prepared = max 0 prepared_builders;
          requested = requested_builder_nodes nodes pending prepared;
          desired = min requested limit;
          capped = (if limit < requested then [BuilderCapped requested limit] else []);
          (a1, r1) = builder_stop unreachable BuilderUnreachable;
          (a2, r2) = builder_stop incompatible BuilderIncompatible;
          (a3, r3) =
            (if 0 < desired then
               if total_nodes < desired then
                 (let n = min (desired - total_nodes) (min (max 0 (limit - total_nodes)) (max 0 (max_create_per_cycle policy)));
                      reason = BuilderDemand desired pending prepared
                  in if 0 < n
                     then ([\<lparr>act_kind = Create, act_count = n, act_job_ids = [], act_reason = reason\<rparr>], [reason])
                     else ([], []))
               else if limit \<le> total_nodes \<and> int (length ready) + int (length provisioning) < desired
               then ([], [BuilderMaxReached limit])
               else ([], [BuilderMeetsTarget desired pending prepared])
             else
               (let left = max 0 (max_stop_per_cycle policy - (int (length unreachable) + int (length incompatible)));
                    idle = py_prefix left (filter (\<lambda>n. nd_is_idle n
                      \<and> past_idle_grace n (builder_scale_down_idle_seconds policy) now) ready)
                in builder_stop idle BuilderIdle));
          actions = a1 @ a2 @ a3;
          reasons = capped @ r1 @ r2 @ r3
      in \<lparr>sd_actions = actions, sd_ready_nodes = int (length ready), sd_provisioning_nodes = int (length provisioning),
          sd_total_nodes = total_nodes, sd_reasons = (if actions = [] \<and> reasons = [] then [BuilderMatches] else reasons),
          sd_unreachable_nodes = 0, sd_pending_resources = 0, sd_suppressed_pending_resources = 0, sd_pending_count = 0,
          sd_suppressed_pending_count = 0, sd_prepared_resources = 0, sd_desired_resources = 0,
          sd_projected_free_resources = 0, sd_resource_deficit = 0, sd_live_signals = None, sd_pressure_scale_up = False,
          sd_create_pressure_scale_up = False, sd_effective_scale_down_idle_seconds = 0, sd_soft_drain_job_id = [],
          sd_soft_drain_selected = False, sd_soft_drain_clear_job_ids = []\<rparr>)"

section \<open>Guards of a stop\<close>

definition node_drain_ready :: "SandboxNode \<Rightarrow> string \<Rightarrow> bool" where
  "node_drain_ready n token =
     (let token = str_strip token
      in case nd_heartbeat n of
           None \<Rightarrow> False
         | Some h \<Rightarrow>
             if token = [] \<or> \<not> nd_heartbeat_fresh n then False
             else if \<not> hb_draining h \<or> hb_admission_open h \<or> hb_drain_token h \<noteq> token \<or> \<not> hb_inventory_complete h
                     \<or> hb_drain_activity_epoch h \<noteq> hb_activity_epoch h then False
             else if hb_inventory h \<noteq> [] \<or> active_workloads h \<noteq> 0 then False
             else list_all (\<lambda>q. q = 0) [hb_used_resources h, hb_reserved_resources h, hb_build_reserved_resources h])"

definition partition_safe_stop_job_ids ::
  "SandboxNode list \<Rightarrow> string list \<Rightarrow> string \<Rightarrow> string \<Rightarrow> string list \<times> string list" where
  "partition_safe_stop_job_ids nodes requested deployment_id ownership_label =
     (if deployment_id = [] then ([], requested)
      else
        let owned = map nd_job_id (filter (\<lambda>n. dict_get (job_labels (nd_job n)) DEPLOYMENT_LABEL = Some deployment_id
              \<and> dict_get (job_labels (nd_job n)) ownership_label = Some ''true'') nodes)
        in (filter (\<lambda>j. j \<in> set owned) requested, filter (\<lambda>j. j \<notin> set owned) requested))"

section \<open>Names of one cycle\<close>

lemma str_nat_digits: "list_all (\<lambda>c. hostname_char c \<and> c \<noteq> CHR ''-'') (str_nat n)"
proof (induction n rule: str_nat.induct)
  case (1 n)
  have digit: "hostname_char (char_of (48 + k)) \<and> char_of (48 + k) \<noteq> CHR ''-''" if "k < 10" for k :: nat
  proof -
    have "(of_char (char_of (48 + k) :: char) :: nat) = 48 + k" using that by (simp add: of_char_of)
    moreover from this have "char_of (48 + k) \<noteq> CHR ''-''" by (intro notI) simp
    ultimately show ?thesis using that by (simp add: hostname_char_def Let_def)
  qed
  show ?case
  proof (cases "n < 10")
    case True
    then show ?thesis by (subst str_nat.simps) (simp add: digit)
  next
    case False
    then show ?thesis using 1 by (subst str_nat.simps) (simp add: digit)
  qed
qed

lemma no_dash_clean: "list_all (\<lambda>c. hostname_char c \<and> c \<noteq> CHR ''-'') s \<Longrightarrow> s \<noteq> [] \<Longrightarrow> clean s"
proof -
  have "list_all (\<lambda>c. hostname_char c \<and> c \<noteq> CHR ''-'') s \<Longrightarrow> single_dashes s" for s
    by (induction s) (auto simp: single_dashes_Cons)
  then show "list_all (\<lambda>c. hostname_char c \<and> c \<noteq> CHR ''-'') s \<Longrightarrow> s \<noteq> [] \<Longrightarrow> clean s"
    by (auto simp: clean_def dash_free_ends_def list_all_iff)
qed

lemma str_nat_nonempty: "str_nat n \<noteq> []"
  by (subst str_nat.simps) simp

lemma str_nat_length: "0 < k \<Longrightarrow> n < 10 ^ k \<Longrightarrow> length (str_nat n) \<le> k"
proof (induction k arbitrary: n)
  case (Suc k)
  show ?case
  proof (cases "n < 10")
    case False
    have "k \<noteq> 0" using False Suc.prems(2) by (intro notI) simp
    moreover have "n div 10 < 10 ^ k" using Suc.prems(2) by (simp add: less_mult_imp_div_less mult.commute)
    ultimately have "length (str_nat (n div 10)) \<le> k" using Suc.IH by simp
    with False show ?thesis by (subst str_nat.simps) simp
  qed (subst str_nat.simps, simp)
qed simp

lemma prefixes_clean:
  "clean ''sandbox-node''" "clean ''ucloud-sandbox-node''" "clean ''sandbox-builder''" "clean ''ucloud-sandbox-builder''"
  by (simp_all add: clean_def dash_free_ends_def hostname_char_def)

lemma role_rows_clean:
  assumes "role_row role = (seed_role, node_prefix, name_prefix, label)"
  shows "clean node_prefix" "clean name_prefix" "length node_prefix \<le> 15" "length name_prefix \<le> 22" "length seed_role \<le> 8"
    and "clean c \<Longrightarrow> clean (c @ seed_role @ ''-'' @ str_nat i)"
proof -
  have i: "clean (str_nat i)" by (rule no_dash_clean [OF str_nat_digits str_nat_nonempty])
  have b: "clean ''builder''" by (rule no_dash_clean) (simp_all add: hostname_char_def)
  show "clean node_prefix" "clean name_prefix" "length node_prefix \<le> 15" "length name_prefix \<le> 22" "length seed_role \<le> 8"
    using assms prefixes_clean by (cases role; auto)+
  assume c: "clean c"
  show "clean (c @ seed_role @ ''-'' @ str_nat i)"
    using assms clean_append [OF c i] clean_append [OF clean_append [OF c b] i] by (cases role) auto
qed

lemma create_intent_node_id:
  assumes "role_row role = (seed_role, node_prefix, name_prefix, label)" "clean c"
    and "length c \<le> 20" "i < 10 ^ 10"
  shows "in_node_id (create_intent deployment version role c i) = node_prefix @ ''-'' @ c @ seed_role @ ''-'' @ str_nat i"
    and "in_name (create_intent deployment version role c i) = name_prefix @ ''-'' @ c @ seed_role @ ''-'' @ str_nat i"
proof -
  note r = role_rows_clean [OF assms(1)]
  have l: "length (str_nat i) \<le> 10" by (rule str_nat_length [OF _ assms(4)]) simp
  show "in_node_id (create_intent deployment version role c i) = node_prefix @ ''-'' @ c @ seed_role @ ''-'' @ str_nat i"
    "in_name (create_intent deployment version role c i) = name_prefix @ ''-'' @ c @ seed_role @ ''-'' @ str_nat i"
    using stable_hostname_keeps [OF r(1) r(6) [OF assms(2)], of i] stable_hostname_keeps [OF r(2) r(6) [OF assms(2)], of i]
      r(3-5) assms(1,3) l
    by (simp_all add: create_intent_def Let_def HOSTNAME_MAX_LENGTH_def)
qed

section \<open>The builder decision\<close>

definition builder_pool :: "SandboxNode list \<Rightarrow> SandboxNode list" where
  "builder_pool nodes = filter (\<lambda>n. \<not> job_is_final (nd_job n) \<and> \<not> job_is_lost (nd_job n) \<and> \<not> nd_permanently_lost n) nodes"

definition builder_unreachable :: "SandboxNode list \<Rightarrow> ScalePolicy \<Rightarrow> datetime \<Rightarrow> SandboxNode list" where
  "builder_unreachable nodes policy now =
     py_prefix (max 0 (max_stop_per_cycle policy)) (filter (\<lambda>n. unreachable_node_stop_ready n policy now) nodes)"

definition builder_incompatible ::
  "(string \<Rightarrow> datetime option) \<Rightarrow> SandboxNode list \<Rightarrow> ScalePolicy \<Rightarrow> datetime \<Rightarrow> SandboxNode list" where
  "builder_incompatible parse nodes policy now =
     py_prefix (max 0 (max 0 (max_stop_per_cycle policy) - int (length (builder_unreachable nodes policy now))))
       (incompatible_stop_candidates parse
          (filter (\<lambda>n. nd_job_id n \<notin> set (map nd_job_id (builder_unreachable nodes policy now))) nodes) now 0)"

definition builder_idle ::
  "(string \<Rightarrow> datetime option) \<Rightarrow> SandboxNode list \<Rightarrow> ScalePolicy \<Rightarrow> datetime \<Rightarrow> SandboxNode list" where
  "builder_idle parse nodes policy now =
     py_prefix (max 0 (max_stop_per_cycle policy - (int (length (builder_unreachable nodes policy now))
        + int (length (builder_incompatible parse nodes policy now)))))
       (filter (\<lambda>n. nd_is_idle n \<and> past_idle_grace n (builder_scale_down_idle_seconds policy) now)
          (filter nd_is_schedulable (builder_pool nodes)))"

lemma builder_stop_actions: "fst (builder_stop ns r) = (if ns = [] then [] else
  [\<lparr>act_kind = Stop, act_count = int (length ns), act_job_ids = map nd_job_id ns, act_reason = r\<rparr>])"
  by (simp add: builder_stop_def)

lemma builder_actions:
  fixes nodes policy max_builder_nodes pending_builds prepared_builders
  defines "limit \<equiv> max 0 max_builder_nodes"
    and "desired \<equiv> min (requested_builder_nodes nodes (max 0 pending_builds) (max 0 prepared_builders)) (max 0 max_builder_nodes)"
    and "n \<equiv> int (length (builder_pool nodes))"
  shows "sd_actions (evaluate_builder_scale parse nodes pending_builds prepared_builders policy max_builder_nodes now) =
    fst (builder_stop (builder_unreachable nodes policy now) BuilderUnreachable)
    @ fst (builder_stop (builder_incompatible parse nodes policy now) BuilderIncompatible)
    @ (if 0 < desired
       then (let m = min (desired - n) (min (max 0 (limit - n)) (max 0 (max_create_per_cycle policy)))
             in if n < desired \<and> 0 < m
                then [\<lparr>act_kind = Create, act_count = m, act_job_ids = [],
                       act_reason = BuilderDemand desired (max 0 pending_builds) (max 0 prepared_builders)\<rparr>] else [])
       else fst (builder_stop (builder_idle parse nodes policy now) BuilderIdle))"
  unfolding evaluate_builder_scale_def Let_def builder_pool_def [symmetric] builder_unreachable_def [symmetric]
    builder_incompatible_def [symmetric] builder_idle_def [symmetric] limit_def desired_def n_def
  by (auto simp: split_beta)

lemma builder_stop_parts [simp]:
  "filter (\<lambda>a. act_kind a = Create) (fst (builder_stop ns r)) = []"
  "concat (map act_job_ids (filter (\<lambda>a. act_kind a = Stop) (fst (builder_stop ns r)))) = map nd_job_id ns"
  by (simp_all add: builder_stop_actions)

lemma builder_total: "sd_total_nodes (evaluate_builder_scale parse nodes pb pp policy m now) = int (length (builder_pool nodes))"
  unfolding evaluate_builder_scale_def Let_def builder_pool_def by (simp add: split_beta)

lemma builder_stops_bound:
  "int (length (builder_unreachable nodes policy now)) + int (length (builder_incompatible parse nodes policy now))
     + int (length (builder_idle parse nodes policy now)) \<le> max 0 (max_stop_per_cycle policy)"
proof -
  have u: "int (length (builder_unreachable nodes policy now)) \<le> max 0 (max_stop_per_cycle policy)"
    unfolding builder_unreachable_def by (rule length_py_prefix) simp
  have i: "int (length (builder_incompatible parse nodes policy now))
      \<le> max 0 (max 0 (max_stop_per_cycle policy) - int (length (builder_unreachable nodes policy now)))"
    unfolding builder_incompatible_def by (rule length_py_prefix) simp
  have "int (length (builder_idle parse nodes policy now)) \<le> max 0 (max_stop_per_cycle policy
      - (int (length (builder_unreachable nodes policy now)) + int (length (builder_incompatible parse nodes policy now))))"
    unfolding builder_idle_def by (rule length_py_prefix) simp
  with u i show ?thesis by linarith
qed

section \<open>Properties\<close>


text \<open>A decision that only creates, for the witnesses.\<close>

definition create_decision :: "int \<Rightarrow> BuilderReason ScaleDecision" where
  "create_decision n = (evaluate_builder_scale (\<lambda>_. None) [] 0 0 default_policy 0 0)\<lparr>sd_actions :=
     [\<lparr>act_kind = Create, act_count = n, act_job_ids = [], act_reason = BuilderMatches\<rparr>]\<rparr>"


text \<open>The builder pool keeps its limits: a decision creates no more builders than the requested
  ones and the cycle limit and never takes the pool over \<open>max_builder_nodes\<close>, it stops at most
  \<open>max_stop_per_cycle\<close> workers, and it stops idle builders that are neither unreachable nor
  incompatible only when no builder is wanted; it then creates none.\<close>

theorem builder_scale_limits:
  assumes "d = evaluate_builder_scale parse nodes pending_builds prepared_builders policy max_builder_nodes now"
  shows "0 \<le> creates d
    \<and> (0 < creates d \<longrightarrow> sd_total_nodes d + creates d \<le> max 0 max_builder_nodes \<and> creates d \<le> max_create_per_cycle policy
        \<and> sd_total_nodes d + creates d \<le> requested_builder_nodes nodes (max 0 pending_builds) (max 0 prepared_builders))
    \<and> int (length (stops d)) \<le> max 0 (max_stop_per_cycle policy)
    \<and> (\<forall>j \<in> set (stops d). j \<in> nd_job_id ` set (builder_unreachable nodes policy now @ builder_incompatible parse nodes policy now)
         \<or> creates d = 0 \<and> (0 < max_builder_nodes \<longrightarrow> requested_builder_nodes nodes (max 0 pending_builds) (max 0 prepared_builders) \<le> 0)
            \<and> (\<exists>n \<in> set nodes. nd_job_id n = j \<and> nd_is_idle n \<and> past_idle_grace n (builder_scale_down_idle_seconds policy) now))"
proof -
  have idle: "n \<in> set nodes \<and> nd_is_idle n \<and> past_idle_grace n (builder_scale_down_idle_seconds policy) now"
    if "n \<in> set (builder_idle parse nodes policy now)" for n
    using that set_py_prefix unfolding builder_idle_def builder_pool_def by fastforce
  let ?requested = "requested_builder_nodes nodes (max 0 pending_builds) (max 0 prepared_builders)"
  define desired where "desired = min ?requested (max 0 max_builder_nodes)"
  define n where "n = int (length (builder_pool nodes))"
  define m where "m = min (desired - n) (min (max 0 (max 0 max_builder_nodes - n)) (max 0 (max_create_per_cycle policy)))"
  let ?forced = "map nd_job_id (builder_unreachable nodes policy now @ builder_incompatible parse nodes policy now)"
  note acts = builder_actions [of parse nodes pending_builds prepared_builders policy max_builder_nodes now,
      folded desired_def n_def, unfolded Let_def, folded m_def]
  have t: "sd_total_nodes d = n" unfolding assms n_def by (rule builder_total)
  have bound: "int (length ?forced) + int (length (builder_idle parse nodes policy now)) \<le> max 0 (max_stop_per_cycle policy)"
    using builder_stops_bound [of nodes policy now parse] by simp
  show ?thesis
  proof (cases "0 < desired")
    case True
    then have st: "stops d = ?forced" and c: "creates d = (if n < desired \<and> 0 < m then m else 0)"
      unfolding assms creates_def stops_def acts by simp_all
    have "m \<le> desired - n" unfolding m_def by (rule min.cobounded1)
    moreover have "m \<le> max 0 (max_create_per_cycle policy)" unfolding m_def
      by (rule min.coboundedI2, rule min.cobounded2)
    moreover have "desired \<le> ?requested" "desired \<le> max 0 max_builder_nodes"
      unfolding desired_def by (rule min.cobounded1, rule min.cobounded2)
    ultimately have "0 < m \<longrightarrow> n + m \<le> max 0 max_builder_nodes \<and> m \<le> max_create_per_cycle policy \<and> n + m \<le> ?requested"
      by linarith
    then have "0 \<le> creates d" "0 < creates d \<longrightarrow> n + creates d \<le> max 0 max_builder_nodes
        \<and> creates d \<le> max_create_per_cycle policy \<and> n + creates d \<le> ?requested"
      unfolding c by (cases "n < desired \<and> 0 < m"; simp)+
    moreover have "int (length (stops d)) \<le> max 0 (max_stop_per_cycle policy)" using bound unfolding st by linarith
    moreover have "\<forall>j \<in> set (stops d). j \<in> set ?forced" unfolding st by blast
    ultimately show ?thesis unfolding t set_map by blast
  next
    case False
    then have st: "stops d = ?forced @ map nd_job_id (builder_idle parse nodes policy now)" and c: "creates d = 0"
      unfolding assms creates_def stops_def acts by simp_all
    have "0 < max_builder_nodes \<longrightarrow> ?requested \<le> 0" using False by (auto simp: desired_def)
    moreover have "int (length (stops d)) \<le> max 0 (max_stop_per_cycle policy)" using bound unfolding st by simp
    moreover have "\<forall>j \<in> set (stops d). j \<in> set ?forced \<or> (\<exists>n \<in> set nodes. nd_job_id n = j \<and> nd_is_idle n
        \<and> past_idle_grace n (builder_scale_down_idle_seconds policy) now)" unfolding st using idle by auto
    ultimately show ?thesis unfolding c t set_map by auto
  qed
qed

theorem builder_scale_limits_witness:
  "creates (evaluate_builder_scale (\<lambda>_. None) [] 9 0 default_policy 2 0) = 2
   \<and> sd_total_nodes (evaluate_builder_scale (\<lambda>_. None) [] 9 0 default_policy 2 0)
       + creates (evaluate_builder_scale (\<lambda>_. None) [] 9 0 default_policy 2 0) \<le> 2"
proof -
  have c: "creates (evaluate_builder_scale (\<lambda>_. None) [] 9 0 default_policy 2 0) = 2" by code_simp
  with builder_scale_limits [OF refl, of "\<lambda>_. None" "[]" 9 0 default_policy 2 0] show ?thesis by simp
qed

end
