(* ===== verification/Autoscaler_Journal.thy ===== *)
theory Autoscaler_Journal
  imports Reconcile Wire
begin

text \<open>
  \<open>src/ucloud_sandboxes/autoscaler_state.py\<close>: the durable journal of provider operations, operation
  slots, drain intents and delete replays. A table is a dict by primary key; every method runs in one
  transaction, so it is a function from the store to an error (which rolls back) or the new store and
  its answer. Rows are typed records, so the checks of stored states and JSON columns are the types.
  \<open>uuid5\<close> (the hex form of a name-based UUID) and \<open>uuid4\<close> (a fresh random UUID) are arguments;
  no result relies on what they return. Times are microseconds.
\<close>

section \<open>Rows\<close>

datatype OpKind = CreateOp | StopOp
datatype OpState = Prepared | Uncertain | Accepted | Settled | Failed
datatype DrainState = DrainActive | DrainCanceling
datatype SlotState = Reserved | Mirrors OpState

datatype journal_error =
    Required string
  | InvalidKind
  | InvalidRole
  | IntentChanged string
  | WrongState string OpState
  | NoOperation string
  | DrainRoleChanged string
  | DrainNotActive string
  | NoDrain string

record ProviderOperation =
  po_operation_id :: string
  po_intent_key :: string
  po_kind :: OpKind
  po_deployment_id :: string
  po_role :: Role
  po_state :: OpState
  po_request :: "(string, json) dict"
  po_response :: "(string, json) dict"
  po_target_job_ids :: "string list"
  po_created_at :: int
  po_updated_at :: int
  po_last_error :: string

record OperationSlot =
  sl_incarnation :: nat
  sl_state :: SlotState
  sl_updated_at :: int

record DrainIntent =
  di_deployment_id :: string
  di_job_id :: string
  di_role :: string
  di_token :: string
  di_state :: DrainState
  di_created_at :: int
  di_updated_at :: int

type_synonym slot_key = "string \<times> OpKind \<times> string"
type_synonym delete_key = "string \<times> string"

record Journal =
  jn_operations :: "(string, ProviderOperation) dict"
  jn_slots :: "(slot_key, OperationSlot) dict"
  jn_drains :: "(string \<times> string, DrainIntent) dict"
  jn_attempts :: "(string \<times> delete_key, int) dict"

definition empty_journal :: Journal where
  "empty_journal = \<lparr>jn_operations = [], jn_slots = [], jn_drains = [], jn_attempts = []\<rparr>"

type_synonym 'a journal_result = "journal_error + (Journal \<times> 'a)"

section \<open>Cleaning of arguments\<close>

definition need :: "string \<Rightarrow> string \<Rightarrow> (string \<Rightarrow> journal_error + 'a) \<Rightarrow> journal_error + 'a" where
  "need label s k = (let cleaned = str_strip s in if cleaned = [] then Inl (Required label) else k cleaned)"

definition operation_kind :: "string \<Rightarrow> OpKind option" where
  "operation_kind s =
     (let kind = str_strip s
      in if kind = ''create'' then Some CreateOp else if kind = ''stop'' then Some StopOp else None)"

definition provider_role :: "string \<Rightarrow> Role option" where
  "provider_role s =
     (let role = str_strip s
      in if role = ''sandbox'' then Some Sandbox_Role else if role = ''builder'' then Some Builder_Role else None)"

fun kind_str :: "OpKind \<Rightarrow> string" where
  "kind_str CreateOp = ''create''"
| "kind_str StopOp = ''stop''"

fun role_str :: "Role \<Rightarrow> string" where
  "role_str Sandbox_Role = ''sandbox''"
| "role_str Builder_Role = ''builder''"

text \<open>\<open>_job_ids\<close>: stripped, without the empty ones, each once in order of first occurrence.\<close>

definition job_ids_of :: "string list \<Rightarrow> string list" where
  "job_ids_of values = rev (remdups (rev (filter (\<lambda>v. v \<noteq> []) (map str_strip values))))"

text \<open>Equality of two JSON values in Python: numbers and booleans by value, objects without order,
  and NaN equal to nothing.\<close>

function (sequential) canonical :: "json \<Rightarrow> json" where
  "canonical (JBool b) = JFloat (if b then 1 else 0)"
| "canonical (JInt i) = JFloat (of_int i)"
| "canonical (JList l) = JList (map canonical l)"
| "canonical (JObj d) = JObj (sort_key fst (map (\<lambda>p. (fst p, canonical (snd p))) d))"
| "canonical j = j"
  by pat_completeness auto
termination
proof (relation "measure size", goal_cases)
  case (3 d p)
  obtain k v where p: "p = (k, v)" by (cases p)
  with 3 have "size v < size (JObj d)"
    by (auto simp: less_Suc_eq_le intro: size_list_estimation' [of p])
  with p show ?case by simp
qed (auto simp: less_Suc_eq_le size_list_estimation')

function (sequential) contains_nan :: "json \<Rightarrow> bool" where
  "contains_nan JNaN = True"
| "contains_nan (JList l) = list_ex contains_nan l"
| "contains_nan (JObj d) = list_ex (\<lambda>p. contains_nan (snd p)) d"
| "contains_nan j = False"
  by pat_completeness auto
termination
proof (relation "measure size", goal_cases)
  case (3 d p)
  obtain k v where p: "p = (k, v)" by (cases p)
  with 3 have "size v < size (JObj d)"
    by (auto simp: less_Suc_eq_le intro: size_list_estimation' [of p])
  with p show ?case by simp
qed (auto simp: less_Suc_eq_le size_list_estimation')

definition json_obj_eq :: "(string, json) dict \<Rightarrow> (string, json) dict \<Rightarrow> bool" where
  "json_obj_eq a b \<longleftrightarrow> \<not> contains_nan (JObj a) \<and> canonical (JObj a) = canonical (JObj b)"

definition stable_provider_operation_id :: "(string \<Rightarrow> string) \<Rightarrow> string \<Rightarrow> OpKind \<Rightarrow> string \<Rightarrow> string" where
  "stable_provider_operation_id uuid5 deployment kind key =
     ''provider-'' @ uuid5 (''ucloud-sandboxes/provider-operation/'' @ deployment @ ''/'' @ kind_str kind @ ''/'' @ key)"

section \<open>Operation slots\<close>

text \<open>\<open>intent_key.rpartition("#")\<close>, None without a \<open>#\<close>.\<close>

definition rpartition_hash :: "string \<Rightarrow> (string \<times> string) option" where
  "rpartition_hash s =
     (let tail = takeWhile (\<lambda>c. c \<noteq> CHR ''#'') (rev s);
          rest = dropWhile (\<lambda>c. c \<noteq> CHR ''#'') (rev s)
      in case rest of [] \<Rightarrow> None | _ # front \<Rightarrow> Some (rev front, rev tail))"

definition split_intent_key :: "string \<Rightarrow> string \<times> nat" where
  "split_intent_key key =
     (case rpartition_hash key of
        None \<Rightarrow> (key, 1)
      | Some (base, raw) \<Rightarrow>
          if raw \<noteq> [] \<and> list_all is_digit raw \<and> 2 \<le> nat_str raw then (base, nat_str raw) else (key, 1))"

definition slot_intent_key :: "string \<Rightarrow> nat \<Rightarrow> string" where
  "slot_intent_key base incarnation = (if incarnation = 1 then base else base @ ''#'' @ str_nat incarnation)"

definition set_slot :: "slot_key \<Rightarrow> nat \<Rightarrow> SlotState \<Rightarrow> int \<Rightarrow> Journal \<Rightarrow> Journal" where
  "set_slot k incarnation st now j =
     j\<lparr>jn_slots := AList.update k \<lparr>sl_incarnation = incarnation, sl_state = st, sl_updated_at = now\<rparr> (jn_slots j)\<rparr>"

definition update_slot_state :: "string \<Rightarrow> OpKind \<Rightarrow> string \<Rightarrow> OpState \<Rightarrow> int \<Rightarrow> Journal \<Rightarrow> Journal" where
  "update_slot_state deployment kind key st now j =
     (case split_intent_key key of
        (base, incarnation) \<Rightarrow>
          (case dict_get (jn_slots j) (deployment, kind, base) of
             None \<Rightarrow> set_slot (deployment, kind, base) incarnation (Mirrors st) now j
           | Some slot \<Rightarrow>
               if sl_incarnation slot \<le> incarnation
               then set_slot (deployment, kind, base) incarnation (Mirrors st) now j else j))"

fun slot_terminal :: "SlotState \<Rightarrow> bool" where
  "slot_terminal Reserved = False"
| "slot_terminal (Mirrors st) = (st = Settled \<or> st = Failed)"

definition allocate_operation_intent_key ::
  "string \<Rightarrow> string \<Rightarrow> string \<Rightarrow> int \<Rightarrow> Journal \<Rightarrow> string journal_result" where
  "allocate_operation_intent_key deployment_id kind base_key now j =
     need ''deployment_id'' deployment_id (\<lambda>deployment.
       case operation_kind kind of
         None \<Rightarrow> Inl InvalidKind
       | Some op_kind \<Rightarrow>
           need ''base_key'' base_key (\<lambda>base.
             case dict_get (jn_slots j) (deployment, op_kind, base) of
               None \<Rightarrow> Inr (set_slot (deployment, op_kind, base) 1 Reserved now j, slot_intent_key base 1)
             | Some slot \<Rightarrow>
                 if slot_terminal (sl_state slot)
                 then Inr (set_slot (deployment, op_kind, base) (sl_incarnation slot + 1) Reserved now j,
                           slot_intent_key base (sl_incarnation slot + 1))
                 else Inr (j, slot_intent_key base (sl_incarnation slot))))"

section \<open>Provider operations\<close>

definition put_operation :: "ProviderOperation \<Rightarrow> Journal \<Rightarrow> Journal" where
  "put_operation op j = j\<lparr>jn_operations := AList.update (po_operation_id op) op (jn_operations j)\<rparr>"

definition prepare_operation ::
  "(string \<Rightarrow> string) \<Rightarrow> string \<Rightarrow> string \<Rightarrow> string \<Rightarrow> (string, json) dict \<Rightarrow> string \<Rightarrow> string list \<Rightarrow> int \<Rightarrow> Journal
   \<Rightarrow> ProviderOperation journal_result" where
  "prepare_operation uuid5 intent_key kind deployment_id request role target_job_ids now j =
     need ''intent_key'' intent_key (\<lambda>key.
       case operation_kind kind of
         None \<Rightarrow> Inl InvalidKind
       | Some op_kind \<Rightarrow>
           need ''deployment_id'' deployment_id (\<lambda>deployment.
             case provider_role role of
               None \<Rightarrow> Inl InvalidRole
             | Some op_role \<Rightarrow>
                 let job_ids = job_ids_of target_job_ids;
                     op_id = stable_provider_operation_id uuid5 deployment op_kind key
                 in case dict_get (jn_operations j) op_id of
                      Some existing \<Rightarrow>
                        if po_intent_key existing \<noteq> key \<or> po_kind existing \<noteq> op_kind
                           \<or> po_deployment_id existing \<noteq> deployment \<or> po_role existing \<noteq> op_role
                           \<or> \<not> json_obj_eq (po_request existing) request \<or> po_target_job_ids existing \<noteq> job_ids
                        then Inl (IntentChanged key) else Inr (j, existing)
                    | None \<Rightarrow>
                        let op = \<lparr>po_operation_id = op_id, po_intent_key = key, po_kind = op_kind,
                              po_deployment_id = deployment, po_role = op_role, po_state = Prepared, po_request = request,
                              po_response = [], po_target_job_ids = job_ids, po_created_at = now, po_updated_at = now,
                              po_last_error = []\<rparr>
                        in Inr (update_slot_state deployment op_kind key Prepared now (put_operation op j), op)))"

definition transition_operation ::
  "string \<Rightarrow> OpState list \<Rightarrow> OpState \<Rightarrow> (string, json) dict option \<Rightarrow> string list option \<Rightarrow> string option \<Rightarrow> int \<Rightarrow> Journal
   \<Rightarrow> ProviderOperation journal_result" where
  "transition_operation operation_id expected new_state response target_job_ids last_error now j =
     (case dict_get (jn_operations j) operation_id of
        None \<Rightarrow> Inl (NoOperation operation_id)
      | Some op \<Rightarrow>
          if po_state op \<notin> set expected then Inl (WrongState operation_id (po_state op))
          else
            let op' = op\<lparr>po_state := new_state,
                  po_response := (case response of None \<Rightarrow> po_response op | Some r \<Rightarrow> r),
                  po_target_job_ids := (case target_job_ids of None \<Rightarrow> po_target_job_ids op | Some l \<Rightarrow> job_ids_of l),
                  po_updated_at := now,
                  po_last_error := (case last_error of None \<Rightarrow> po_last_error op | Some e \<Rightarrow> e)\<rparr>
            in Inr (update_slot_state (po_deployment_id op) (po_kind op) (po_intent_key op) new_state now
                      (j\<lparr>jn_operations := AList.update operation_id op' (jn_operations j)\<rparr>), op'))"

definition begin_provider_call :: "string \<Rightarrow> int \<Rightarrow> Journal \<Rightarrow> ProviderOperation journal_result" where
  "begin_provider_call operation_id = transition_operation operation_id [Prepared] Uncertain None None None"

definition mark_operation_accepted ::
  "string \<Rightarrow> (string, json) dict \<Rightarrow> string list \<Rightarrow> int \<Rightarrow> Journal \<Rightarrow> ProviderOperation journal_result" where
  "mark_operation_accepted operation_id response target_job_ids =
     transition_operation operation_id [Uncertain] Accepted (Some response) (Some target_job_ids) (Some [])"

definition mark_operation_uncertain :: "string \<Rightarrow> string \<Rightarrow> int \<Rightarrow> Journal \<Rightarrow> ProviderOperation journal_result" where
  "mark_operation_uncertain operation_id err =
     transition_operation operation_id [Uncertain] Uncertain None None (Some err)"

definition mark_operation_failed ::
  "string \<Rightarrow> string \<Rightarrow> (string, json) dict option \<Rightarrow> int \<Rightarrow> Journal \<Rightarrow> ProviderOperation journal_result" where
  "mark_operation_failed operation_id err response =
     transition_operation operation_id [Uncertain] Failed response None (Some err)"

definition suppress_prepared_operation :: "string \<Rightarrow> string \<Rightarrow> int \<Rightarrow> Journal \<Rightarrow> ProviderOperation journal_result" where
  "suppress_prepared_operation operation_id reason =
     transition_operation operation_id [Prepared] Failed None None (Some reason)"

definition list_operations :: "OpKind option \<Rightarrow> OpState list \<Rightarrow> Journal \<Rightarrow> ProviderOperation list" where
  "list_operations kind states j =
     sort_key (\<lambda>op. (po_created_at op, po_operation_id op))
       (filter (\<lambda>op. (kind = None \<or> kind = Some (po_kind op)) \<and> (states = [] \<or> po_state op \<in> set states))
          (map snd (jn_operations j)))"

definition terminal_operations :: "Journal \<Rightarrow> ProviderOperation list" where
  "terminal_operations j = filter (\<lambda>op. po_state op = Settled \<or> po_state op = Failed) (map snd (jn_operations j))"

definition compact_terminal_history :: "int \<Rightarrow> Journal \<Rightarrow> Journal \<times> int" where
  "compact_terminal_history keep j =
     (let retain = nat (max 0 keep);
          newest = rev (sort_key (\<lambda>op. (po_updated_at op, po_operation_id op)) (terminal_operations j));
          gone = map po_operation_id (drop retain newest);
          j' = j\<lparr>jn_operations := filter (\<lambda>(i, op). i \<notin> set gone) (jn_operations j)\<rparr>
      in (j', int (length (terminal_operations j)) - int (length (terminal_operations j'))))"

section \<open>Recovery from the provider's inventory\<close>

datatype OutcomeState =
  Out_Accepted | Out_Failed | Out_Uncertain | Out_Recovered | Out_Retry | Out_Conflict | Out_Unresolved

datatype OutcomeSource = Inventory_Recovery | Prepared_Replay | Planned | Journal_Source

record ProviderOperationOutcome =
  oc_operation_id :: string
  oc_kind :: OpKind
  oc_role :: Role
  oc_state :: OutcomeState
  oc_job_ids :: "string list"
  oc_source :: OutcomeSource
  oc_error :: string

text \<open>\<open>from_operation\<close> with every optional argument given; the state of an operation is an outcome
  state except for a prepared or settled one, which the constructor refuses.\<close>

definition outcome_of :: "ProviderOperation \<Rightarrow> OutcomeSource \<Rightarrow> OutcomeState \<Rightarrow> string list \<Rightarrow> string \<Rightarrow> ProviderOperationOutcome" where
  "outcome_of op source st job_ids err =
     \<lparr>oc_operation_id = po_operation_id op, oc_kind = po_kind op, oc_role = po_role op, oc_state = st,
      oc_job_ids = job_ids, oc_source = source, oc_error = err\<rparr>"

fun operation_outcome_state :: "OpState \<Rightarrow> OutcomeState option" where
  "operation_outcome_state Accepted = Some Out_Accepted"
| "operation_outcome_state Failed = Some Out_Failed"
| "operation_outcome_state Uncertain = Some Out_Uncertain"
| "operation_outcome_state Prepared = None"
| "operation_outcome_state Settled = None"

text \<open>The labelled text of an instance, \<open>str(labels.get(key) or "").strip()\<close>.\<close>

definition instance_label :: "string \<Rightarrow> ProviderInstance \<Rightarrow> string" where
  "instance_label key i = str_strip (str_or (dict_get (job_labels i) key) [])"

definition identified :: "ProviderInstance list \<Rightarrow> ProviderInstance list" where
  "identified instances = filter (\<lambda>i. str_strip (job_id_of i) \<noteq> []) instances"

definition observed_job_ids :: "ProviderInstance list \<Rightarrow> string list" where
  "observed_job_ids instances = map (\<lambda>i. str_strip (job_id_of i)) (identified instances)"

definition final_job_ids :: "ProviderInstance list \<Rightarrow> string list" where
  "final_job_ids instances = map (\<lambda>i. str_strip (job_id_of i)) (filter job_is_final (identified instances))"

definition labelled_job_ids :: "ProviderInstance list \<Rightarrow> string \<Rightarrow> string \<Rightarrow> string list" where
  "labelled_job_ids instances operation_id deployment_id =
     (if operation_id = [] \<or> deployment_id = [] then []
      else map (\<lambda>i. str_strip (job_id_of i))
             (filter (\<lambda>i. instance_label PROVIDER_OPERATION_LABEL i = operation_id
                \<and> instance_label DEPLOYMENT_LABEL i = deployment_id) (identified instances)))"

text \<open>One turn of the loop over the open creates and of the loop over the open stops. \<open>now\<close> reads the
  clock of the turn of an operation.\<close>

definition reconcile_create ::
  "ProviderInstance list \<Rightarrow> (string \<Rightarrow> int) \<Rightarrow> ProviderOperation \<Rightarrow> Journal \<Rightarrow> ProviderOperationOutcome list journal_result" where
  "reconcile_create instances now op j =
     (if po_state op = Accepted then
        if po_target_job_ids op \<noteq> [] \<and> set (po_target_job_ids op) \<subseteq> set (observed_job_ids instances)
        then (case transition_operation (po_operation_id op) [Accepted] Settled None None None (now (po_operation_id op)) j of
                Inl e \<Rightarrow> Inl e | Inr (j', _) \<Rightarrow> Inr (j', []))
        else Inr (j, [])
      else
        let job_ids = job_ids_of (labelled_job_ids instances (po_operation_id op) (po_deployment_id op))
        in if length job_ids = 1
           then (case transition_operation (po_operation_id op) [Uncertain] Settled
                        (Some [(''recoveredFromJobInventory'', JBool True)]) (Some job_ids) (Some [])
                        (now (po_operation_id op)) j of
                   Inl e \<Rightarrow> Inl e
                 | Inr (j', _) \<Rightarrow> Inr (j', [outcome_of op Inventory_Recovery Out_Recovered job_ids []]))
           else Inr (j, [outcome_of op Inventory_Recovery (if 1 < length job_ids then Out_Conflict else Out_Unresolved)
                           job_ids []]))"

definition reconcile_stop ::
  "ProviderInstance list \<Rightarrow> (string \<Rightarrow> int) \<Rightarrow> ProviderOperation \<Rightarrow> Journal \<Rightarrow> ProviderOperationOutcome list journal_result" where
  "reconcile_stop instances now op j =
     (let targets = set (po_target_job_ids op);
          final = set (final_job_ids instances)
      in if po_state op = Accepted then
           if po_target_job_ids op \<noteq> [] \<and> targets \<inter> (set (observed_job_ids instances) - final) = {}
           then (case transition_operation (po_operation_id op) [Accepted] Settled None None None (now (po_operation_id op)) j of
                   Inl e \<Rightarrow> Inl e
                 | Inr (j', _) \<Rightarrow>
                     Inr (j', [outcome_of op Inventory_Recovery Out_Recovered (po_target_job_ids op) []]))
           else Inr (j, [])
         else
           let all_final = po_target_job_ids op \<noteq> [] \<and> targets \<subseteq> final;
               started = AList.update ''providerCallStarted'' (JBool True) (po_response op);
               response = (if all_final then AList.update ''recoveredFromFinalJobInventory'' (JBool True) started
                           else started)
           in case transition_operation (po_operation_id op) [Uncertain] (if all_final then Settled else Prepared)
                     (Some response) None (Some (if all_final then [] else po_last_error op)) (now (po_operation_id op)) j of
                Inl e \<Rightarrow> Inl e
              | Inr (j', _) \<Rightarrow>
                  Inr (j', [outcome_of op Inventory_Recovery (if all_final then Out_Recovered else Out_Retry)
                              (po_target_job_ids op) []]))"

fun reconcile_loop ::
  "(ProviderOperation \<Rightarrow> Journal \<Rightarrow> ProviderOperationOutcome list journal_result) \<Rightarrow> ProviderOperation list \<Rightarrow> Journal
   \<Rightarrow> ProviderOperationOutcome list journal_result" where
  "reconcile_loop f [] j = Inr (j, [])"
| "reconcile_loop f (op # ops) j =
     (case f op j of
        Inl e \<Rightarrow> Inl e
      | Inr (j', out) \<Rightarrow>
          (case reconcile_loop f ops j' of Inl e \<Rightarrow> Inl e | Inr (j'', outs) \<Rightarrow> Inr (j'', out @ outs)))"

definition reconcile_provider_inventory ::
  "ProviderInstance list \<Rightarrow> (string \<Rightarrow> int) \<Rightarrow> Journal \<Rightarrow> ProviderOperationOutcome list journal_result" where
  "reconcile_provider_inventory instances now j =
     (case reconcile_loop (reconcile_create instances now) (list_operations (Some CreateOp) [Uncertain, Accepted] j) j of
        Inl e \<Rightarrow> Inl e
      | Inr (j1, recovered) \<Rightarrow>
          (case reconcile_loop (reconcile_stop instances now) (list_operations (Some StopOp) [Uncertain, Accepted] j1) j1 of
             Inl e \<Rightarrow> Inl e | Inr (j2, stopped) \<Rightarrow> Inr (j2, recovered @ stopped)))"

section \<open>Drain intents\<close>

definition put_drain :: "DrainIntent \<Rightarrow> Journal \<Rightarrow> Journal" where
  "put_drain d j = j\<lparr>jn_drains := AList.update (di_deployment_id d, di_job_id d) d (jn_drains j)\<rparr>"

definition prepare_drain_intent ::
  "string \<Rightarrow> string \<Rightarrow> string \<Rightarrow> string \<Rightarrow> int \<Rightarrow> Journal \<Rightarrow> DrainIntent journal_result" where
  "prepare_drain_intent uuid4 deployment_id job_id role now j =
     need ''deployment_id'' deployment_id (\<lambda>deployment. need ''job_id'' job_id (\<lambda>job. need ''role'' role (\<lambda>role_value.
       case dict_get (jn_drains j) (deployment, job) of
         None \<Rightarrow>
           let d = \<lparr>di_deployment_id = deployment, di_job_id = job, di_role = role_value, di_token = ''drain-'' @ uuid4,
                 di_state = DrainActive, di_created_at = now, di_updated_at = now\<rparr>
           in Inr (put_drain d j, d)
       | Some d \<Rightarrow>
           if di_role d \<noteq> role_value then Inl (DrainRoleChanged job)
           else if di_state d \<noteq> DrainActive then Inl (DrainNotActive job)
           else let d' = d\<lparr>di_updated_at := now\<rparr> in Inr (put_drain d' j, d'))))"

definition begin_drain_cancellation :: "string \<Rightarrow> string \<Rightarrow> int \<Rightarrow> Journal \<Rightarrow> DrainIntent journal_result" where
  "begin_drain_cancellation deployment_id job_id now j =
     need ''deployment_id'' deployment_id (\<lambda>deployment. need ''job_id'' job_id (\<lambda>job.
       case dict_get (jn_drains j) (deployment, job) of
         None \<Rightarrow> Inl (NoDrain job)
       | Some d \<Rightarrow>
           (case di_state d of
              DrainActive \<Rightarrow> let d' = d\<lparr>di_state := DrainCanceling, di_updated_at := now\<rparr> in Inr (put_drain d' j, d')
            | DrainCanceling \<Rightarrow> Inr (j, d))))"

definition retire_drain_intent :: "string \<Rightarrow> string \<Rightarrow> Journal \<Rightarrow> DrainIntent option journal_result" where
  "retire_drain_intent deployment_id job_id j =
     need ''deployment_id'' deployment_id (\<lambda>deployment. need ''job_id'' job_id (\<lambda>job.
       case dict_get (jn_drains j) (deployment, job) of
         None \<Rightarrow> Inr (j, None)
       | Some d \<Rightarrow> Inr (j\<lparr>jn_drains := AList.delete (deployment, job) (jn_drains j)\<rparr>, Some d)))"

definition pending_drain_intents :: "string \<Rightarrow> Journal \<Rightarrow> journal_error + DrainIntent list" where
  "pending_drain_intents deployment_id j =
     need ''deployment_id'' deployment_id (\<lambda>deployment.
       Inr (sort_key (\<lambda>d. (di_created_at d, di_job_id d))
              (filter (\<lambda>d. di_deployment_id d = deployment) (map snd (jn_drains j)))))"

definition get_drain_intent :: "string \<Rightarrow> string \<Rightarrow> Journal \<Rightarrow> DrainIntent option" where
  "get_drain_intent deployment_id job_id j = dict_get (jn_drains j) (deployment_id, job_id)"

section \<open>Replay of pending deletes\<close>

definition pending_order :: "delete_key list \<Rightarrow> (delete_key, nat) dict" where
  "pending_order pending = fold (\<lambda>(i, k) d. AList.update k i d) (List.enumerate 0 pending) []"

definition attempted_at :: "string \<Rightarrow> Journal \<Rightarrow> delete_key \<Rightarrow> int" where
  "attempted_at deployment j k = (case dict_get (jn_attempts j) (deployment, k) of None \<Rightarrow> - 1 | Some t \<Rightarrow> t)"

definition rotate_pending_deletes ::
  "string \<Rightarrow> delete_key list \<Rightarrow> delete_key set \<Rightarrow> int \<Rightarrow> int \<Rightarrow> Journal \<Rightarrow> delete_key list journal_result" where
  "rotate_pending_deletes deployment_id pending recorded budget now j =
     need ''deployment_id'' deployment_id (\<lambda>deployment.
       let order = pending_order pending;
           ranked = sort_key (\<lambda>k. (attempted_at deployment j k, the (dict_get order k))) (map fst order);
           selected = take (nat (max 0 budget)) ranked;
           kept = filter (\<lambda>((d, k), t). d = deployment \<longrightarrow> k \<in> recorded) (jn_attempts j)
       in Inr (j\<lparr>jn_attempts := fold (\<lambda>k. AList.update (deployment, k) now) selected kept\<rparr>, selected))"

end
