(* ===== verification/Provider_Calls.thy ===== *)
theory Provider_Calls
  imports Autoscaler_Journal
begin

text \<open>
  How the autoscaler drives the provider through its journal: the provider calls of
  \<open>src/ucloud_sandboxes/cli.py\<close> (\<open>apply_prepared_provider_operations\<close>,
  \<open>_stop_operation_has_safety_proof\<close>, \<open>_reconcile_provider_operation_inventory\<close>, the journalling of
  create intents) and the loss proofs of \<open>src/ucloud_sandboxes/providers/base.py\<close>. The provider is
  its declared kind and loss contracts and the answers of its calls, which are arguments: the
  \<open>n\<close>-th call of a run for an operation gives \<open>answer n op\<close>, an error text when the adapter raises.
\<close>

section \<open>Destructive loss proofs\<close>

record DestructiveInstanceLoss =
  dl_reason :: string
  dl_evidence_kind :: string
  dl_required :: "string list"
  dl_evidence :: "(string, json) dict"

fun json_scalar :: "json \<Rightarrow> bool" where
  "json_scalar (JList _) = False"
| "json_scalar (JObj _) = False"
| "json_scalar JPosInf = False"
| "json_scalar JNegInf = False"
| "json_scalar JNaN = False"
| "json_scalar _ = True"

text \<open>\<open>__post_init__\<close>: the cleaned value, or None where it raises.\<close>

definition loss_post_init :: "DestructiveInstanceLoss \<Rightarrow> DestructiveInstanceLoss option" where
  "loss_post_init l =
     (let reason = str_strip (dl_reason l);
          kind = str_strip (dl_evidence_kind l);
          fields = map str_strip (dl_required l);
          evidence = map (\<lambda>(k, v). (str_strip k, v)) (dl_evidence l)
      in if list_all (\<lambda>(k, v). k \<noteq> [] \<and> json_scalar v) evidence \<and> distinct (map fst evidence)
            \<and> reason \<noteq> [] \<and> kind \<noteq> [] \<and> fields \<noteq> [] \<and> [] \<notin> set fields \<and> distinct fields
         then Some \<lparr>dl_reason = reason, dl_evidence_kind = kind, dl_required = fields, dl_evidence = evidence\<rparr>
         else None)"

fun concrete :: "json option \<Rightarrow> bool" where
  "concrete None = False"
| "concrete (Some JNull) = False"
| "concrete (Some (JStr s)) = (str_strip s \<noteq> [])"
| "concrete (Some v) = True"

definition has_complete_evidence :: "DestructiveInstanceLoss \<Rightarrow> bool" where
  "has_complete_evidence l = list_all (\<lambda>f. concrete (dict_get (dl_evidence l) f)) (dl_required l)"

definition loss_matches :: "DestructiveInstanceLoss \<Rightarrow> DestructiveInstanceLoss \<Rightarrow> bool" where
  "loss_matches l seen \<longleftrightarrow>
     dl_reason l = dl_reason seen \<and> dl_evidence_kind l = dl_evidence_kind seen
     \<and> dl_required l = dl_required seen \<and> has_complete_evidence seen
     \<and> list_all (\<lambda>(f, expected). dict_get (dl_evidence seen) f = Some expected) (dl_evidence l)"

definition loss_observe :: "DestructiveInstanceLoss \<Rightarrow> (string, json) dict \<Rightarrow> DestructiveInstanceLoss option" where
  "loss_observe l evidence =
     (case loss_post_init (l\<lparr>dl_evidence := map (\<lambda>f. (f, case dict_get evidence f of None \<Rightarrow> JNull | Some v \<Rightarrow> v)) (dl_required l)\<rparr>) of
        None \<Rightarrow> None
      | Some seen \<Rightarrow> if loss_matches l seen then Some seen else None)"

definition from_operation_request :: "DestructiveInstanceLoss \<Rightarrow> (string, json) dict \<Rightarrow> DestructiveInstanceLoss option" where
  "from_operation_request l request =
     (case dict_get request ''lossEvidence'' of Some (JObj nested) \<Rightarrow> loss_observe l nested | _ \<Rightarrow> None)"

definition operation_request_fields :: "DestructiveInstanceLoss \<Rightarrow> string \<Rightarrow> (string, json) dict option" where
  "operation_request_fields l provider_kind =
     (if \<not> has_complete_evidence l then None
      else Some [(''providerKind'', JStr provider_kind), (''lossEvidenceKind'', JStr (dl_evidence_kind l)),
                 (''lossEvidence'', JObj (dl_evidence l))])"

section \<open>Authority to stop\<close>

record ComputeProvider =
  pv_kind :: string
  pv_losses :: "DestructiveInstanceLoss list"

definition stop_operation_is_destructive_node_loss :: "ProviderOperation \<Rightarrow> bool" where
  "stop_operation_is_destructive_node_loss op \<longleftrightarrow>
     po_kind op = StopOp \<and> dict_get (po_request op) ''destructiveNodeLoss'' = Some (JBool True)"

definition request_text :: "(json \<Rightarrow> string) \<Rightarrow> ProviderOperation \<Rightarrow> string \<Rightarrow> string" where
  "request_text repr op key = str_strip (str_or_empty repr (dict_get (po_request op) key))"

definition provider_destructive_loss_disposition ::
  "(json \<Rightarrow> string) \<Rightarrow> ComputeProvider \<Rightarrow> ProviderOperation \<Rightarrow> DestructiveInstanceLoss option" where
  "provider_destructive_loss_disposition repr provider op =
     (if \<not> stop_operation_is_destructive_node_loss op then None
      else if request_text repr op ''providerKind'' \<noteq> pv_kind provider then None
      else find (\<lambda>l. dl_reason l = request_text repr op ''lossReason''
                   \<and> dl_evidence_kind l = request_text repr op ''lossEvidenceKind'') (pv_losses provider))"

definition is_int_where :: "(int \<Rightarrow> bool) \<Rightarrow> json option \<Rightarrow> bool" where
  "is_int_where P v = (case as_int v of None \<Rightarrow> False | Some i \<Rightarrow> P i)"

definition stop_operation_has_safety_proof ::
  "(json \<Rightarrow> string) \<Rightarrow> ComputeProvider \<Rightarrow> ProviderOperation \<Rightarrow> Journal \<Rightarrow> bool" where
  "stop_operation_has_safety_proof repr provider op j =
     (let get = dict_get (po_request op)
      in if po_kind op \<noteq> StopOp \<or> length (po_target_job_ids op) \<noteq> 1 then po_kind op \<noteq> StopOp
         else if stop_operation_is_destructive_node_loss op then
           (case provider_destructive_loss_disposition repr provider op of
              None \<Rightarrow> False
            | Some l \<Rightarrow> from_operation_request l (po_request op) \<noteq> None \<and> is_int_where (\<lambda>n. 0 \<le> n) (get ''routeCount''))
         else if get ''unreachableStaleReady'' = Some (JBool True) then
           request_text repr op ''unreachableReference'' \<noteq> []
           \<and> is_int_where (\<lambda>n. n = 0) (get ''routeCount'')
           \<and> is_int_where (\<lambda>n. n = 0) (get ''lastKnownActiveSandboxes'')
           \<and> get ''lastHeartbeatSafeToStop'' = Some (JBool True)
           \<and> (get ''lastHeartbeatPresent'' = Some (JBool False) \<or> get ''directProbeFailed'' = Some (JBool True))
         else
           let token = request_text repr op ''drainToken''
           in if token = [] \<or> get ''drainReady'' \<noteq> Some (JBool True) then False
              else case get_drain_intent (po_deployment_id op) (hd (po_target_job_ids op)) j of
                     None \<Rightarrow> False
                   | Some d \<Rightarrow> di_state d = DrainActive \<and> di_token d = token \<and> di_role d = role_str (po_role op))"

section \<open>Provider calls\<close>

datatype ProviderMutationResult =
    Mutation_Accepted "string list" "(string, json) dict"
  | Mutation_Rejected string "(string, json) dict"
  | Mutation_Uncertain string

text \<open>The mark of one call: an exception and an uncertain answer both leave the operation uncertain.\<close>

definition mark_outcome ::
  "string \<Rightarrow> string + ProviderMutationResult \<Rightarrow> int \<Rightarrow> Journal \<Rightarrow> ProviderOperation journal_result" where
  "mark_outcome i result now j =
     (case result of
        Inl raised \<Rightarrow> mark_operation_uncertain i raised now j
      | Inr (Mutation_Rejected err response) \<Rightarrow>
          mark_operation_failed i (str_or (Some err) ''provider explicitly rejected the operation'') (Some response) now j
      | Inr (Mutation_Accepted ids response) \<Rightarrow> mark_operation_accepted i response ids now j
      | Inr (Mutation_Uncertain err) \<Rightarrow>
          mark_operation_uncertain i (str_or (Some err) ''provider response did not prove whether the operation applied'') now j)"

text \<open>The run of a batch: the journal, the outcomes, the operations handed to the provider in order,
  and the error that ended it early, if any.\<close>

record ApplyRun =
  ar_journal :: Journal
  ar_results :: "ProviderOperationOutcome list"
  ar_calls :: "ProviderOperation list"
  ar_error :: "journal_error option"

record ApplyContext =
  ac_repr :: "json \<Rightarrow> string"
  ac_provider :: ComputeProvider
  ac_answer :: "nat \<Rightarrow> ProviderOperation \<Rightarrow> string + ProviderMutationResult"
  ac_clock :: "nat \<Rightarrow> int"
  ac_source :: OutcomeSource
  ac_kinds :: "OpKind list"
  ac_stop_ids :: "string list"

definition may_apply :: "ApplyContext \<Rightarrow> ProviderOperation \<Rightarrow> Journal \<Rightarrow> bool" where
  "may_apply ctx op j \<longleftrightarrow>
     po_kind op \<in> set (ac_kinds ctx)
     \<and> (po_kind op = StopOp \<longrightarrow> po_operation_id op \<in> set (ac_stop_ids ctx)
          \<and> stop_operation_has_safety_proof (ac_repr ctx) (ac_provider ctx) op j)"

definition apply_one :: "ApplyContext \<Rightarrow> ProviderOperation \<Rightarrow> ApplyRun \<Rightarrow> ApplyRun" where
  "apply_one ctx op r =
     (case begin_provider_call (po_operation_id op) (ac_clock ctx (2 * length (ar_calls r))) (ar_journal r) of
        Inl e \<Rightarrow> r\<lparr>ar_error := Some e\<rparr>
      | Inr (j1, submitting) \<Rightarrow>
          let n = length (ar_calls r);
              called = r\<lparr>ar_journal := j1, ar_calls := ar_calls r @ [submitting]\<rparr>
          in case mark_outcome (po_operation_id submitting) (ac_answer ctx n submitting) (ac_clock ctx (2 * n + 1)) j1 of
               Inl e \<Rightarrow> called\<lparr>ar_error := Some e\<rparr>
             | Inr (j2, marked) \<Rightarrow>
                 (case operation_outcome_state (po_state marked) of
                    None \<Rightarrow> called\<lparr>ar_journal := j2, ar_error := Some (WrongState (po_operation_id marked) (po_state marked))\<rparr>
                  | Some st \<Rightarrow>
                      called\<lparr>ar_journal := j2,
                        ar_results := ar_results r @ [outcome_of marked (ac_source ctx) st (po_target_job_ids marked) (po_last_error marked)]\<rparr>))"

fun apply_loop :: "ApplyContext \<Rightarrow> ProviderOperation list \<Rightarrow> ApplyRun \<Rightarrow> ApplyRun" where
  "apply_loop ctx [] r = r"
| "apply_loop ctx (op # ops) r =
     (if ar_error r \<noteq> None then r
      else apply_loop ctx ops (if may_apply ctx op (ar_journal r) then apply_one ctx op r else r))"

definition apply_prepared_provider_operations :: "ApplyContext \<Rightarrow> Journal \<Rightarrow> ApplyRun" where
  "apply_prepared_provider_operations ctx j =
     apply_loop ctx
       (sort_key (\<lambda>op. if stop_operation_is_destructive_node_loss op then 0 else 1 :: nat) (list_operations None [Prepared] j))
       \<lparr>ar_journal = j, ar_results = [], ar_calls = [], ar_error = None\<rparr>"

text \<open>Journalling of one create intent: reserve the slot, label the intent with the operation and
  prepare it. The reservation is committed even when a later step raises.\<close>

datatype plan_error = Plan_Journal journal_error | Plan_Label label_error

definition intent_base_key :: "Role \<Rightarrow> InstanceCreateIntent \<Rightarrow> string" where
  "intent_base_key role intent = role_str role @ '':'' @ in_seed intent"

definition plan_create_operation ::
  "(string \<Rightarrow> string) \<Rightarrow> (InstanceCreateIntent \<Rightarrow> (string, json) dict) \<Rightarrow> string \<Rightarrow> Role \<Rightarrow> InstanceCreateIntent \<Rightarrow> int \<Rightarrow> int
   \<Rightarrow> Journal \<Rightarrow> Journal \<times> (plan_error + ProviderOperation)" where
  "plan_create_operation uuid5 render deployment role intent now1 now2 j =
     (case allocate_operation_intent_key deployment ''create'' (intent_base_key role intent) now1 j of
        Inl e \<Rightarrow> (j, Inl (Plan_Journal e))
      | Inr (j1, key) \<Rightarrow>
          (case with_provider_operation_label intent
                  (stable_provider_operation_id uuid5 (str_strip deployment) CreateOp key) (Some deployment) of
             Inl e \<Rightarrow> (j1, Inl (Plan_Label e))
           | Inr labeled \<Rightarrow>
               (case prepare_operation uuid5 key ''create'' deployment (render labeled) (role_str role) [] now2 j1 of
                  Inl e \<Rightarrow> (j1, Inl (Plan_Journal e))
                | Inr (j2, op) \<Rightarrow> (j2, Inr op))))"

text \<open>The start of a cycle: recover from the inventory, disable obsolete destructive stops, replay the
  prepared creates, and find the roles that must not create again yet.\<close>

fun suppress_loop :: "ApplyContext \<Rightarrow> string \<Rightarrow> ProviderOperation list \<Rightarrow> Journal \<Rightarrow> ProviderOperationOutcome list journal_result" where
  "suppress_loop ctx reason [] j = Inr (j, [])"
| "suppress_loop ctx reason (op # ops) j =
     (if stop_operation_is_destructive_node_loss op
         \<and> \<not> stop_operation_has_safety_proof (ac_repr ctx) (ac_provider ctx) op j
      then (case suppress_prepared_operation (po_operation_id op) reason (ac_clock ctx 0) j of
              Inl e \<Rightarrow> Inl e
            | Inr (j', marked) \<Rightarrow>
                (case suppress_loop ctx reason ops j' of
                   Inl e \<Rightarrow> Inl e
                 | Inr (j'', outs) \<Rightarrow>
                     Inr (j'', outcome_of marked Journal_Source Out_Failed (po_target_job_ids marked) (po_last_error marked) # outs)))
      else suppress_loop ctx reason ops j)"

record InventoryPass =
  ip_run :: ApplyRun
  ip_guards :: "(string \<times> Role \<times> string list) list"
  ip_blocked_roles :: "Role list"

definition reconcile_provider_operation_inventory ::
  "ApplyContext \<Rightarrow> bool \<Rightarrow> ProviderInstance list \<Rightarrow> (string \<Rightarrow> int) \<Rightarrow> Journal \<Rightarrow> journal_error + InventoryPass" where
  "reconcile_provider_operation_inventory ctx execute jobs now j =
     (case reconcile_provider_inventory jobs now j of
        Inl e \<Rightarrow> Inl e
      | Inr (j1, results) \<Rightarrow>
          (case suppress_loop ctx ''obsolete destructive stop authorization; automatic retry disabled''
                  (list_operations (Some StopOp) [Prepared] j1) j1 of
             Inl e \<Rightarrow> Inl e
           | Inr (j2, suppressed) \<Rightarrow>
               let run = apply_prepared_provider_operations
                     (ctx\<lparr>ac_source := Prepared_Replay, ac_kinds := (if execute then [CreateOp] else []), ac_stop_ids := []\<rparr>) j2
               in case ar_error run of
                    Some e \<Rightarrow> Inl e
                  | None \<Rightarrow>
                      let j3 = ar_journal run;
                          open_roles = map po_role (list_operations (Some CreateOp) [Uncertain, Accepted] j3);
                          replayed = map oc_role (filter (\<lambda>r. oc_kind r = CreateOp \<and> oc_state r = Out_Accepted) (ar_results run));
                          missing = (\<lambda>op. filter (\<lambda>t. t \<notin> {i \<in> job_id_of ` set jobs. i \<noteq> []}) (sort (remdups (po_target_job_ids op))));
                          guarded = filter (\<lambda>op. missing op \<noteq> []) (list_operations (Some CreateOp) [Accepted] j3)
                      in Inr \<lparr>ip_run = run\<lparr>ar_results := results @ suppressed @ ar_results run\<rparr>,
                              ip_guards = map (\<lambda>op. (po_operation_id op, po_role op, missing op)) guarded,
                              ip_blocked_roles = open_roles @ replayed @ map po_role guarded\<rparr>))"

end
