(* ===== verification/Journal_Laws.thy ===== *)
theory Journal_Laws
  imports Provider_Calls
begin

text \<open>
  The laws of the provider journal: what a transition does to rows and slots, and the invariant of the
  create operations. A slot of a base key holds its newest incarnation and mirrors the state of that
  incarnation's operation; the operations of older incarnations are settled or failed, and an
  incarnation once handed to the provider never is prepared again.
\<close>

section \<open>Keys of slots\<close>

lemma str_nat_is_digit: "list_all is_digit (str_nat n)"
proof (induction n rule: str_nat.induct)
  case (1 n)
  have digit: "is_digit (char_of (48 + k))" if "k < 10" for k :: nat
    using that by (simp add: is_digit_def of_char_of Let_def)
  show ?case
  proof (cases "n < 10")
    case True
    then show ?thesis by (subst str_nat.simps) (simp add: digit)
  next
    case False
    with 1 show ?thesis by (subst str_nat.simps) (simp add: digit)
  qed
qed

lemma is_digit_plain: "is_digit c \<Longrightarrow> c \<noteq> CHR ''#'' \<and> \<not> is_space c"
  by (auto simp: is_digit_def is_space_def Let_def)

lemma str_nat_no_hash: "\<forall>c \<in> set (str_nat n). c \<noteq> CHR ''#''"
  using str_nat_is_digit [of n] is_digit_plain by (auto simp: list_all_iff)

lemma split_slot_key:
  assumes "CHR ''#'' \<notin> set base" "1 \<le> n"
  shows "split_intent_key (slot_intent_key base n) = (base, n)"
proof (cases "n = 1")
  case True
  have none: "dropWhile (\<lambda>c. c \<noteq> CHR ''#'') (rev base) = []" using assms(1) by (auto simp: dropWhile_eq_Nil_conv)
  have "rpartition_hash base = None" unfolding rpartition_hash_def Let_def none by simp
  with True show ?thesis by (simp add: slot_intent_key_def split_intent_key_def)
next
  case False
  have plain: "\<forall>c \<in> set (rev (str_nat n)). c \<noteq> CHR ''#''" using str_nat_no_hash by simp
  let ?key = "rev (str_nat n) @ CHR ''#'' # rev base"
  have tail: "takeWhile (\<lambda>c. c \<noteq> CHR ''#'') ?key = rev (str_nat n)"
    using takeWhile_append2 [of "rev (str_nat n)" "\<lambda>c. c \<noteq> CHR ''#''" "CHR ''#'' # rev base"] plain by fastforce
  have rest: "dropWhile (\<lambda>c. c \<noteq> CHR ''#'') ?key = CHR ''#'' # rev base"
    using dropWhile_append2 [of "rev (str_nat n)" "\<lambda>c. c \<noteq> CHR ''#''" "CHR ''#'' # rev base"] plain by fastforce
  have rev: "rev (slot_intent_key base n) = ?key" using False by (simp add: slot_intent_key_def)
  have "rpartition_hash (slot_intent_key base n) = Some (base, str_nat n)"
    unfolding rpartition_hash_def Let_def rev tail rest by simp
  then show ?thesis
    using assms False str_nat_is_digit [of n] str_nat_nonempty [of n]
    by (simp add: split_intent_key_def nat_str_str_nat)
qed

lemma str_strip_fixed:
  assumes "s \<noteq> []" "\<not> is_space (hd s)" "\<not> is_space (last s)"
  shows "str_strip s = s"
proof -
  have "dropWhile is_space s = s" using assms by (cases s) simp_all
  moreover have "dropWhile is_space (rev s) = rev s" using assms by (cases s rule: rev_cases) simp_all
  ultimately show ?thesis by (simp add: str_strip_def)
qed

lemma str_strip_ends:
  assumes "str_strip s = s" "s \<noteq> []"
  shows "\<not> is_space (hd s)" "\<not> is_space (last s)"
proof -
  define t where "t = dropWhile is_space s"
  have s: "s = rev (dropWhile is_space (rev t))" using assms(1) by (simp add: str_strip_def t_def)
  then have "t \<noteq> []" using assms(2) by auto
  then have t: "\<not> is_space (hd t)" unfolding t_def by (metis hd_dropWhile)
  have nonempty: "dropWhile is_space (rev t) \<noteq> []" using s assms(2) by auto
  then have "\<not> is_space (hd (dropWhile is_space (rev t)))" by (metis hd_dropWhile)
  then show "\<not> is_space (last s)" using nonempty by (subst s) (simp add: last_rev)
  obtain xs where "t = rev (dropWhile is_space (rev t)) @ xs"
    by (metis rev_append rev_rev_ident takeWhile_dropWhile_id)
  then have "t = s @ xs" using s by simp
  then show "\<not> is_space (hd s)" using t assms(2) by simp
qed

lemma slot_key_stripped:
  assumes "str_strip base = base" "base \<noteq> []"
  shows "str_strip (slot_intent_key base n) = slot_intent_key base n" "slot_intent_key base n \<noteq> []"
proof -
  have "\<not> is_space (last (str_nat n))"
    using str_nat_is_digit [of n] str_nat_nonempty [of n] is_digit_plain
    by (metis last_in_set list_all_iff)
  then show "str_strip (slot_intent_key base n) = slot_intent_key base n"
    using assms str_strip_ends [OF assms] str_nat_nonempty [of n]
    by (intro str_strip_fixed) (auto simp: slot_intent_key_def)
  show "slot_intent_key base n \<noteq> []" using assms by (simp add: slot_intent_key_def)
qed

section \<open>Effects of a transition\<close>

lemma set_slot_fields [simp]:
  "jn_operations (set_slot k n st now j) = jn_operations j" "jn_drains (set_slot k n st now j) = jn_drains j"
  "jn_attempts (set_slot k n st now j) = jn_attempts j"
  "dict_get (jn_slots (set_slot k n st now j)) k' =
     (if k' = k then Some \<lparr>sl_incarnation = n, sl_state = st, sl_updated_at = now\<rparr> else dict_get (jn_slots j) k')"
  by (simp_all add: set_slot_def update_conv')

lemma update_slot_state_fields [simp]:
  "jn_operations (update_slot_state d k key st now j) = jn_operations j"
  "jn_drains (update_slot_state d k key st now j) = jn_drains j"
  "jn_attempts (update_slot_state d k key st now j) = jn_attempts j"
  by (simp_all add: update_slot_state_def split: prod.split option.split)

lemma update_slot_state_other:
  "k' \<noteq> (d, k, fst (split_intent_key key)) \<Longrightarrow>
   dict_get (jn_slots (update_slot_state d k key st now j)) k' = dict_get (jn_slots j) k'"
  by (auto simp: update_slot_state_def split: prod.split option.split)

lemma update_slot_state_same:
  "dict_get (jn_slots (update_slot_state d k key st now j)) (d, k, fst (split_intent_key key)) =
     (case dict_get (jn_slots j) (d, k, fst (split_intent_key key)) of
        Some slot \<Rightarrow>
          if sl_incarnation slot \<le> snd (split_intent_key key)
          then Some \<lparr>sl_incarnation = snd (split_intent_key key), sl_state = Mirrors st, sl_updated_at = now\<rparr> else Some slot
      | None \<Rightarrow> Some \<lparr>sl_incarnation = snd (split_intent_key key), sl_state = Mirrors st, sl_updated_at = now\<rparr>)"
  by (auto simp: update_slot_state_def split: prod.split option.split)

definition moved :: "ProviderOperation \<Rightarrow> OpState \<Rightarrow> (string, json) dict option \<Rightarrow> string list option \<Rightarrow> string option \<Rightarrow> int \<Rightarrow> ProviderOperation" where
  "moved op st response targets err now = op\<lparr>po_state := st,
     po_response := (case response of None \<Rightarrow> po_response op | Some r \<Rightarrow> r),
     po_target_job_ids := (case targets of None \<Rightarrow> po_target_job_ids op | Some l \<Rightarrow> job_ids_of l),
     po_updated_at := now,
     po_last_error := (case err of None \<Rightarrow> po_last_error op | Some e \<Rightarrow> e)\<rparr>"

lemma moved_fields [simp]:
  "po_operation_id (moved op st r t e now) = po_operation_id op" "po_intent_key (moved op st r t e now) = po_intent_key op"
  "po_kind (moved op st r t e now) = po_kind op" "po_deployment_id (moved op st r t e now) = po_deployment_id op"
  "po_role (moved op st r t e now) = po_role op" "po_state (moved op st r t e now) = st"
  "po_request (moved op st r t e now) = po_request op"
  by (simp_all add: moved_def)

lemma transition_InrE:
  assumes "transition_operation i expected st r t e now j = Inr (j', op')"
  obtains op where "dict_get (jn_operations j) i = Some op" "po_state op \<in> set expected" "op' = moved op st r t e now"
    "j' = update_slot_state (po_deployment_id op) (po_kind op) (po_intent_key op) st now
            (j\<lparr>jn_operations := AList.update i op' (jn_operations j)\<rparr>)"
  using assms by (auto simp: transition_operation_def moved_def Let_def split: option.splits if_splits)

lemma transition_Some:
  assumes "dict_get (jn_operations j) i = Some op" "po_state op \<in> set expected"
  shows "transition_operation i expected st r t e now j =
    Inr (update_slot_state (po_deployment_id op) (po_kind op) (po_intent_key op) st now
           (j\<lparr>jn_operations := AList.update i (moved op st r t e now) (jn_operations j)\<rparr>), moved op st r t e now)"
  using assms by (simp add: transition_operation_def moved_def Let_def)

lemma transition_rows:
  assumes "transition_operation i expected st r t e now j = Inr (j', op')"
  shows "jn_operations j' = AList.update i op' (jn_operations j)" "jn_drains j' = jn_drains j" "jn_attempts j' = jn_attempts j"
  using assms by (auto elim!: transition_InrE)

section \<open>The invariant of creates\<close>

abbreviation row :: "Journal \<Rightarrow> string \<Rightarrow> ProviderOperation option" where
  "row j i \<equiv> dict_get (jn_operations j) i"

abbreviation create_slot :: "Journal \<Rightarrow> string \<Rightarrow> string \<Rightarrow> OperationSlot option" where
  "create_slot j d base \<equiv> dict_get (jn_slots j) (d, CreateOp, base)"

definition finished :: "OpState \<Rightarrow> bool" where
  "finished st \<longleftrightarrow> st = Settled \<or> st = Failed"

definition rows_ok :: "(string \<Rightarrow> string) \<Rightarrow> Journal \<Rightarrow> bool" where
  "rows_ok uuid5 j \<longleftrightarrow> dict_keys_ok (jn_operations j)
     \<and> (\<forall>i op. row j i = Some op \<longrightarrow> i = po_operation_id op
          \<and> i = stable_provider_operation_id uuid5 (po_deployment_id op) (po_kind op) (po_intent_key op))"

definition slot_base :: "string \<Rightarrow> nat \<Rightarrow> bool" where
  "slot_base base n \<longleftrightarrow> CHR ''#'' \<notin> set base \<and> 1 \<le> n"

definition mirrored :: "OperationSlot \<Rightarrow> nat \<Rightarrow> OpState \<Rightarrow> bool" where
  "mirrored slot n st \<longleftrightarrow> n \<le> sl_incarnation slot \<and> (if n = sl_incarnation slot then sl_state slot = Mirrors st else finished st)"

definition passed :: "OperationSlot \<Rightarrow> nat \<Rightarrow> bool" where
  "passed slot n \<longleftrightarrow> n \<le> sl_incarnation slot \<and> (n = sl_incarnation slot \<longrightarrow> (\<exists>s. sl_state slot = Mirrors s \<and> s \<noteq> Prepared))"

type_synonym begun = "(string \<times> OpKind \<times> string) list"

definition create_rows_ok :: "Journal \<Rightarrow> bool" where
  "create_rows_ok j \<longleftrightarrow> (\<forall>i op. row j i = Some op \<longrightarrow> po_kind op = CreateOp \<longrightarrow>
     (\<exists>base n slot. slot_base base n \<and> po_intent_key op = slot_intent_key base n
        \<and> create_slot j (po_deployment_id op) base = Some slot \<and> mirrored slot n (po_state op)))"

definition slots_ok :: "(string \<Rightarrow> string) \<Rightarrow> Journal \<Rightarrow> bool" where
  "slots_ok uuid5 j \<longleftrightarrow> (\<forall>d base slot. create_slot j d base = Some slot \<longrightarrow> slot_base base (sl_incarnation slot)
     \<and> (\<forall>s. sl_state slot = Mirrors s \<and> \<not> finished s \<longrightarrow>
          (\<exists>op. row j (stable_provider_operation_id uuid5 d CreateOp (slot_intent_key base (sl_incarnation slot))) = Some op
             \<and> po_intent_key op = slot_intent_key base (sl_incarnation slot) \<and> po_deployment_id op = d \<and> po_kind op = CreateOp)))"

definition begun_ok :: "begun \<Rightarrow> Journal \<Rightarrow> bool" where
  "begun_ok begun j \<longleftrightarrow> (\<forall>d key. (d, CreateOp, key) \<in> set begun \<longrightarrow>
     (\<exists>base n slot. slot_base base n \<and> key = slot_intent_key base n \<and> create_slot j d base = Some slot \<and> passed slot n))"

definition journal_inv :: "(string \<Rightarrow> string) \<Rightarrow> begun \<Rightarrow> Journal \<Rightarrow> bool" where
  "journal_inv uuid5 begun j \<longleftrightarrow> rows_ok uuid5 j \<and> create_rows_ok j \<and> slots_ok uuid5 j \<and> begun_ok begun j"

lemma row_stable:
  assumes "rows_ok uuid5 j" "row j i = Some op"
  shows "i = stable_provider_operation_id uuid5 (po_deployment_id op) (po_kind op) (po_intent_key op)" "i = po_operation_id op"
  using assms unfolding rows_ok_def by blast+

lemma slot_base_split: "slot_base a m \<Longrightarrow> split_intent_key (slot_intent_key a m) = (a, m)"
  by (simp add: slot_base_def split_slot_key)

lemma slot_base_inject:
  assumes "slot_base a m" "slot_base b n" "slot_intent_key a m = slot_intent_key b n"
  shows "a = b \<and> m = n"
  using slot_base_split [OF assms(1)] slot_base_split [OF assms(2)] unfolding assms(3) by simp

text \<open>An open operation is the newest of its slot.\<close>

lemma open_is_newest:
  assumes "mirrored slot n st" "\<not> finished st"
  shows "n = sl_incarnation slot" "sl_state slot = Mirrors st"
  using assms by (auto simp: mirrored_def split: if_splits)

lemma create_rowE:
  assumes "journal_inv uuid5 begun j" "row j i = Some op" "po_kind op = CreateOp"
  obtains base n slot where "slot_base base n" "po_intent_key op = slot_intent_key base n"
    "create_slot j (po_deployment_id op) base = Some slot" "mirrored slot n (po_state op)"
  using assms unfolding journal_inv_def create_rows_ok_def by blast

lemma same_creates_inv:
  assumes "journal_inv uuid5 begun j" "rows_ok uuid5 j'"
    and rows: "\<And>i op. po_kind op = CreateOp \<Longrightarrow> row j' i = Some op \<longleftrightarrow> row j i = Some op"
    and slots: "\<And>d base. create_slot j' d base = create_slot j d base"
  shows "journal_inv uuid5 begun j'"
proof -
  have "create_rows_ok j'" using assms(1) rows unfolding journal_inv_def create_rows_ok_def slots by blast
  moreover have "slots_ok uuid5 j'" using assms(1) rows unfolding journal_inv_def slots_ok_def slots by meson
  moreover have "begun_ok begun j'" using assms(1) unfolding journal_inv_def begun_ok_def slots by blast
  ultimately show ?thesis using assms(2) by (simp add: journal_inv_def)
qed

lemma rows_ok_update:
  assumes "rows_ok uuid5 j" "po_operation_id op = i" "i = stable_provider_operation_id uuid5 (po_deployment_id op) (po_kind op) (po_intent_key op)"
    "jn_operations j' = AList.update i op (jn_operations j)"
  shows "rows_ok uuid5 j'"
  using assms by (simp add: rows_ok_def update_conv')

text \<open>A new row or state of the newest operation of a slot.\<close>

definition slot_advance ::
  "(string \<Rightarrow> string) \<Rightarrow> Journal \<Rightarrow> Journal \<Rightarrow> string \<Rightarrow> OperationSlot \<Rightarrow> OperationSlot \<Rightarrow> ProviderOperation \<Rightarrow> bool" where
  "slot_advance uuid5 j j' base slot slot' op \<longleftrightarrow>
     (let d = po_deployment_id op; key = slot_intent_key base (sl_incarnation slot); i = po_operation_id op
      in slot_base base (sl_incarnation slot) \<and> create_slot j d base = Some slot
         \<and> po_kind op = CreateOp \<and> po_intent_key op = key \<and> i = stable_provider_operation_id uuid5 d CreateOp key
         \<and> (\<forall>i'. row j' i' = (if i' = i then Some op else row j i')) \<and> dict_keys_ok (jn_operations j')
         \<and> (\<forall>d' b. create_slot j' d' b = (if d' = d \<and> b = base then Some slot' else create_slot j d' b))
         \<and> sl_incarnation slot' = sl_incarnation slot \<and> sl_state slot' = Mirrors (po_state op)
         \<and> (\<forall>old. row j i = Some old \<longrightarrow> po_deployment_id old = d \<and> po_intent_key old = key))"

lemma slot_advanceD:
  assumes "slot_advance uuid5 j j' base slot slot' op"
  shows "slot_base base (sl_incarnation slot)" "create_slot j (po_deployment_id op) base = Some slot"
    "po_kind op = CreateOp" "po_intent_key op = slot_intent_key base (sl_incarnation slot)"
    "po_operation_id op = stable_provider_operation_id uuid5 (po_deployment_id op) CreateOp (slot_intent_key base (sl_incarnation slot))"
    "row j' i' = (if i' = po_operation_id op then Some op else row j i')" "dict_keys_ok (jn_operations j')"
    "create_slot j' d' b = (if d' = po_deployment_id op \<and> b = base then Some slot' else create_slot j d' b)"
    "sl_incarnation slot' = sl_incarnation slot" "sl_state slot' = Mirrors (po_state op)"
    "row j (po_operation_id op) = Some old \<Longrightarrow>
      po_deployment_id old = po_deployment_id op \<and> po_intent_key old = slot_intent_key base (sl_incarnation slot)"
  using assms unfolding slot_advance_def Let_def by blast+

lemma advance_rows:
  assumes "journal_inv uuid5 begun j" and adv: "slot_advance uuid5 j j' base slot slot' op"
  shows "rows_ok uuid5 j'" "create_rows_ok j'"
proof -
  note a = slot_advanceD [OF adv]
  have inv: "rows_ok uuid5 j" "create_rows_ok j" using assms(1) by (simp_all add: journal_inv_def)
  show "rows_ok uuid5 j'"
    unfolding rows_ok_def a(6) using a(3-5,7) row_stable [OF inv(1)] by (auto split: if_splits)
  show "create_rows_ok j'"
    unfolding create_rows_ok_def
  proof (intro allI impI)
    fix i' op' assume r: "row j' i' = Some op'" "po_kind op' = CreateOp"
    show "\<exists>b m s. slot_base b m \<and> po_intent_key op' = slot_intent_key b m
      \<and> create_slot j' (po_deployment_id op') b = Some s \<and> mirrored s m (po_state op')"
    proof (cases "i' = po_operation_id op")
      case True
      with r have "op' = op" by (simp add: a(6))
      then show ?thesis using a(1,4,9,10)
        by (intro exI [of _ base] exI [of _ "sl_incarnation slot"] exI [of _ slot']) (simp add: a(8) mirrored_def)
    next
      case False
      with r have r': "row j i' = Some op'" by (simp add: a(6))
      with inv(2) r(2) obtain b m s where s: "slot_base b m" "po_intent_key op' = slot_intent_key b m"
        "create_slot j (po_deployment_id op') b = Some s" "mirrored s m (po_state op')"
        unfolding create_rows_ok_def by blast
      have "mirrored slot' m (po_state op')" if same: "po_deployment_id op' = po_deployment_id op \<and> b = base"
      proof -
        have "m \<noteq> sl_incarnation slot" using False row_stable(1) [OF inv(1) r'] s(2) same r(2) a(5) by auto
        then show ?thesis using s same a(2,9) by (auto simp: mirrored_def split: if_splits)
      qed
      with s show ?thesis unfolding a(8) by (metis option.inject)
    qed
  qed
qed

lemma advance_slots:
  assumes "slots_ok uuid5 j" and adv: "slot_advance uuid5 j j' base slot slot' op"
  shows "slots_ok uuid5 j'"
  unfolding slots_ok_def
proof (intro allI impI)
  note a = slot_advanceD [OF adv]
  fix d' b s assume s: "create_slot j' d' b = Some s"
  let ?key = "slot_intent_key b (sl_incarnation s)"
  show "slot_base b (sl_incarnation s) \<and> (\<forall>st. sl_state s = Mirrors st \<and> \<not> finished st \<longrightarrow>
    (\<exists>op. row j' (stable_provider_operation_id uuid5 d' CreateOp ?key) = Some op
      \<and> po_intent_key op = ?key \<and> po_deployment_id op = d' \<and> po_kind op = CreateOp))"
  proof (cases "d' = po_deployment_id op \<and> b = base")
    case True
    with s a(9) have "sl_incarnation s = sl_incarnation slot" by (auto simp: a(8))
    with True show ?thesis using a(1,3-5) by (simp add: a(6))
  next
    case False
    with s have "create_slot j d' b = Some s" unfolding a(8) by (auto split: if_splits)
    with assms(1) have s': "slot_base b (sl_incarnation s)" "\<And>st. sl_state s = Mirrors st \<Longrightarrow> \<not> finished st \<Longrightarrow>
      \<exists>op. row j (stable_provider_operation_id uuid5 d' CreateOp ?key) = Some op
        \<and> po_intent_key op = ?key \<and> po_deployment_id op = d' \<and> po_kind op = CreateOp"
      unfolding slots_ok_def by blast+
    moreover have "i' \<noteq> po_operation_id op" if "row j i' = Some x" "po_intent_key x = ?key" "po_deployment_id x = d'" for i' x
      using a(11) [of x] that False slot_base_inject [OF s'(1) a(1)] by auto
    ultimately show ?thesis unfolding a(6) by metis
  qed
qed

lemma advance_begun:
  assumes "begun_ok begun j" and adv: "slot_advance uuid5 j j' base slot slot' op"
    and "po_state op \<noteq> Prepared \<or> \<not> passed slot (sl_incarnation slot)"
  shows "begun_ok begun j'"
  unfolding begun_ok_def
proof (intro allI impI)
  note a = slot_advanceD [OF adv]
  fix d' key assume "(d', CreateOp, key) \<in> set begun"
  with assms(1) obtain b m s where s: "slot_base b m" "key = slot_intent_key b m" "create_slot j d' b = Some s" "passed s m"
    unfolding begun_ok_def by blast
  have "passed slot' m" if "d' = po_deployment_id op \<and> b = base"
    using that s a(2,9,10) assms(3) by (cases "m = sl_incarnation slot") (auto simp: passed_def)
  with s show "\<exists>b m s. slot_base b m \<and> key = slot_intent_key b m \<and> create_slot j' d' b = Some s \<and> passed s m"
    unfolding a(8) by metis
qed

lemma advance_inv:
  assumes "journal_inv uuid5 begun j" "slot_advance uuid5 j j' base slot slot' op"
    "po_state op \<noteq> Prepared \<or> \<not> passed slot (sl_incarnation slot)"
  shows "journal_inv uuid5 begun j'"
  using advance_rows [OF assms(1,2)] advance_slots advance_begun assms unfolding journal_inv_def by blast

section \<open>Calls keep the invariant\<close>

lemma other_kind_slot:
  "k \<noteq> CreateOp \<Longrightarrow> create_slot (update_slot_state d k key st now j) d' b = create_slot j d' b"
  by (rule update_slot_state_other) auto

lemma transition_rows_ok:
  assumes ok: "rows_ok uuid5 j" and tr: "transition_operation i expected st r t e now j = Inr (j', op')"
  shows "rows_ok uuid5 j'"
proof -
  obtain op where op: "row j i = Some op" "op' = moved op st r t e now" using tr by (rule transition_InrE)
  have "po_operation_id op' = i" "i = stable_provider_operation_id uuid5 (po_deployment_id op') (po_kind op') (po_intent_key op')"
    unfolding op(2) moved_fields by (rule row_stable(2) [OF ok op(1), symmetric], rule row_stable(1) [OF ok op(1)])
  then show ?thesis by (rule rows_ok_update [OF ok _ _ transition_rows(1) [OF tr]])
qed

lemma transition_stop_inv:
  assumes inv: "journal_inv uuid5 begun j" and tr: "transition_operation i expected st r t e now j = Inr (j', op')"
    and stop: "po_kind op' = StopOp"
  shows "journal_inv uuid5 begun j'"
proof -
  obtain op where op: "row j i = Some op" "op' = moved op st r t e now"
    and j': "j' = update_slot_state (po_deployment_id op) (po_kind op) (po_intent_key op) st now
      (j\<lparr>jn_operations := AList.update i op' (jn_operations j)\<rparr>)" using tr by (rule transition_InrE)
  have ok: "rows_ok uuid5 j" using inv by (simp add: journal_inv_def)
  have "rows_ok uuid5 j'" using ok tr by (rule transition_rows_ok)
  then show ?thesis
  proof (rule same_creates_inv [OF inv])
    show "row j' i' = Some x \<longleftrightarrow> row j i' = Some x" if "po_kind x = CreateOp" for i' x
      using that stop op unfolding transition_rows(1) [OF tr] by (auto simp: update_conv')
    show "create_slot j' d b = create_slot j d b" for d b
      using stop op(2) unfolding j' by (subst other_kind_slot) auto
  qed
qed

lemma transition_create_inv:
  assumes inv: "journal_inv uuid5 begun j" and tr: "transition_operation i expected st r t e now j = Inr (j', op')"
    and create: "po_kind op' = CreateOp" and expected: "\<forall>s \<in> set expected. \<not> finished s" and st: "st \<noteq> Prepared"
  shows "journal_inv uuid5 begun j'"
proof -
  obtain op where op: "row j i = Some op" "po_state op \<in> set expected" "op' = moved op st r t e now"
    and j': "j' = update_slot_state (po_deployment_id op) (po_kind op) (po_intent_key op) st now
      (j\<lparr>jn_operations := AList.update i op' (jn_operations j)\<rparr>)" using tr by (rule transition_InrE)
  have ok: "rows_ok uuid5 j" using inv by (simp add: journal_inv_def)
  have kind: "po_kind op = CreateOp" using create op(3) by simp
  obtain base n slot where s: "slot_base base n" "po_intent_key op = slot_intent_key base n"
    "create_slot j (po_deployment_id op) base = Some slot" "mirrored slot n (po_state op)"
    using inv op(1) kind by (rule create_rowE)
  have n: "n = sl_incarnation slot" using open_is_newest [OF s(4)] expected op(2) by blast
  have split: "split_intent_key (po_intent_key op) = (base, n)" using s(1,2) slot_base_split by simp
  let ?slot = "\<lparr>sl_incarnation = n, sl_state = Mirrors st, sl_updated_at = now\<rparr>"
  have slots: "create_slot j' d b = (if d = po_deployment_id op \<and> b = base then Some ?slot else create_slot j d b)" for d b
    using kind split s(3) n update_slot_state_other [of "(d, CreateOp, b)"] unfolding j'
    by (auto simp: update_slot_state_same [of _ _ "po_intent_key op", unfolded split, simplified])
  have i: "i = po_operation_id op'" "i = stable_provider_operation_id uuid5 (po_deployment_id op) CreateOp (slot_intent_key base n)"
    using row_stable [OF ok op(1)] op(3) kind s(2) by simp_all
  have rows: "row j' i' = (if i' = i then Some op' else row j i')" for i'
    unfolding transition_rows(1) [OF tr] by (simp add: update_conv')
  have keys: "dict_keys_ok (jn_operations j')" using ok unfolding transition_rows(1) [OF tr] by (simp add: rows_ok_def)
  have "slot_advance uuid5 j j' base slot ?slot op'"
    unfolding slot_advance_def Let_def rows slots using s(1-3) n kind op(1,3) i keys by auto
  with inv show ?thesis using st op(3) by (auto intro: advance_inv)
qed

lemma transition_inv:
  assumes "journal_inv uuid5 begun j" "transition_operation i expected st r t e now j = Inr (j', op')"
    and "\<forall>s \<in> set expected. \<not> finished s" "st \<noteq> Prepared \<or> po_kind op' = StopOp"
  shows "journal_inv uuid5 begun j'"
  using transition_stop_inv [OF assms(1,2)] transition_create_inv [OF assms(1,2) _ assms(3)] assms(4)
  by (cases "po_kind op'") auto

lemma begun_add:
  assumes inv: "journal_inv uuid5 begun j" and op: "row j i = Some op" "po_state op \<noteq> Prepared"
  shows "journal_inv uuid5 (begun @ [(po_deployment_id op, po_kind op, po_intent_key op)]) j"
proof -
  have "\<exists>base n slot. slot_base base n \<and> po_intent_key op = slot_intent_key base n
    \<and> create_slot j (po_deployment_id op) base = Some slot \<and> passed slot n" if kind: "po_kind op = CreateOp"
  proof -
    obtain base n slot where s: "slot_base base n" "po_intent_key op = slot_intent_key base n"
      "create_slot j (po_deployment_id op) base = Some slot" "mirrored slot n (po_state op)"
      using inv op(1) kind by (rule create_rowE)
    then have "passed slot n" using op(2) by (auto simp: mirrored_def passed_def split: if_splits)
    with s show ?thesis by blast
  qed
  with inv show ?thesis unfolding journal_inv_def begun_ok_def by auto
qed

text \<open>A prepared create never was handed to the provider.\<close>

lemma prepared_not_begun:
  assumes inv: "journal_inv uuid5 begun j" and op: "row j i = Some op" "po_state op = Prepared" "po_kind op = CreateOp"
  shows "(po_deployment_id op, CreateOp, po_intent_key op) \<notin> set begun"
proof
  assume "(po_deployment_id op, CreateOp, po_intent_key op) \<in> set begun"
  with inv obtain b m s where b: "slot_base b m" "po_intent_key op = slot_intent_key b m"
    "create_slot j (po_deployment_id op) b = Some s" "passed s m"
    unfolding journal_inv_def begun_ok_def by blast
  obtain base n slot where r: "slot_base base n" "po_intent_key op = slot_intent_key base n"
    "create_slot j (po_deployment_id op) base = Some slot" "mirrored slot n (po_state op)"
    using inv op(1,3) by (rule create_rowE)
  have "b = base \<and> m = n" using slot_base_inject [OF b(1) r(1)] b(2) r(2) by simp
  with b r op(2) show False by (auto simp: passed_def mirrored_def finished_def split: if_splits)
qed

text \<open>Reserving a slot: a fresh one, or the next incarnation of one whose operation has finished.\<close>

lemma set_slot_inv:
  assumes inv: "journal_inv uuid5 begun j" and base: "slot_base base n"
    and newer: "\<And>slot. create_slot j d base = Some slot \<Longrightarrow> sl_incarnation slot < n \<and> slot_terminal (sl_state slot)"
  shows "journal_inv uuid5 begun (set_slot (d, CreateOp, base) n Reserved now j)" (is "journal_inv _ _ ?j")
proof -
  have slots: "create_slot ?j d' b = (if d' = d \<and> b = base then Some \<lparr>sl_incarnation = n, sl_state = Reserved, sl_updated_at = now\<rparr>
      else create_slot j d' b)" for d' b
    by simp
  have older: "mirrored \<lparr>sl_incarnation = n, sl_state = Reserved, sl_updated_at = now\<rparr> m st"
    if "create_slot j d base = Some slot" "mirrored slot m st" for slot m st
    using newer [OF that(1)] that(2) by (cases "sl_state slot") (auto simp: mirrored_def finished_def split: if_splits)
  have past: "passed \<lparr>sl_incarnation = n, sl_state = Reserved, sl_updated_at = now\<rparr> m"
    if "create_slot j d base = Some slot" "passed slot m" for slot m
    using newer [OF that(1)] that(2) by (auto simp: passed_def)
  have "rows_ok uuid5 ?j" using inv by (simp add: journal_inv_def rows_ok_def)
  moreover have "create_rows_ok ?j"
    unfolding create_rows_ok_def
  proof (intro allI impI)
    fix i op assume r: "row ?j i = Some op" "po_kind op = CreateOp"
    from r(1) have "row j i = Some op" by simp
    then obtain b m s where "slot_base b m" "po_intent_key op = slot_intent_key b m"
      "create_slot j (po_deployment_id op) b = Some s" "mirrored s m (po_state op)" using r(2) by (rule create_rowE [OF inv])
    then show "\<exists>b m s. slot_base b m \<and> po_intent_key op = slot_intent_key b m
      \<and> create_slot ?j (po_deployment_id op) b = Some s \<and> mirrored s m (po_state op)"
      using older unfolding slots by metis
  qed
  moreover have "slots_ok uuid5 ?j"
    using inv base unfolding journal_inv_def slots_ok_def by (auto split: if_splits)
  moreover have "begun_ok begun ?j"
    using inv past unfolding journal_inv_def begun_ok_def slots by metis
  ultimately show ?thesis by (simp add: journal_inv_def)
qed

lemma allocate_InrE:
  assumes "allocate_operation_intent_key deployment_id ''create'' base_key now j = Inr (j', key)"
  obtains (Fresh) "create_slot j (str_strip deployment_id) (str_strip base_key) = None" "key = slot_intent_key (str_strip base_key) 1"
      "j' = set_slot (str_strip deployment_id, CreateOp, str_strip base_key) 1 Reserved now j"
    | (Next) slot where "create_slot j (str_strip deployment_id) (str_strip base_key) = Some slot" "slot_terminal (sl_state slot)"
      "key = slot_intent_key (str_strip base_key) (sl_incarnation slot + 1)"
      "j' = set_slot (str_strip deployment_id, CreateOp, str_strip base_key) (sl_incarnation slot + 1) Reserved now j"
    | (Reuse) slot where "create_slot j (str_strip deployment_id) (str_strip base_key) = Some slot" "\<not> slot_terminal (sl_state slot)"
      "key = slot_intent_key (str_strip base_key) (sl_incarnation slot)" "j' = j"
proof -
  have kind: "operation_kind ''create'' = Some CreateOp" by code_simp
  show ?thesis
    using assms that unfolding allocate_operation_intent_key_def need_def Let_def kind
    by (auto split: if_splits option.splits)
qed

text \<open>After an allocation the slot stands at the incarnation of the key, which is not finished.\<close>

lemma allocate_inv:
  assumes inv: "journal_inv uuid5 begun j" and base: "CHR ''#'' \<notin> set (str_strip base_key)"
    and al: "allocate_operation_intent_key deployment_id ''create'' base_key now j = Inr (j', key)"
  shows "journal_inv uuid5 begun j'"
    "\<exists>slot. create_slot j' (str_strip deployment_id) (str_strip base_key) = Some slot \<and> \<not> slot_terminal (sl_state slot)
       \<and> key = slot_intent_key (str_strip base_key) (sl_incarnation slot) \<and> slot_base (str_strip base_key) (sl_incarnation slot)"
proof -
  have old: "1 \<le> sl_incarnation slot" if "create_slot j d b = Some slot" for d b slot
    using that inv by (auto simp: journal_inv_def slots_ok_def slot_base_def)
  show "journal_inv uuid5 begun j'"
    using al
  proof (cases rule: allocate_InrE)
    case Fresh
    then show ?thesis using base by (auto intro!: set_slot_inv [OF inv] simp: slot_base_def)
  next
    case (Next slot)
    then show ?thesis using base by (auto intro!: set_slot_inv [OF inv] simp: slot_base_def)
  qed (simp add: inv)
  show "\<exists>slot. create_slot j' (str_strip deployment_id) (str_strip base_key) = Some slot \<and> \<not> slot_terminal (sl_state slot)
       \<and> key = slot_intent_key (str_strip base_key) (sl_incarnation slot) \<and> slot_base (str_strip base_key) (sl_incarnation slot)"
    using al by (cases rule: allocate_InrE) (use base old in \<open>auto simp: slot_base_def\<close>)
qed

definition fresh_operation ::
  "(string \<Rightarrow> string) \<Rightarrow> string \<Rightarrow> OpKind \<Rightarrow> string \<Rightarrow> (string, json) dict \<Rightarrow> Role \<Rightarrow> string list \<Rightarrow> int \<Rightarrow> ProviderOperation" where
  "fresh_operation uuid5 key kind deployment request role targets now =
     \<lparr>po_operation_id = stable_provider_operation_id uuid5 deployment kind key, po_intent_key = key, po_kind = kind,
      po_deployment_id = deployment, po_role = role, po_state = Prepared, po_request = request, po_response = [],
      po_target_job_ids = job_ids_of targets, po_created_at = now, po_updated_at = now, po_last_error = []\<rparr>"

lemma prepare_InrE:
  assumes "prepare_operation uuid5 intent_key kind deployment_id request role targets now j = Inr (j', op)"
  obtains (Existing) "j' = j"
    | (New) k r where "operation_kind kind = Some k" "provider_role role = Some r"
      "op = fresh_operation uuid5 (str_strip intent_key) k (str_strip deployment_id) request r targets now"
      "row j (po_operation_id op) = None"
      "j' = update_slot_state (str_strip deployment_id) k (str_strip intent_key) Prepared now (put_operation op j)"
proof (cases "operation_kind kind")
  case None
  with assms show thesis by (simp add: prepare_operation_def need_def Let_def split: if_splits)
next
  case (Some k)
  note k = Some
  show thesis
  proof (cases "provider_role role")
    case None
    with assms k show thesis by (simp add: prepare_operation_def need_def Let_def split: if_splits)
  next
    case (Some r)
    note r = Some
    let ?id = "stable_provider_operation_id uuid5 (str_strip deployment_id) k (str_strip intent_key)"
    show thesis
    proof (cases "row j ?id")
      case None
      with assms k r have "op = fresh_operation uuid5 (str_strip intent_key) k (str_strip deployment_id) request r targets now"
        "j' = update_slot_state (str_strip deployment_id) k (str_strip intent_key) Prepared now (put_operation op j)"
        by (auto simp: prepare_operation_def need_def Let_def fresh_operation_def split: if_splits)
      with None k r show thesis by (intro New) (simp_all add: fresh_operation_def)
    next
      case (Some x)
      with assms k r have "j' = j" by (simp add: prepare_operation_def need_def Let_def split: if_splits)
      then show thesis by (rule Existing)
    qed
  qed
qed

lemma put_operation_fields [simp]:
  "jn_slots (put_operation op j) = jn_slots j" "jn_drains (put_operation op j) = jn_drains j"
  "jn_attempts (put_operation op j) = jn_attempts j"
  "jn_operations (put_operation op j) = AList.update (po_operation_id op) op (jn_operations j)"
  by (simp_all add: put_operation_def)

lemma fresh_operation_fields [simp]:
  "po_operation_id (fresh_operation u key k d req r t now) = stable_provider_operation_id u d k key"
  "po_intent_key (fresh_operation u key k d req r t now) = key" "po_kind (fresh_operation u key k d req r t now) = k"
  "po_deployment_id (fresh_operation u key k d req r t now) = d" "po_state (fresh_operation u key k d req r t now) = Prepared"
  by (simp_all add: fresh_operation_def)

lemma prepare_rows_ok:
  assumes "rows_ok uuid5 j" "prepare_operation uuid5 intent_key kind deployment_id request role targets now j = Inr (j', op)"
  shows "rows_ok uuid5 j'"
  using assms(2)
proof (cases rule: prepare_InrE)
  case (New k r)
  then show ?thesis by (intro rows_ok_update [OF assms(1), where op = op]) simp_all
qed (simp add: assms)

lemma prepare_stop_inv:
  assumes inv: "journal_inv uuid5 begun j"
    and p: "prepare_operation uuid5 intent_key ''stop'' deployment_id request role targets now j = Inr (j', op)"
  shows "journal_inv uuid5 begun j'"
  using p
proof (cases rule: prepare_InrE)
  case (New k r)
  have "operation_kind ''stop'' = Some StopOp" by code_simp
  with New have k: "k = StopOp" by simp
  show ?thesis
  proof (rule same_creates_inv [OF inv])
    show "rows_ok uuid5 j'" using inv p by (auto simp: journal_inv_def intro: prepare_rows_ok)
    show "row j' i = Some x \<longleftrightarrow> row j i = Some x" if "po_kind x = CreateOp" for i x
      using that New k by (auto simp: update_conv')
    show "create_slot j' d b = create_slot j d b" for d b
      unfolding New(5) k by (subst other_kind_slot) simp_all
  qed
qed (simp add: inv)

lemma prepare_create_inv:
  assumes inv: "journal_inv uuid5 begun j"
    and slot: "create_slot j (str_strip deployment_id) base = Some slot" "\<not> slot_terminal (sl_state slot)"
    and key: "key = slot_intent_key base (sl_incarnation slot)" "slot_base base (sl_incarnation slot)" "str_strip key = key"
    and p: "prepare_operation uuid5 key ''create'' deployment_id request role targets now j = Inr (j', op)"
  shows "journal_inv uuid5 begun j'"
  using p
proof (cases rule: prepare_InrE)
  case (New k r)
  have "operation_kind ''create'' = Some CreateOp" by code_simp
  with New have k: "k = CreateOp" by simp
  let ?d = "str_strip deployment_id" and ?n = "sl_incarnation slot"
  have "sl_state slot = Reserved"
  proof (cases "sl_state slot")
    case (Mirrors s)
    with slot(2) have "\<not> finished s" by (simp add: finished_def)
    with inv slot(1) Mirrors obtain x where "row j (stable_provider_operation_id uuid5 ?d CreateOp (slot_intent_key base ?n)) = Some x"
      unfolding journal_inv_def slots_ok_def by blast
    with New(3,4) k key(1,3) show ?thesis by simp
  qed
  then have fresh: "\<not> passed slot ?n" by (simp add: passed_def)
  let ?slot = "\<lparr>sl_incarnation = ?n, sl_state = Mirrors Prepared, sl_updated_at = now\<rparr>"
  have split: "split_intent_key key = (base, ?n)" using key(1,2) slot_base_split by simp
  have slots: "create_slot j' d b = (if d = ?d \<and> b = base then Some ?slot else create_slot j d b)" for d b
    unfolding New(5) k key(3) using split slot(1)
      update_slot_state_other [of "(d, CreateOp, b)" ?d CreateOp key Prepared now "put_operation op j"]
    by (auto simp: update_slot_state_same [of _ _ key, unfolded split, simplified])
  have rows: "row j' i = (if i = po_operation_id op then Some op else row j i)" for i
    unfolding New(5) by (simp add: update_conv')
  have "dict_keys_ok (jn_operations j')" using inv unfolding New(5) by (simp add: journal_inv_def rows_ok_def)
  then have "slot_advance uuid5 j j' base slot ?slot op"
    unfolding slot_advance_def Let_def rows slots using New(3,4) k key slot(1) by auto
  with inv fresh show ?thesis by (auto intro: advance_inv)
qed (simp add: inv)

text \<open>Compaction forgets finished operations only.\<close>

lemma dict_get_filter_key: "dict_get (filter (\<lambda>(k, v). P k) d) k = (if P k then dict_get d k else None)"
  by (induction d) auto

lemma compactE:
  assumes "rows_ok uuid5 j"
  obtains gone where "jn_operations (fst (compact_terminal_history keep j)) = filter (\<lambda>(i, op). i \<notin> gone) (jn_operations j)"
    "\<And>i op. i \<in> gone \<Longrightarrow> row j i = Some op \<Longrightarrow> finished (po_state op)"
proof -
  define newest where "newest = rev (sort_key (\<lambda>op. (po_updated_at op, po_operation_id op)) (terminal_operations j))"
  define gone where "gone = set (map po_operation_id (drop (nat (max 0 keep)) newest))"
  have "finished (po_state op)" if i: "i \<in> gone" "row j i = Some op" for i op
  proof -
    obtain x where x: "x \<in> set newest" "po_operation_id x = i"
      using i(1) unfolding gone_def by (auto dest: in_set_dropD)
    then obtain i' where "(i', x) \<in> set (jn_operations j)" and fin: "finished (po_state x)"
      by (auto simp: newest_def terminal_operations_def finished_def)
    then have "row j i' = Some x" using assms by (simp add: rows_ok_def)
    with row_stable(2) [OF assms this] x(2) i(2) fin show ?thesis by simp
  qed
  then show ?thesis using that [of gone] by (simp add: compact_terminal_history_def Let_def gone_def newest_def)
qed

lemma compact_slots [simp]: "jn_slots (fst (compact_terminal_history keep j)) = jn_slots j"
  by (simp add: compact_terminal_history_def Let_def)

lemma compact_rows:
  assumes "rows_ok uuid5 j"
  shows "rows_ok uuid5 (fst (compact_terminal_history keep j))"
    "row (fst (compact_terminal_history keep j)) i = Some op \<Longrightarrow> row j i = Some op"
    "row j i = Some op \<Longrightarrow> \<not> finished (po_state op) \<Longrightarrow> row (fst (compact_terminal_history keep j)) i = Some op"
proof -
  obtain gone where ops: "jn_operations (fst (compact_terminal_history keep j)) = filter (\<lambda>(i, op). i \<notin> gone) (jn_operations j)"
    and gone: "\<And>i op. i \<in> gone \<Longrightarrow> row j i = Some op \<Longrightarrow> finished (po_state op)" using assms by (rule compactE [where keep = keep]) blast
  have rows: "row (fst (compact_terminal_history keep j)) i = (if i \<in> gone then None else row j i)" for i
    unfolding ops by (simp add: dict_get_filter_key)
  show "row (fst (compact_terminal_history keep j)) i = Some op \<Longrightarrow> row j i = Some op"
    unfolding rows by (simp split: if_splits)
  show "row j i = Some op \<Longrightarrow> \<not> finished (po_state op) \<Longrightarrow> row (fst (compact_terminal_history keep j)) i = Some op"
    unfolding rows using gone by auto
  have "dict_keys_ok (jn_operations (fst (compact_terminal_history keep j)))"
    unfolding ops using assms by (simp add: rows_ok_def distinct_map_filter)
  then show "rows_ok uuid5 (fst (compact_terminal_history keep j))"
    unfolding rows_ok_def rows using row_stable [OF assms] by (auto split: if_splits)
qed

lemma compact_inv:
  assumes inv: "journal_inv uuid5 begun j"
  shows "journal_inv uuid5 begun (fst (compact_terminal_history keep j))"
proof -
  have ok: "rows_ok uuid5 j" using inv by (simp add: journal_inv_def)
  note c = compact_rows [OF ok, where keep = keep]
  have "create_rows_ok (fst (compact_terminal_history keep j))"
    using inv c(2) unfolding journal_inv_def create_rows_ok_def compact_slots by blast
  moreover have "slots_ok uuid5 (fst (compact_terminal_history keep j))"
    unfolding slots_ok_def compact_slots
  proof (intro allI impI conjI)
    fix d b slot assume s: "create_slot j d b = Some slot"
    show "slot_base b (sl_incarnation slot)" using inv s unfolding journal_inv_def slots_ok_def by blast
    fix st assume st: "sl_state slot = Mirrors st \<and> \<not> finished st"
    let ?key = "slot_intent_key b (sl_incarnation slot)"
    obtain op where op: "row j (stable_provider_operation_id uuid5 d CreateOp ?key) = Some op"
      "po_intent_key op = ?key" "po_deployment_id op = d" "po_kind op = CreateOp"
      using inv s st unfolding journal_inv_def slots_ok_def by blast
    obtain base n slot' where r: "slot_base base n" "po_intent_key op = slot_intent_key base n"
      "create_slot j (po_deployment_id op) base = Some slot'" "mirrored slot' n (po_state op)"
      using inv op(1,4) by (rule create_rowE)
    have "base = b \<and> n = sl_incarnation slot"
      using slot_base_inject [OF r(1), of b "sl_incarnation slot"] r(2) op(2) \<open>slot_base b (sl_incarnation slot)\<close> by simp
    with r op(3) s st have "\<not> finished (po_state op)" by (auto simp: mirrored_def)
    from c(3) [OF op(1) this] op show "\<exists>op. row (fst (compact_terminal_history keep j))
        (stable_provider_operation_id uuid5 d CreateOp ?key) = Some op
      \<and> po_intent_key op = ?key \<and> po_deployment_id op = d \<and> po_kind op = CreateOp" by blast
  qed
  moreover have "begun_ok begun (fst (compact_terminal_history keep j))"
    using inv unfolding journal_inv_def begun_ok_def compact_slots by blast
  ultimately show ?thesis using c(1) by (simp add: journal_inv_def)
qed

section \<open>Recovery\<close>

lemma reconcile_loop_keeps:
  assumes "\<And>op j j' out. op \<in> set ops \<Longrightarrow> P j \<Longrightarrow> f op j = Inr (j', out) \<Longrightarrow> P j'"
    and "P j" "reconcile_loop f ops j = Inr (j', outs)"
  shows "P j'"
  using assms
proof (induction ops arbitrary: j outs)
  case (Cons op ops)
  from Cons.prems(3) obtain j1 out outs' where "f op j = Inr (j1, out)" "reconcile_loop f ops j1 = Inr (j', outs')"
    by (auto split: sum.splits)
  with Cons show ?case by (metis list.set_intros)
qed simp

lemma list_operations_rows:
  assumes "rows_ok uuid5 j" "op \<in> set (list_operations kind states j)"
  shows "row j (po_operation_id op) = Some op" "kind = None \<or> kind = Some (po_kind op)" "states \<noteq> [] \<Longrightarrow> po_state op \<in> set states"
proof -
  obtain i where "(i, op) \<in> set (jn_operations j)" using assms(2) by (auto simp: list_operations_def)
  then have "row j i = Some op" using assms(1) by (simp add: rows_ok_def)
  with row_stable(2) [OF assms(1) this] show "row j (po_operation_id op) = Some op" by simp
qed (use assms(2) in \<open>auto simp: list_operations_def\<close>)

lemma reconcile_create_transition:
  assumes "reconcile_create instances now op j = Inr (j', out)"
  shows "j' = j \<or> (\<exists>expected r t e n x. transition_operation (po_operation_id op) expected Settled r t e n j = Inr (j', x)
    \<and> (\<forall>s \<in> set expected. \<not> finished s))"
  using assms by (auto simp: reconcile_create_def Let_def finished_def split: if_splits sum.splits) fastforce+

lemma reconcile_stop_transition:
  assumes "reconcile_stop instances now op j = Inr (j', out)"
  shows "j' = j \<or> (\<exists>expected st r t e n x. transition_operation (po_operation_id op) expected st r t e n j = Inr (j', x)
    \<and> (\<forall>s \<in> set expected. \<not> finished s))"
proof (cases "po_state op = Accepted")
  case True
  with assms show ?thesis by (auto simp: reconcile_stop_def Let_def finished_def split: if_splits sum.splits) fastforce+
next
  case False
  with assms obtain st r t e n x where "transition_operation (po_operation_id op) [Uncertain] st r t e n j = Inr (j', x)"
    by (auto simp: reconcile_stop_def Let_def split: sum.splits)
  then show ?thesis by (intro disjI2 exI conjI) (assumption, simp add: finished_def)
qed

lemma reconcile_inv:
  assumes inv: "journal_inv uuid5 begun j"
    and l1: "reconcile_loop (reconcile_create instances now) ops j = Inr (j1, o1)"
    and l2: "reconcile_loop (reconcile_stop instances now) ops' j1 = Inr (j', o2)"
    and listed: "set ops' \<subseteq> set (list_operations (Some StopOp) [Uncertain, Accepted] j1)"
  shows "journal_inv uuid5 begun j'"
proof -
  have inv1: "journal_inv uuid5 begun j1"
  proof (rule reconcile_loop_keeps [where P = "journal_inv uuid5 begun", OF _ inv l1])
    fix op j j' out assume "journal_inv uuid5 begun j" "reconcile_create instances now op j = Inr (j', out)"
    then show "journal_inv uuid5 begun j'"
      using reconcile_create_transition transition_inv by (metis OpState.distinct(5))
  qed
  let ?P = "\<lambda>j. journal_inv uuid5 begun j \<and> (\<forall>op \<in> set ops'. \<exists>x. row j (po_operation_id op) = Some x \<and> po_kind x = StopOp)"
  have "?P j'"
  proof (rule reconcile_loop_keeps [where P = ?P, OF _ _ l2])
    show "?P j1" using inv1 listed list_operations_rows [of uuid5 j1] by (fastforce simp: journal_inv_def)
    fix op j j' out assume op: "op \<in> set ops'" and P: "?P j" and r: "reconcile_stop instances now op j = Inr (j', out)"
    obtain y where y: "row j (po_operation_id op) = Some y" "po_kind y = StopOp" using P op by blast
    from reconcile_stop_transition [OF r] show "?P j'"
    proof (elim disjE exE conjE)
      fix expected st r t e n x
      assume tr: "transition_operation (po_operation_id op) expected st r t e n j = Inr (j', x)" "\<forall>s \<in> set expected. \<not> finished s"
      have x: "po_kind x = StopOp" using tr(1) y by (auto elim!: transition_InrE)
      have "journal_inv uuid5 begun j'" using P tr x transition_inv by blast
      then show ?thesis using P x unfolding transition_rows(1) [OF tr(1)] by (simp add: update_conv')
    qed (use P in simp)
  qed
  then show ?thesis by simp
qed

end
