(* ===== verification/Journal_Guarantees.thy ===== *)
theory Journal_Guarantees
  imports Journal_Laws
begin

text \<open>
  What the provider journal promises over a whole history of calls, crashes included: a history is
  any sequence of journal calls, of which a failing one leaves the store as it was; the inventory pass,
  which commits once per operation, may end after any of its turns. The theorems show
  that no create is handed to the provider twice, that a slot has at most one open create, and that the
  inventory pass moves every operation to the state its evidence supports.
\<close>

section \<open>Histories\<close>

datatype JournalCall =
    Call_Allocate string Role InstanceCreateIntent int
  | Call_Plan string Role InstanceCreateIntent int int
  | Call_Prepare_Stop string string "(string, json) dict" Role "string list" int
  | Call_Begin string int
  | Call_Accepted string "(string, json) dict" "string list" int
  | Call_Uncertain string string int
  | Call_Failed string string "(string, json) dict option" int
  | Call_Suppress string string int
  | Call_Reconcile "ProviderInstance list" "string \<Rightarrow> int" nat
  | Call_Compact int
  | Call_Prepare_Drain string string string string int
  | Call_Cancel_Drain string string int
  | Call_Retire_Drain string string
  | Call_Rotate string "delete_key list" "delete_key list" int int

definition after :: "Journal \<Rightarrow> 'a journal_result \<Rightarrow> Journal" where
  "after j r = (case r of Inl e \<Rightarrow> j | Inr (j', _) \<Rightarrow> j')"

text \<open>The inventory pass commits every transition by itself, so it may end, by a crash or because a
  transition raises, with any number of its turns done.\<close>

definition interrupted_pass ::
  "ProviderInstance list \<Rightarrow> (string \<Rightarrow> int) \<Rightarrow> nat \<Rightarrow> Journal \<Rightarrow> ProviderOperationOutcome list journal_result" where
  "interrupted_pass instances now turns j =
     (let creates = list_operations (Some CreateOp) [Uncertain, Accepted] j
      in case reconcile_loop (reconcile_create instances now) (take turns creates) j of
           Inl e \<Rightarrow> Inl e
         | Inr (j1, recovered) \<Rightarrow>
             (case reconcile_loop (reconcile_stop instances now)
                     (take (turns - length creates) (list_operations (Some StopOp) [Uncertain, Accepted] j1)) j1 of
                Inl e \<Rightarrow> Inl e | Inr (j2, stopped) \<Rightarrow> Inr (j2, recovered @ stopped)))"

lemma complete_pass: "\<exists>n. \<forall>turns \<ge> n. interrupted_pass instances now turns j = reconcile_provider_inventory instances now j"
proof (cases "reconcile_loop (reconcile_create instances now) (list_operations (Some CreateOp) [Uncertain, Accepted] j) j")
  case (Inl e)
  then show ?thesis
    by (intro exI [of _ "length (list_operations (Some CreateOp) [Uncertain, Accepted] j)"])
      (simp add: interrupted_pass_def reconcile_provider_inventory_def)
next
  case (Inr p)
  then show ?thesis
    by (intro exI [of _ "length (list_operations (Some CreateOp) [Uncertain, Accepted] j)
          + length (list_operations (Some StopOp) [Uncertain, Accepted] (fst p))"])
      (auto simp: interrupted_pass_def reconcile_provider_inventory_def split_beta)
qed

text \<open>The store after one call.\<close>

fun journal_step ::
  "(string \<Rightarrow> string) \<Rightarrow> (InstanceCreateIntent \<Rightarrow> (string, json) dict) \<Rightarrow> JournalCall \<Rightarrow> Journal \<Rightarrow> Journal" where
  "journal_step uuid5 render (Call_Allocate d role intent now) j =
     after j (allocate_operation_intent_key d ''create'' (intent_base_key role intent) now j)"
| "journal_step uuid5 render (Call_Plan d role intent now1 now2) j =
     fst (plan_create_operation uuid5 render d role intent now1 now2 j)"
| "journal_step uuid5 render (Call_Prepare_Stop key d request role targets now) j =
     after j (prepare_operation uuid5 key ''stop'' d request (role_str role) targets now j)"
| "journal_step uuid5 render (Call_Begin i now) j = after j (begin_provider_call i now j)"
| "journal_step uuid5 render (Call_Accepted i response targets now) j = after j (mark_operation_accepted i response targets now j)"
| "journal_step uuid5 render (Call_Uncertain i err now) j = after j (mark_operation_uncertain i err now j)"
| "journal_step uuid5 render (Call_Failed i err response now) j = after j (mark_operation_failed i err response now j)"
| "journal_step uuid5 render (Call_Suppress i reason now) j = after j (suppress_prepared_operation i reason now j)"
| "journal_step uuid5 render (Call_Reconcile instances now turns) j = after j (interrupted_pass instances now turns j)"
| "journal_step uuid5 render (Call_Compact keep) j = fst (compact_terminal_history keep j)"
| "journal_step uuid5 render (Call_Prepare_Drain u d job role now) j = after j (prepare_drain_intent u d job role now j)"
| "journal_step uuid5 render (Call_Cancel_Drain d job now) j = after j (begin_drain_cancellation d job now j)"
| "journal_step uuid5 render (Call_Retire_Drain d job) j = after j (retire_drain_intent d job j)"
| "journal_step uuid5 render (Call_Rotate d pending recorded budget now) j =
     after j (rotate_pending_deletes d pending (set recorded) budget now j)"

text \<open>The operation a call hands to the provider: what a successful \<open>begin_provider_call\<close> returns.\<close>

fun handed :: "JournalCall \<Rightarrow> Journal \<Rightarrow> begun" where
  "handed (Call_Begin i now) j =
     (case begin_provider_call i now j of
        Inl e \<Rightarrow> [] | Inr (j', op) \<Rightarrow> [(po_deployment_id op, po_kind op, po_intent_key op)])"
| "handed _ j = []"

fun journal_run ::
  "(string \<Rightarrow> string) \<Rightarrow> (InstanceCreateIntent \<Rightarrow> (string, json) dict) \<Rightarrow> JournalCall list \<Rightarrow> Journal \<Rightarrow> begun \<Rightarrow> Journal \<times> begun" where
  "journal_run uuid5 render [] j begun = (j, begun)"
| "journal_run uuid5 render (c # cs) j begun =
     journal_run uuid5 render cs (journal_step uuid5 render c j) (begun @ handed c j)"

text \<open>The seeds of create intents have no \<open>#\<close>, the separator of base key and incarnation.\<close>

fun seed_ok :: "JournalCall \<Rightarrow> bool" where
  "seed_ok (Call_Allocate d role intent now) = (CHR ''#'' \<notin> set (in_seed intent))"
| "seed_ok (Call_Plan d role intent now1 now2) = (CHR ''#'' \<notin> set (in_seed intent))"
| "seed_ok _ = True"

lemma in_str_strip: "c \<in> set (str_strip s) \<Longrightarrow> c \<in> set s"
  by (auto simp: str_strip_def dest!: set_dropWhileD)

lemma base_key_plain: "CHR ''#'' \<notin> set (in_seed intent) \<Longrightarrow> CHR ''#'' \<notin> set (str_strip (intent_base_key role intent))"
  by (cases role) (auto simp: intent_base_key_def dest!: in_str_strip)

lemma unchanged_inv:
  assumes "journal_inv uuid5 begun j" "jn_operations j' = jn_operations j" "jn_slots j' = jn_slots j"
  shows "journal_inv uuid5 begun j'"
  using assms(1) unfolding journal_inv_def rows_ok_def create_rows_ok_def slots_ok_def begun_ok_def assms(2,3) .

lemma drain_calls_unchanged:
  "prepare_drain_intent u d job role now j = Inr (j', x) \<Longrightarrow> jn_operations j' = jn_operations j \<and> jn_slots j' = jn_slots j"
  "begin_drain_cancellation d job now j = Inr (j', x) \<Longrightarrow> jn_operations j' = jn_operations j \<and> jn_slots j' = jn_slots j"
  "retire_drain_intent d job j = Inr (j', y) \<Longrightarrow> jn_operations j' = jn_operations j \<and> jn_slots j' = jn_slots j"
  "rotate_pending_deletes d pending recorded budget now j = Inr (j', z) \<Longrightarrow> jn_operations j' = jn_operations j \<and> jn_slots j' = jn_slots j"
  by (auto simp: prepare_drain_intent_def begin_drain_cancellation_def retire_drain_intent_def rotate_pending_deletes_def
      need_def Let_def put_drain_def split: if_splits option.splits DrainState.splits)

lemma plan_inv:
  assumes inv: "journal_inv uuid5 begun j" and seed: "CHR ''#'' \<notin> set (in_seed intent)"
  shows "journal_inv uuid5 begun (fst (plan_create_operation uuid5 render d role intent now1 now2 j))"
proof (cases "allocate_operation_intent_key d ''create'' (intent_base_key role intent) now1 j")
  case (Inl e)
  then show ?thesis using inv by (simp add: plan_create_operation_def)
next
  case (Inr p)
  obtain j1 key where p: "p = (j1, key)" by (cases p)
  let ?base = "str_strip (intent_base_key role intent)"
  note al = Inr [unfolded p]
  note plain = base_key_plain [OF seed, of role]
  have inv1: "journal_inv uuid5 begun j1" using inv plain al by (rule allocate_inv(1))
  obtain slot where s: "create_slot j1 (str_strip d) ?base = Some slot" "\<not> slot_terminal (sl_state slot)"
    "key = slot_intent_key ?base (sl_incarnation slot)" "slot_base ?base (sl_incarnation slot)"
    using allocate_inv(2) [OF inv plain al] by blast
  have "?base \<noteq> []" using al by (auto simp: allocate_operation_intent_key_def need_def Let_def split: if_splits option.splits)
  then have key: "str_strip key = key" using slot_key_stripped(1) [OF str_strip_idem] s(3) by simp
  show ?thesis
  proof (cases "with_provider_operation_label intent (stable_provider_operation_id uuid5 (str_strip d) CreateOp key) (Some d)")
    case (Inl e)
    then show ?thesis using inv1 al by (simp add: plan_create_operation_def)
  next
    case (Inr labeled)
    have "journal_inv uuid5 begun j2"
      if "prepare_operation uuid5 key ''create'' d (render labeled) (role_str role) [] now2 j1 = Inr (j2, op)" for j2 op
      using inv1 s(1,2,3,4) key that by (rule prepare_create_inv)
    with Inr inv1 al show ?thesis by (auto simp: plan_create_operation_def split: sum.splits)
  qed
qed

lemmas mark_defs = begin_provider_call_def mark_operation_accepted_def mark_operation_uncertain_def
  mark_operation_failed_def suppress_prepared_operation_def

lemma after_inv:
  assumes "journal_inv uuid5 begun j" "\<And>j' x. r = Inr (j', x) \<Longrightarrow> journal_inv uuid5 begun j'"
  shows "journal_inv uuid5 begun (after j r)"
  using assms by (auto simp: after_def split: sum.splits)

lemma transition_after_inv:
  assumes "journal_inv uuid5 begun j" "\<forall>s \<in> set expected. \<not> finished s" "st \<noteq> Prepared"
  shows "journal_inv uuid5 begun (after j (transition_operation i expected st r t e now j))"
  using assms by (intro after_inv) (auto intro: transition_inv)

lemma step_inv:
  assumes inv: "journal_inv uuid5 begun j" and "seed_ok c"
  shows "journal_inv uuid5 begun (journal_step uuid5 render c j)"
proof (cases c)
  case (Call_Allocate d role intent now)
  then show ?thesis using assms by (auto intro!: after_inv intro: allocate_inv(1) [OF inv base_key_plain])
next
  case (Call_Plan d role intent now1 now2)
  then show ?thesis using assms by (simp add: plan_inv)
next
  case (Call_Prepare_Stop key d request role targets now)
  then show ?thesis using inv by (auto intro!: after_inv intro: prepare_stop_inv)
next
  case (Call_Reconcile instances now turns)
  then show ?thesis using inv
    by (auto simp: interrupted_pass_def Let_def intro!: after_inv dest: in_set_takeD intro: reconcile_inv split: sum.splits)
next
  case (Call_Prepare_Drain u d job role now)
  then show ?thesis using inv drain_calls_unchanged(1) by (auto intro!: after_inv intro: unchanged_inv)
next
  case (Call_Cancel_Drain d job now)
  then show ?thesis using inv drain_calls_unchanged(2) by (auto intro!: after_inv intro: unchanged_inv)
next
  case (Call_Retire_Drain d job)
  then show ?thesis using inv drain_calls_unchanged(3) by (auto intro!: after_inv intro: unchanged_inv)
next
  case (Call_Rotate d pending recorded budget now)
  then show ?thesis using inv drain_calls_unchanged(4) by (auto intro!: after_inv intro: unchanged_inv)
qed (use inv in \<open>auto simp: mark_defs finished_def intro: compact_inv intro!: transition_after_inv\<close>)

lemma handed_inv:
  assumes inv: "journal_inv uuid5 begun j" and "distinct (filter (\<lambda>(d, k, key). k = CreateOp) begun)" "seed_ok c"
  shows "journal_inv uuid5 (begun @ handed c j) (journal_step uuid5 render c j)"
    "distinct (filter (\<lambda>(d, k, key). k = CreateOp) (begun @ handed c j))"
proof -
  have "journal_inv uuid5 (begun @ handed c j) (journal_step uuid5 render c j)
    \<and> distinct (filter (\<lambda>(d, k, key). k = CreateOp) (begun @ handed c j))"
  proof (cases "\<exists>i now j' op. c = Call_Begin i now \<and> begin_provider_call i now j = Inr (j', op)")
    case True
    then obtain i now j' op where c: "c = Call_Begin i now" and b: "begin_provider_call i now j = Inr (j', op)" by blast
    from b obtain old where old: "row j i = Some old" "po_state old = Prepared" "op = moved old Uncertain None None None now"
      unfolding begin_provider_call_def by (auto elim!: transition_InrE)
    have inv': "journal_inv uuid5 begun j'" using step_inv [OF inv assms(3), of render] c b by (simp add: after_def)
    have "row j' i = Some op" using transition_rows(1) [OF b [unfolded begin_provider_call_def]] by (simp add: update_conv')
    with inv' have "journal_inv uuid5 (begun @ [(po_deployment_id op, po_kind op, po_intent_key op)]) j'"
      using old(3) by (intro begun_add) simp_all
    moreover have "po_kind op = CreateOp \<longrightarrow> (po_deployment_id op, CreateOp, po_intent_key op) \<notin> set begun"
      using prepared_not_begun [OF inv old(1,2)] old(3) by simp
    ultimately show ?thesis using assms(2) c b by (auto simp: after_def)
  next
    case False
    then have "handed c j = []" by (cases c) (auto split: sum.splits)
    with step_inv [OF inv assms(3)] assms(2) show ?thesis by simp
  qed
  then show "journal_inv uuid5 (begun @ handed c j) (journal_step uuid5 render c j)"
    "distinct (filter (\<lambda>(d, k, key). k = CreateOp) (begun @ handed c j))" by blast+
qed

lemma run_inv:
  assumes "journal_inv uuid5 begun j" "distinct (filter (\<lambda>(d, k, key). k = CreateOp) begun)" "\<forall>c \<in> set cs. seed_ok c"
    and "journal_run uuid5 render cs j begun = (j', begun')"
  shows "journal_inv uuid5 begun' j' \<and> distinct (filter (\<lambda>(d, k, key). k = CreateOp) begun')"
  using assms
proof (induction cs arbitrary: j begun)
  case (Cons c cs)
  have "seed_ok c" using Cons.prems(3) by simp
  note h = handed_inv [OF Cons.prems(1,2) this]
  show ?case using Cons.IH [OF h] Cons.prems(3,4) by simp
qed simp

lemma empty_inv: "journal_inv uuid5 [] empty_journal"
  by (simp add: journal_inv_def rows_ok_def create_rows_ok_def slots_ok_def begun_ok_def empty_journal_def)

section \<open>Theorems on histories\<close>

lemma intent_seed_plain:
  assumes "intent \<in> set (build_create_intents deployment_id version uuid decision role seed_prefix)"
  shows "CHR ''#'' \<notin> set (in_seed intent)"
proof -
  let ?cycle = "stable_hostname (str_or seed_prefix (take 10 uuid)) []"
  have "clean ?cycle" by (rule stable_hostname_clean) simp
  then have "CHR ''#'' \<notin> set ?cycle" by (auto simp: clean_def list_all_iff hostname_char_def Let_def)
  moreover have "CHR ''#'' \<notin> set (str_nat n)" for n using str_nat_no_hash by blast
  ultimately show ?thesis
    using assms by (cases role) (auto simp: build_create_intents_def create_intent_def Let_def split: if_splits)
qed

text \<open>A history that plans, calls, plans again while the call is open, fails, forgets and plans once more.\<close>

definition sample_intent :: InstanceCreateIntent where
  "sample_intent = \<lparr>in_seed = ''s-1'', in_role = Sandbox_Role, in_name = ''n'', in_node_id = ''n'', in_node_url = ''u'', in_labels = []\<rparr>"

definition sample_calls :: "JournalCall list" where
  "sample_calls = [Call_Plan ''d'' Sandbox_Role sample_intent 1 2, Call_Begin ''provider-1'' 3,
     Call_Plan ''d'' Sandbox_Role sample_intent 4 5, Call_Begin ''provider-1'' 6,
     Call_Failed ''provider-1'' ''no'' None 7, Call_Compact 0,
     Call_Plan ''d'' Sandbox_Role sample_intent 8 9, Call_Begin ''provider-2'' 10]"

definition sample_run :: "Journal \<times> begun" where
  "sample_run = journal_run (\<lambda>s. [last s]) (\<lambda>_. []) sample_calls empty_journal []"

lemma sample_run_result:
  "case sample_run of (j, begun) \<Rightarrow> begun = [(''d'', CreateOp, ''sandbox:s-1''), (''d'', CreateOp, ''sandbox:s-1#2'')]
   \<and> map_option (\<lambda>op. (po_kind op, po_deployment_id op, po_intent_key op, po_state op)) (dict_get (jn_operations j) ''provider-2'')
       = Some (CreateOp, ''d'', ''sandbox:s-1#2'', Uncertain)"
  by code_simp

lemma sample_seeds: "\<forall>c \<in> set sample_calls. seed_ok c"
  by code_simp

text \<open>C2. No create is handed to the provider twice: whatever sequence of journal calls the
  autoscaler makes, with crashes between any two of them, retries of the same intents, inventory
  passes and compactions of the history, the create operations for which \<open>begin_provider_call\<close>
  succeeds all have different deployments or keys. Seeds must not hold the separator \<open>#\<close>.\<close>

theorem create_called_at_most_once:
  assumes "\<forall>c \<in> set calls. seed_ok c" "journal_run uuid5 render calls empty_journal [] = (j, begun)"
  shows "distinct (filter (\<lambda>(deployment, kind, key). kind = CreateOp) begun)"
  using run_inv [OF empty_inv _ assms(1,2)] by simp

theorem create_called_at_most_once_witness:
  "length (snd sample_run) = 2 \<and> distinct (filter (\<lambda>(deployment, kind, key). kind = CreateOp) (snd sample_run))"
  using create_called_at_most_once [OF sample_seeds, of "\<lambda>s. [last s]" "\<lambda>_. []" "fst sample_run" "snd sample_run"]
    sample_run_result by (simp add: sample_run_def split_beta)

text \<open>C36. A planning slot has at most one open create: after any such history, two create operations
  of one deployment that are prepared, uncertain or accepted and whose keys have the same base key
  are the same operation, and it is the newest incarnation of its slot, whose state is the slot's.\<close>

theorem one_open_create_per_slot:
  assumes "\<forall>c \<in> set calls. seed_ok c" "journal_run uuid5 render calls empty_journal [] = (j, begun)"
    and "dict_get (jn_operations j) a = Some op" "dict_get (jn_operations j) b = Some op'"
    and "po_kind op = CreateOp" "po_kind op' = CreateOp" "po_deployment_id op = po_deployment_id op'"
    and "fst (split_intent_key (po_intent_key op)) = fst (split_intent_key (po_intent_key op'))"
    and "po_state op \<in> {Prepared, Uncertain, Accepted}" "po_state op' \<in> {Prepared, Uncertain, Accepted}"
  shows "a = b \<and> op = op' \<and> (\<exists>slot. dict_get (jn_slots j) (po_deployment_id op, CreateOp, fst (split_intent_key (po_intent_key op))) = Some slot
    \<and> sl_incarnation slot = snd (split_intent_key (po_intent_key op)) \<and> sl_state slot = Mirrors (po_state op))"
proof -
  have inv: "journal_inv uuid5 begun j" using run_inv [OF empty_inv _ assms(1,2)] by simp
  then have ok: "rows_ok uuid5 j" by (simp add: journal_inv_def)
  have live: "\<not> finished (po_state op)" "\<not> finished (po_state op')" using assms(9,10) by (auto simp: finished_def)
  obtain base n slot where r: "slot_base base n" "po_intent_key op = slot_intent_key base n"
    "create_slot j (po_deployment_id op) base = Some slot" "mirrored slot n (po_state op)" using inv assms(3,5) by (rule create_rowE)
  obtain base' n' slot' where r': "slot_base base' n'" "po_intent_key op' = slot_intent_key base' n'"
    "create_slot j (po_deployment_id op') base' = Some slot'" "mirrored slot' n' (po_state op')" using inv assms(4,6) by (rule create_rowE)
  have split: "split_intent_key (po_intent_key op) = (base, n)" "split_intent_key (po_intent_key op') = (base', n')"
    using slot_base_split [OF r(1)] slot_base_split [OF r'(1)] r(2) r'(2) by simp_all
  then have "base = base'" "slot = slot'" using assms(7,8) r(3) r'(3) by simp_all
  moreover note new = open_is_newest [OF r(4) live(1)] open_is_newest [OF r'(4) live(2)]
  ultimately have "po_intent_key op = po_intent_key op'" using r(2) r'(2) by simp
  then have "a = b" using row_stable(1) [OF ok assms(3)] row_stable(1) [OF ok assms(4)] assms(5-7) by simp
  with assms(3,4) show ?thesis using r(3) split new by simp
qed

theorem one_open_create_per_slot_witness:
  "\<exists>slot. dict_get (jn_slots (fst sample_run)) (''d'', CreateOp, ''sandbox:s-1'') = Some slot
     \<and> sl_incarnation slot = 2 \<and> sl_state slot = Mirrors Uncertain"
proof -
  obtain op where op: "dict_get (jn_operations (fst sample_run)) ''provider-2'' = Some op" "po_kind op = CreateOp"
    "po_deployment_id op = ''d''" "po_intent_key op = ''sandbox:s-1#2''" "po_state op = Uncertain"
    using sample_run_result by (auto simp: split_beta)
  have "split_intent_key ''sandbox:s-1#2'' = (''sandbox:s-1'', 2)" by code_simp
  with one_open_create_per_slot [OF sample_seeds _ op(1) op(1) op(2) op(2) refl refl, of "\<lambda>s. [last s]" "\<lambda>_. []" "snd sample_run"] op
  show ?thesis by (simp add: sample_run_def)
qed

section \<open>The inventory pass\<close>

text \<open>The evidence an inventory gives: the jobs that carry an operation's labels, and the state it
  supports for an operation.\<close>

definition labelled_jobs :: "ProviderInstance list \<Rightarrow> ProviderOperation \<Rightarrow> string set" where
  "labelled_jobs instances op = {str_strip (job_id_of i) | i. i \<in> set instances \<and> str_strip (job_id_of i) \<noteq> []
     \<and> instance_label PROVIDER_OPERATION_LABEL i = po_operation_id op \<and> instance_label DEPLOYMENT_LABEL i = po_deployment_id op}"

definition present :: "ProviderInstance list \<Rightarrow> string \<Rightarrow> bool" where
  "present instances t \<longleftrightarrow> (\<exists>i \<in> set instances. str_strip (job_id_of i) = t \<and> t \<noteq> [])"

definition ended :: "ProviderInstance list \<Rightarrow> string \<Rightarrow> bool" where
  "ended instances t \<longleftrightarrow> (\<exists>i \<in> set instances. str_strip (job_id_of i) = t \<and> t \<noteq> [] \<and> job_is_final i)"

definition recovered_state :: "ProviderInstance list \<Rightarrow> ProviderOperation \<Rightarrow> OpState" where
  "recovered_state instances op =
     (let targets = po_target_job_ids op
      in case (po_kind op, po_state op) of
           (CreateOp, Uncertain) \<Rightarrow> if card (labelled_jobs instances op) = 1 then Settled else Uncertain
         | (CreateOp, Accepted) \<Rightarrow> if targets \<noteq> [] \<and> list_all (present instances) targets then Settled else Accepted
         | (StopOp, Uncertain) \<Rightarrow> if targets \<noteq> [] \<and> list_all (ended instances) targets then Settled else Prepared
         | (StopOp, Accepted) \<Rightarrow>
             if targets \<noteq> [] \<and> list_all (\<lambda>t. present instances t \<longrightarrow> ended instances t) targets then Settled else Accepted
         | (_, st) \<Rightarrow> st)"

lemma in_observed: "t \<in> set (observed_job_ids instances) \<longleftrightarrow> present instances t"
  by (auto simp: observed_job_ids_def identified_def present_def)

lemma in_final: "t \<in> set (final_job_ids instances) \<longleftrightarrow> ended instances t"
  by (auto simp: final_job_ids_def identified_def ended_def)

lemma job_ids_of_again: "set (job_ids_of (job_ids_of l)) = set (job_ids_of l)"
proof -
  have e: "x \<in> set (job_ids_of k) \<longleftrightarrow> (\<exists>y \<in> set k. x = str_strip y) \<and> x \<noteq> []" for x k by (auto simp: job_ids_of_def)
  have "(\<exists>y \<in> set (job_ids_of l). x = str_strip y) \<and> x \<noteq> [] \<longleftrightarrow> (\<exists>y \<in> set l. x = str_strip y) \<and> x \<noteq> []" for x
    unfolding Bex_def e by (auto simp: str_strip_idem)
  then show ?thesis unfolding set_eq_iff e by blast
qed

lemma labelled_length:
  assumes "po_operation_id op \<noteq> []" "po_deployment_id op \<noteq> []"
  shows "set (job_ids_of (labelled_job_ids instances (po_operation_id op) (po_deployment_id op))) = labelled_jobs instances op"
    "length (job_ids_of (labelled_job_ids instances (po_operation_id op) (po_deployment_id op))) = card (labelled_jobs instances op)"
proof -
  let ?ids = "job_ids_of (labelled_job_ids instances (po_operation_id op) (po_deployment_id op))"
  show "set ?ids = labelled_jobs instances op"
    using assms by (force simp: job_ids_of_def labelled_job_ids_def labelled_jobs_def identified_def str_strip_idem)
  then show "length ?ids = card (labelled_jobs instances op)"
    using distinct_card [of ?ids] by (simp add: job_ids_of_def)
qed

text \<open>The row a turn of the loops leaves.\<close>

definition create_turn :: "ProviderInstance list \<Rightarrow> (string \<Rightarrow> int) \<Rightarrow> ProviderOperation \<Rightarrow> ProviderOperation" where
  "create_turn instances now op =
     (let n = now (po_operation_id op);
          job_ids = job_ids_of (labelled_job_ids instances (po_operation_id op) (po_deployment_id op))
      in if po_state op = Accepted
         then (if po_target_job_ids op \<noteq> [] \<and> list_all (present instances) (po_target_job_ids op)
               then moved op Settled None None None n else op)
         else if length job_ids = 1
         then moved op Settled (Some [(''recoveredFromJobInventory'', JBool True)]) (Some job_ids) (Some []) n else op)"

lemma reconcile_create_turn:
  assumes "row j (po_operation_id op) = Some op" "po_state op \<in> {Uncertain, Accepted}"
  shows "\<exists>j' out. reconcile_create instances now op j = Inr (j', out)
    \<and> (\<forall>i. row j' i = (if i = po_operation_id op then Some (create_turn instances now op) else row j i))"
  using assms unfolding reconcile_create_def create_turn_def Let_def
  by (auto simp: transition_Some [OF assms(1)] update_conv' in_observed subset_eq list_all_iff)

definition stop_turn :: "ProviderInstance list \<Rightarrow> (string \<Rightarrow> int) \<Rightarrow> ProviderOperation \<Rightarrow> ProviderOperation" where
  "stop_turn instances now op =
     (let n = now (po_operation_id op);
          all_final = po_target_job_ids op \<noteq> [] \<and> list_all (ended instances) (po_target_job_ids op);
          started = AList.update ''providerCallStarted'' (JBool True) (po_response op)
      in if po_state op = Accepted
         then (if po_target_job_ids op \<noteq> [] \<and> list_all (\<lambda>t. present instances t \<longrightarrow> ended instances t) (po_target_job_ids op)
               then moved op Settled None None None n else op)
         else if all_final
         then moved op Settled (Some (AList.update ''recoveredFromFinalJobInventory'' (JBool True) started)) None (Some []) n
         else moved op Prepared (Some started) None (Some (po_last_error op)) n)"

lemma reconcile_stop_turn:
  assumes "row j (po_operation_id op) = Some op" "po_state op \<in> {Uncertain, Accepted}"
  shows "\<exists>j' out. reconcile_stop instances now op j = Inr (j', out)
    \<and> (\<forall>i. row j' i = (if i = po_operation_id op then Some (stop_turn instances now op) else row j i))"
proof (cases "po_state op = Accepted")
  case True
  then show ?thesis using assms unfolding reconcile_stop_def stop_turn_def Let_def
    by (auto simp: transition_Some [OF assms(1)] update_conv' in_observed in_final disjoint_iff list_all_iff)
next
  case False
  with assms(2) have "po_state op = Uncertain" by simp
  then show ?thesis using assms unfolding reconcile_stop_def stop_turn_def Let_def
    by (auto simp: transition_Some [OF assms(1)] update_conv' in_final subset_eq list_all_iff)
qed

lemma reconcile_loop_rows:
  assumes "\<And>op j. op \<in> set ops \<Longrightarrow> row j (po_operation_id op) = Some op \<Longrightarrow> \<exists>j' out. f op j = Inr (j', out)
      \<and> (\<forall>i. row j' i = (if i = po_operation_id op then Some (turn op) else row j i))"
    and "distinct (map po_operation_id ops)" "\<forall>op \<in> set ops. row j (po_operation_id op) = Some op"
  shows "\<exists>j' outs. reconcile_loop f ops j = Inr (j', outs) \<and> (\<forall>i. row j' i =
      (case row j i of None \<Rightarrow> None | Some op \<Rightarrow> Some (if op \<in> set ops \<and> po_operation_id op = i then turn op else op)))"
  using assms
proof (induction ops arbitrary: j)
  case Nil
  then show ?case by (auto split: option.splits)
next
  case (Cons op ops)
  obtain j1 out where f: "f op j = Inr (j1, out)"
    and j1: "\<And>i. row j1 i = (if i = po_operation_id op then Some (turn op) else row j i)"
    using Cons.prems(1) [of op j] Cons.prems(3) by auto
  have other: "po_operation_id x \<noteq> po_operation_id op" if "x \<in> set ops" for x using that Cons.prems(2) by simp (metis imageI)
  then have "\<forall>x \<in> set ops. row j1 (po_operation_id x) = Some x" using Cons.prems(3) by (simp add: j1)
  with Cons.IH [of j1] Cons.prems(1,2) obtain j' outs where loop: "reconcile_loop f ops j1 = Inr (j', outs)"
    and j': "\<And>i. row j' i = (case row j1 i of None \<Rightarrow> None | Some y \<Rightarrow> Some (if y \<in> set ops \<and> po_operation_id y = i then turn y else y))"
    by auto
  have "row j' i = (case row j i of None \<Rightarrow> None
      | Some y \<Rightarrow> Some (if y \<in> set (op # ops) \<and> po_operation_id y = i then turn y else y))" for i
    using Cons.prems(3) other unfolding j' j1 by (auto split: option.splits)
  with f loop show ?case by auto
qed

lemma rows_ids:
  assumes "dict_keys_ok (jn_operations j)" "\<forall>(i, op) \<in> set (jn_operations j). i = po_operation_id op"
  shows "row j i = Some op \<longleftrightarrow> op \<in> set (map snd (jn_operations j)) \<and> i = po_operation_id op"
    "distinct (map po_operation_id (list_operations kind states j))"
proof -
  show "row j i = Some op \<longleftrightarrow> op \<in> set (map snd (jn_operations j)) \<and> i = po_operation_id op"
    using assms by (force simp: map_of_eq_Some_iff)
  have ids: "map po_operation_id (map snd (jn_operations j)) = map fst (jn_operations j)" using assms(2) by auto
  have "distinct (map po_operation_id (map snd (jn_operations j)))" unfolding ids by (rule assms(1))
  from distinct_map_filter [OF this] show "distinct (map po_operation_id (list_operations kind states j))"
    unfolding list_operations_def distinct_map by (simp only: distinct_sort set_sort)
qed

lemma turn_states:
  assumes "po_operation_id op \<noteq> []" "po_deployment_id op \<noteq> []" "po_state op \<in> {Uncertain, Accepted}"
  shows "po_kind op = CreateOp \<Longrightarrow> po_state (create_turn instances now op) = recovered_state instances op"
    "po_kind op = StopOp \<Longrightarrow> po_state (stop_turn instances now op) = recovered_state instances op"
  using assms labelled_length(2) [OF assms(1,2)]
  by (auto simp: create_turn_def stop_turn_def recovered_state_def Let_def)

definition keyed_rows :: "Journal \<Rightarrow> bool" where
  "keyed_rows j \<longleftrightarrow> dict_keys_ok (jn_operations j)
     \<and> (\<forall>(i, op) \<in> set (jn_operations j). i = po_operation_id op \<and> i \<noteq> [] \<and> po_deployment_id op \<noteq> [])"

lemma keyed_rowsD:
  assumes "keyed_rows j"
  shows "row j i = Some op \<longleftrightarrow> op \<in> set (map snd (jn_operations j)) \<and> i = po_operation_id op"
    "distinct (map po_operation_id (list_operations kind states j))"
    "row j i = Some op \<Longrightarrow> i = po_operation_id op \<and> po_operation_id op \<noteq> [] \<and> po_deployment_id op \<noteq> []"
proof -
  have k: "dict_keys_ok (jn_operations j)" "\<forall>(i, op) \<in> set (jn_operations j). i = po_operation_id op"
    using assms by (auto simp: keyed_rows_def)
  show "row j i = Some op \<longleftrightarrow> op \<in> set (map snd (jn_operations j)) \<and> i = po_operation_id op"
    "distinct (map po_operation_id (list_operations kind states j))" by (rule rows_ids [OF k])+
  show "row j i = Some op \<Longrightarrow> i = po_operation_id op \<and> po_operation_id op \<noteq> [] \<and> po_deployment_id op \<noteq> []"
    using assms by (auto simp: keyed_rows_def dest!: map_of_SomeD)
qed

lemma in_list_operations:
  assumes "keyed_rows j" "states \<noteq> []"
  shows "op \<in> set (list_operations (Some kind) states j) \<longleftrightarrow>
    row j (po_operation_id op) = Some op \<and> po_kind op = kind \<and> po_state op \<in> set states"
  using assms(2) by (auto simp: list_operations_def keyed_rowsD(1) [OF assms(1)])

definition recovered_row :: "ProviderInstance list \<Rightarrow> (string \<Rightarrow> int) \<Rightarrow> ProviderOperation \<Rightarrow> ProviderOperation" where
  "recovered_row instances now op =
     (if po_state op \<notin> {Uncertain, Accepted} then op
      else case po_kind op of CreateOp \<Rightarrow> create_turn instances now op | StopOp \<Rightarrow> stop_turn instances now op)"

lemma turn_fields [simp]:
  "po_operation_id (create_turn instances now op) = po_operation_id op" "po_kind (create_turn instances now op) = po_kind op"
  "po_deployment_id (create_turn instances now op) = po_deployment_id op"
  "po_intent_key (create_turn instances now op) = po_intent_key op" "po_request (create_turn instances now op) = po_request op"
  "po_operation_id (stop_turn instances now op) = po_operation_id op" "po_kind (stop_turn instances now op) = po_kind op"
  "po_deployment_id (stop_turn instances now op) = po_deployment_id op"
  "po_intent_key (stop_turn instances now op) = po_intent_key op" "po_request (stop_turn instances now op) = po_request op"
  by (simp_all add: create_turn_def stop_turn_def Let_def)

lemma list_from_rows:
  assumes "row j' = (\<lambda>i. map_option g (row j i))" "keyed_rows j" "dict_keys_ok (jn_operations j')"
    and "\<And>op. po_operation_id (g op) = po_operation_id op" "\<And>op. po_deployment_id (g op) = po_deployment_id op"
  shows "keyed_rows j'"
proof -
  have "i = po_operation_id op \<and> i \<noteq> [] \<and> po_deployment_id op \<noteq> []" if "(i, op) \<in> set (jn_operations j')" for i op
  proof -
    have "row j' i = Some op" using that assms(3) by simp
    then obtain x where "row j i = Some x" "op = g x" unfolding assms(1) by auto
    with keyed_rowsD(3) [OF assms(2)] assms(4,5) show ?thesis by fastforce
  qed
  then show ?thesis using assms(3) by (auto simp: keyed_rows_def)
qed

lemma reconcile_keys:
  "reconcile_create instances now op j = Inr (j', out) \<Longrightarrow> dict_keys_ok (jn_operations j) \<Longrightarrow> dict_keys_ok (jn_operations j')"
  using reconcile_create_transition [of instances now op j j' out] transition_rows(1) by (metis dict_keys_ok_update)

lemma reconcile_rows:
  assumes keyed: "keyed_rows j"
  shows "\<exists>j' outs. reconcile_provider_inventory instances now j = Inr (j', outs)
    \<and> row j' = (\<lambda>i. map_option (recovered_row instances now) (row j i))"
proof -
  let ?cs = "list_operations (Some CreateOp) [Uncertain, Accepted] j"
  let ?g = "\<lambda>op. if po_kind op = CreateOp \<and> po_state op \<in> {Uncertain, Accepted} then create_turn instances now op else op"
  have "\<exists>j' out. reconcile_create instances now op j0 = Inr (j', out)
      \<and> (\<forall>i. row j' i = (if i = po_operation_id op then Some (create_turn instances now op) else row j0 i))"
    if "op \<in> set ?cs" "row j0 (po_operation_id op) = Some op" for op j0
    using that by (intro reconcile_create_turn) (auto simp: in_list_operations [OF keyed])
  then obtain j1 o1 where l1: "reconcile_loop (reconcile_create instances now) ?cs j = Inr (j1, o1)" and j1: "\<And>i. row j1 i =
      (case row j i of None \<Rightarrow> None | Some op \<Rightarrow> Some (if op \<in> set ?cs \<and> po_operation_id op = i then create_turn instances now op else op))"
    using reconcile_loop_rows [of ?cs "reconcile_create instances now" "create_turn instances now" j, OF _ keyed_rowsD(2) [OF keyed]]
    by (auto simp: in_list_operations [OF keyed])
  have rows1: "row j1 = (\<lambda>i. map_option ?g (row j i))"
    using keyed_rowsD(3) [OF keyed] by (force simp: j1 in_list_operations [OF keyed] split: option.splits)
  have "dict_keys_ok (jn_operations j1)"
    by (rule reconcile_loop_keeps [where P = "\<lambda>j. dict_keys_ok (jn_operations j)", OF _ _ l1])
      (use keyed reconcile_keys in \<open>auto simp: keyed_rows_def\<close>)
  with rows1 keyed have keyed1: "keyed_rows j1" by (rule list_from_rows) simp_all
  let ?ss = "list_operations (Some StopOp) [Uncertain, Accepted] j1"
  have "\<exists>j' out. reconcile_stop instances now op j0 = Inr (j', out)
      \<and> (\<forall>i. row j' i = (if i = po_operation_id op then Some (stop_turn instances now op) else row j0 i))"
    if "op \<in> set ?ss" "row j0 (po_operation_id op) = Some op" for op j0
    using that by (intro reconcile_stop_turn) (auto simp: in_list_operations [OF keyed1])
  then obtain j2 o2 where l2: "reconcile_loop (reconcile_stop instances now) ?ss j1 = Inr (j2, o2)" and j2: "\<And>i. row j2 i =
      (case row j1 i of None \<Rightarrow> None | Some op \<Rightarrow> Some (if op \<in> set ?ss \<and> po_operation_id op = i then stop_turn instances now op else op))"
    using reconcile_loop_rows [of ?ss "reconcile_stop instances now" "stop_turn instances now" j1, OF _ keyed_rowsD(2) [OF keyed1]]
    by (auto simp: in_list_operations [OF keyed1])
  have "row j2 i = map_option (recovered_row instances now) (row j i)" for i
  proof (cases "row j i")
    case None
    then show ?thesis by (simp add: j2 rows1)
  next
    case (Some op)
    with keyed_rowsD(3) [OF keyed Some] show ?thesis
      by (cases "po_kind op") (auto simp: j2 rows1 recovered_row_def in_list_operations [OF keyed1])
  qed
  with l1 l2 show ?thesis by (auto simp: reconcile_provider_inventory_def)
qed

text \<open>C37. The inventory pass never fails and moves every operation exactly to the state its evidence
  supports. An uncertain create is settled when one job of the inventory carries its labels, and then
  has that job as its target; with none or several it stays uncertain. An accepted create is settled
  once all its targets are seen. An uncertain stop is settled when all its targets have ended and is
  otherwise prepared again; an accepted stop is settled when every target has ended or is gone. No
  row is added or lost, and key and request of a row do not change.\<close>

theorem inventory_recovery_exact:
  assumes "keyed_rows j"
  shows "\<exists>j' outs. reconcile_provider_inventory instances now j = Inr (j', outs)
    \<and> (\<forall>i. case dict_get (jn_operations j) i of
         None \<Rightarrow> dict_get (jn_operations j') i = None
       | Some op \<Rightarrow> (\<exists>op'. dict_get (jn_operations j') i = Some op' \<and> po_state op' = recovered_state instances op
           \<and> po_intent_key op' = po_intent_key op \<and> po_request op' = po_request op
           \<and> (po_kind op = CreateOp \<and> po_state op = Uncertain \<and> po_state op' = Settled
                \<longrightarrow> set (po_target_job_ids op') = labelled_jobs instances op)))"
proof -
  obtain j' outs where run: "reconcile_provider_inventory instances now j = Inr (j', outs)"
    and rows: "row j' = (\<lambda>i. map_option (recovered_row instances now) (row j i))"
    using reconcile_rows [OF assms] by blast
  have "po_state (recovered_row instances now op) = recovered_state instances op
      \<and> po_intent_key (recovered_row instances now op) = po_intent_key op \<and> po_request (recovered_row instances now op) = po_request op
      \<and> (po_kind op = CreateOp \<and> po_state op = Uncertain \<and> po_state (recovered_row instances now op) = Settled
           \<longrightarrow> set (po_target_job_ids (recovered_row instances now op)) = labelled_jobs instances op)"
    if r: "row j i = Some op" for i op
  proof -
    have ids: "po_operation_id op \<noteq> []" "po_deployment_id op \<noteq> []" using keyed_rowsD(3) [OF assms r] by simp_all
    have targets: "set (po_target_job_ids (create_turn instances now op)) = labelled_jobs instances op"
      if "po_state op = Uncertain" "po_state (create_turn instances now op) = Settled"
      using that labelled_length(1) [OF ids, of instances]
      by (simp add: create_turn_def moved_def job_ids_of_again Let_def split: if_splits)
    have "po_state (recovered_row instances now op) = recovered_state instances op"
      using turn_states [OF ids, of instances now]
      by (cases "po_state op"; cases "po_kind op") (simp_all add: recovered_row_def recovered_state_def)
    then show ?thesis using targets by (cases "po_kind op") (auto simp: recovered_row_def)
  qed
  with run rows show ?thesis by (auto split: option.splits)
qed

text \<open>A journal with one stop of a drained worker.\<close>

definition sample_stop :: "OpState \<Rightarrow> ProviderOperation" where
  "sample_stop st = \<lparr>po_operation_id = ''p'', po_intent_key = ''k'', po_kind = StopOp, po_deployment_id = ''d'', po_role = Sandbox_Role,
     po_state = st, po_request = [(''drainToken'', JStr ''t''), (''drainReady'', JBool True)], po_response = [],
     po_target_job_ids = [''job''], po_created_at = 0, po_updated_at = 0, po_last_error = []\<rparr>"

definition sample_drain :: DrainIntent where
  "sample_drain = \<lparr>di_deployment_id = ''d'', di_job_id = ''job'', di_role = ''sandbox'', di_token = ''t'', di_state = DrainActive,
     di_created_at = 0, di_updated_at = 0\<rparr>"

definition sample_journal :: "OpState \<Rightarrow> Journal" where
  "sample_journal st = \<lparr>jn_operations = [(''p'', sample_stop st)], jn_slots = [], jn_drains = [((''d'', ''job''), sample_drain)], jn_attempts = []\<rparr>"

lemma sample_keyed: "keyed_rows (sample_journal st)"
  by (simp add: keyed_rows_def sample_journal_def sample_stop_def)

theorem inventory_recovery_exact_witness:
  "\<exists>j' outs op'. reconcile_provider_inventory [] (\<lambda>_. 5) (sample_journal Uncertain) = Inr (j', outs)
     \<and> dict_get (jn_operations j') ''p'' = Some op' \<and> po_state op' = Prepared"
proof -
  have "recovered_state [] (sample_stop Uncertain) = Prepared"
    by (simp add: recovered_state_def sample_stop_def ended_def)
  moreover have "dict_get (jn_operations (sample_journal Uncertain)) ''p'' = Some (sample_stop Uncertain)"
    by (simp add: sample_journal_def)
  moreover obtain j' outs where "reconcile_provider_inventory [] (\<lambda>_. 5) (sample_journal Uncertain) = Inr (j', outs)"
    and "case dict_get (jn_operations (sample_journal Uncertain)) ''p'' of None \<Rightarrow> True
      | Some op \<Rightarrow> \<exists>op'. dict_get (jn_operations j') ''p'' = Some op' \<and> po_state op' = recovered_state [] op"
    using inventory_recovery_exact [OF sample_keyed, of "[]" "\<lambda>_. 5" Uncertain] by (fastforce split: option.splits)
  ultimately show ?thesis by auto
qed

end
