(* ===== verification/Provider_Guarantees.thy ===== *)
theory Provider_Guarantees
  imports Journal_Guarantees
begin

text \<open>
  What one cycle of the autoscaler may do to the provider: a batch hands exactly the prepared and
  authorised operations to it, each once, and the replay of pending deletes starves none.
\<close>

section \<open>A batch of provider calls\<close>

lemma mark_outcome_row:
  assumes "row j i = Some op" "po_state op = Uncertain"
  shows "\<exists>j' op'. mark_outcome i result now j = Inr (j', op') \<and> po_state op' \<in> {Uncertain, Accepted, Failed}
    \<and> (\<forall>k. row j' k = (if k = i then Some op' else row j k)) \<and> jn_drains j' = jn_drains j"
  using assms by (auto simp: mark_outcome_def mark_defs transition_Some [OF assms(1)] update_conv'
      split: sum.splits ProviderMutationResult.splits)

lemma apply_one_row:
  assumes "row (ar_journal r) (po_operation_id op) = Some op" "po_state op = Prepared" "ar_error r = None"
  shows "\<exists>op' t. ar_error (apply_one ctx op r) = None
    \<and> ar_calls (apply_one ctx op r) = ar_calls r @ [moved op Uncertain None None None t]
    \<and> (\<forall>k. row (ar_journal (apply_one ctx op r)) k = (if k = po_operation_id op then Some op' else row (ar_journal r) k))
    \<and> po_state op' \<in> {Uncertain, Accepted, Failed} \<and> jn_drains (ar_journal (apply_one ctx op r)) = jn_drains (ar_journal r)"
proof -
  define t where "t = ac_clock ctx (2 * length (ar_calls r))"
  define sub where "sub = moved op Uncertain None None None t"
  obtain j1 where b: "begin_provider_call (po_operation_id op) t (ar_journal r) = Inr (j1, sub)"
    and j1: "\<And>k. row j1 k = (if k = po_operation_id op then Some sub else row (ar_journal r) k)" "jn_drains j1 = jn_drains (ar_journal r)"
    using assms(2) by (auto simp: begin_provider_call_def transition_Some [OF assms(1)] sub_def update_conv')
  have sub: "po_operation_id sub = po_operation_id op" "po_state sub = Uncertain" by (simp_all add: sub_def)
  define result where "result = ac_answer ctx (length (ar_calls r)) sub"
  define t' where "t' = ac_clock ctx (2 * length (ar_calls r) + 1)"
  obtain j2 op' where m: "mark_outcome (po_operation_id sub) result t' j1 = Inr (j2, op')" "po_state op' \<in> {Uncertain, Accepted, Failed}"
    "\<And>k. row j2 k = (if k = po_operation_id sub then Some op' else row j1 k)" "jn_drains j2 = jn_drains j1"
    using mark_outcome_row [of j1 "po_operation_id sub" sub result t'] j1(1) sub by auto
  obtain st where st: "operation_outcome_state (po_state op') = Some st" using m(2) by auto
  have "apply_one ctx op r = r\<lparr>ar_journal := j2, ar_calls := ar_calls r @ [sub],
      ar_results := ar_results r @ [outcome_of op' (ac_source ctx) st (po_target_job_ids op') (po_last_error op')]\<rparr>"
    unfolding apply_one_def t_def [symmetric] b sum.case prod.case Let_def result_def [symmetric] t'_def [symmetric] m(1)
    by (simp add: st)
  with assms(3) m(2-4) j1 sub show ?thesis
    by (intro exI [of _ op'] exI [of _ t]) (auto simp: sub_def)
qed

lemma may_apply_drains: "jn_drains j = jn_drains j' \<Longrightarrow> may_apply ctx op j = may_apply ctx op j'"
  by (simp add: may_apply_def stop_operation_has_safety_proof_def get_drain_intent_def)

lemma apply_loop_rows:
  assumes "ar_error r = None" "distinct (map po_operation_id ops)"
    and "\<forall>op \<in> set ops. row (ar_journal r) (po_operation_id op) = Some op \<and> po_state op = Prepared"
    and "r' = apply_loop ctx ops r"
  shows "ar_error r' = None \<and> jn_drains (ar_journal r') = jn_drains (ar_journal r)
    \<and> (\<exists>calls. ar_calls r' = ar_calls r @ calls
        \<and> map po_operation_id calls = map po_operation_id (filter (\<lambda>op. may_apply ctx op (ar_journal r)) ops)
        \<and> (\<forall>c \<in> set calls. \<exists>op \<in> set ops. \<exists>t. may_apply ctx op (ar_journal r) \<and> c = moved op Uncertain None None None t)
        \<and> (\<forall>i. i \<in> po_operation_id ` set calls \<longrightarrow> (\<exists>op'. row (ar_journal r') i = Some op' \<and> po_state op' \<in> {Uncertain, Accepted, Failed}))
        \<and> (\<forall>i. i \<notin> po_operation_id ` set calls \<longrightarrow> row (ar_journal r') i = row (ar_journal r) i))"
  using assms
proof (induction ops arbitrary: r)
  case (Cons op ops)
  have other: "po_operation_id x \<noteq> po_operation_id op" if "x \<in> set ops" for x using that Cons.prems(2) by simp (metis imageI)
  show ?case
  proof (cases "may_apply ctx op (ar_journal r)")
    case False
    with Cons.IH [of r] Cons.prems show ?thesis by fastforce
  next
    case True
    obtain op' t where one: "ar_error (apply_one ctx op r) = None"
      "ar_calls (apply_one ctx op r) = ar_calls r @ [moved op Uncertain None None None t]"
      "\<And>k. row (ar_journal (apply_one ctx op r)) k = (if k = po_operation_id op then Some op' else row (ar_journal r) k)"
      "po_state op' \<in> {Uncertain, Accepted, Failed}" "jn_drains (ar_journal (apply_one ctx op r)) = jn_drains (ar_journal r)"
      using apply_one_row [of r op ctx] Cons.prems(1,3) by auto
    have drains: "may_apply ctx x (ar_journal (apply_one ctx op r)) = may_apply ctx x (ar_journal r)" for x
      using one(5) by (rule may_apply_drains)
    have "r' = apply_loop ctx ops (apply_one ctx op r)" using Cons.prems(1,4) True by simp
    from Cons.IH [OF one(1) _ _ this] Cons.prems(2,3) other obtain calls where ih: "ar_error r' = None"
      "jn_drains (ar_journal r') = jn_drains (ar_journal r)" "ar_calls r' = ar_calls (apply_one ctx op r) @ calls"
      "map po_operation_id calls = map po_operation_id (filter (\<lambda>x. may_apply ctx x (ar_journal r)) ops)"
      "\<forall>c \<in> set calls. \<exists>x \<in> set ops. \<exists>t. may_apply ctx x (ar_journal r) \<and> c = moved x Uncertain None None None t"
      "\<forall>i. i \<in> po_operation_id ` set calls \<longrightarrow> (\<exists>y. row (ar_journal r') i = Some y \<and> po_state y \<in> {Uncertain, Accepted, Failed})"
      "\<forall>i. i \<notin> po_operation_id ` set calls \<longrightarrow> row (ar_journal r') i = row (ar_journal (apply_one ctx op r)) i"
      unfolding drains one(3,5) by auto
    have "\<exists>y. row (ar_journal r') (po_operation_id op) = Some y \<and> po_state y \<in> {Uncertain, Accepted, Failed}"
      using ih(6,7) one(3,4) by (cases "po_operation_id op \<in> po_operation_id ` set calls") simp_all
    then show ?thesis
      using ih one(2,3) True
      by (intro conjI exI [of _ "moved op Uncertain None None None t # calls"]) auto
  qed
qed auto

lemma prepared_listed:
  assumes "keyed_rows j"
  shows "op \<in> set (list_operations None [Prepared] j) \<longleftrightarrow> row j (po_operation_id op) = Some op \<and> po_state op = Prepared"
  by (auto simp: list_operations_def keyed_rowsD(1) [OF assms])

lemma apply_prepared_rows:
  assumes "keyed_rows j" "r = apply_prepared_provider_operations ctx j"
  obtains ops where "\<And>op. op \<in> set ops \<longleftrightarrow> row j (po_operation_id op) = Some op \<and> po_state op = Prepared"
    "distinct (map po_operation_id ops)"
    "ar_error r = None" "map po_operation_id (ar_calls r) = map po_operation_id (filter (\<lambda>op. may_apply ctx op j) ops)"
    "\<forall>c \<in> set (ar_calls r). \<exists>op \<in> set ops. \<exists>t. may_apply ctx op j \<and> c = moved op Uncertain None None None t"
    "\<forall>i. i \<in> po_operation_id ` set (ar_calls r) \<longrightarrow>
       (\<exists>op'. row (ar_journal r) i = Some op' \<and> po_state op' \<in> {Uncertain, Accepted, Failed})"
    "\<forall>i. i \<notin> po_operation_id ` set (ar_calls r) \<longrightarrow> row (ar_journal r) i = row j i"
proof -
  define ops where "ops = sort_key (\<lambda>op. if stop_operation_is_destructive_node_loss op then 0 else 1 :: nat) (list_operations None [Prepared] j)"
  have ops: "op \<in> set ops \<longleftrightarrow> row j (po_operation_id op) = Some op \<and> po_state op = Prepared" for op
    unfolding ops_def using prepared_listed [OF assms(1)] by simp
  have dist: "distinct (map po_operation_id ops)"
    using keyed_rowsD(2) [OF assms(1), of None "[Prepared]"] unfolding ops_def distinct_map by simp
  define r0 where "r0 = \<lparr>ar_journal = j, ar_results = [], ar_calls = [], ar_error = None\<rparr>"
  have r: "r = apply_loop ctx ops r0" using assms(2) by (simp add: apply_prepared_provider_operations_def ops_def r0_def)
  have start: "ar_error r0 = None" "ar_journal r0 = j" "ar_calls r0 = []" by (simp_all add: r0_def)
  have run: "ar_error r = None" "map po_operation_id (ar_calls r) = map po_operation_id (filter (\<lambda>op. may_apply ctx op j) ops)"
    "\<forall>c \<in> set (ar_calls r). \<exists>op \<in> set ops. \<exists>t. may_apply ctx op j \<and> c = moved op Uncertain None None None t"
    "\<forall>i. i \<in> po_operation_id ` set (ar_calls r) \<longrightarrow>
       (\<exists>op'. row (ar_journal r) i = Some op' \<and> po_state op' \<in> {Uncertain, Accepted, Failed})"
    "\<forall>i. i \<notin> po_operation_id ` set (ar_calls r) \<longrightarrow> row (ar_journal r) i = row j i"
    using apply_loop_rows [OF start(1) dist _ r] ops unfolding start by auto
  show thesis by (rule that [OF ops dist run])
qed

lemma stop_needs_drain:
  assumes "may_apply ctx op j" "po_kind op = StopOp" "dict_get (po_request op) ''destructiveNodeLoss'' \<noteq> Some (JBool True)"
    "dict_get (po_request op) ''unreachableStaleReady'' \<noteq> Some (JBool True)"
  shows "\<exists>job d. po_target_job_ids op = [job] \<and> get_drain_intent (po_deployment_id op) job j = Some d
    \<and> di_state d = DrainActive \<and> di_role d = role_str (po_role op)"
  using assms by (cases "po_target_job_ids op")
    (auto simp: may_apply_def stop_operation_has_safety_proof_def stop_operation_is_destructive_node_loss_def Let_def
      split: if_splits option.splits)

text \<open>C4. A batch hands to the provider exactly the prepared operations it is allowed to, each once, and
  always completes. An operation is called if and only if it was prepared, its kind is allowed, and, for a
  stop, it is listed and has a safety proof in the journal; a stop that is no proven loss and no
  unreachable empty worker needs the active drain intent of its only target. What is sent is what was
  journalled, a called operation is no longer prepared, and every other row stays as it was.\<close>

theorem batch_calls_authorised:
  assumes "keyed_rows j" "r = apply_prepared_provider_operations ctx j"
  shows "ar_error r = None \<and> distinct (map po_operation_id (ar_calls r))
    \<and> po_operation_id ` set (ar_calls r) = {po_operation_id op | op. op \<in> snd ` set (jn_operations j) \<and> po_state op = Prepared \<and> may_apply ctx op j}
    \<and> (\<forall>c \<in> set (ar_calls r). \<exists>op. dict_get (jn_operations j) (po_operation_id c) = Some op \<and> po_kind c = po_kind op
         \<and> po_request c = po_request op \<and> po_target_job_ids c = po_target_job_ids op
         \<and> (po_kind c = StopOp \<and> dict_get (po_request op) ''destructiveNodeLoss'' \<noteq> Some (JBool True)
              \<and> dict_get (po_request op) ''unreachableStaleReady'' \<noteq> Some (JBool True)
            \<longrightarrow> (\<exists>job d. po_target_job_ids c = [job] \<and> get_drain_intent (po_deployment_id op) job j = Some d
                   \<and> di_state d = DrainActive \<and> di_role d = role_str (po_role op)))
         \<and> (\<exists>op'. dict_get (jn_operations (ar_journal r)) (po_operation_id c) = Some op' \<and> po_state op' \<in> {Uncertain, Accepted, Failed}))
    \<and> (\<forall>i. i \<notin> po_operation_id ` set (ar_calls r) \<longrightarrow> dict_get (jn_operations (ar_journal r)) i = dict_get (jn_operations j) i)"
proof -
  obtain ops where ops: "\<And>op. op \<in> set ops \<longleftrightarrow> row j (po_operation_id op) = Some op \<and> po_state op = Prepared"
    and dist: "distinct (map po_operation_id ops)"
    and run: "ar_error r = None" "map po_operation_id (ar_calls r) = map po_operation_id (filter (\<lambda>op. may_apply ctx op j) ops)"
    "\<forall>c \<in> set (ar_calls r). \<exists>op \<in> set ops. \<exists>t. may_apply ctx op j \<and> c = moved op Uncertain None None None t"
    "\<forall>i. i \<in> po_operation_id ` set (ar_calls r) \<longrightarrow>
       (\<exists>op'. row (ar_journal r) i = Some op' \<and> po_state op' \<in> {Uncertain, Accepted, Failed})"
    "\<forall>i. i \<notin> po_operation_id ` set (ar_calls r) \<longrightarrow> row (ar_journal r) i = row j i"
    by (rule apply_prepared_rows [OF assms]) (rule that)
  have ids: "distinct (map po_operation_id (ar_calls r))" unfolding run(2) using dist by (rule distinct_map_filter)
  have "po_operation_id ` set (ar_calls r) = set (map po_operation_id (filter (\<lambda>op. may_apply ctx op j) ops))"
    unfolding run(2) [symmetric] by simp
  then have called: "po_operation_id ` set (ar_calls r) =
      {po_operation_id op | op. op \<in> snd ` set (jn_operations j) \<and> po_state op = Prepared \<and> may_apply ctx op j}"
    using ops keyed_rowsD(1) [OF assms(1)] by auto
  have sent: "\<exists>op. row j (po_operation_id c) = Some op \<and> po_kind c = po_kind op \<and> po_request c = po_request op
      \<and> po_target_job_ids c = po_target_job_ids op
      \<and> (po_kind c = StopOp \<and> dict_get (po_request op) ''destructiveNodeLoss'' \<noteq> Some (JBool True)
           \<and> dict_get (po_request op) ''unreachableStaleReady'' \<noteq> Some (JBool True)
         \<longrightarrow> (\<exists>job d. po_target_job_ids c = [job] \<and> get_drain_intent (po_deployment_id op) job j = Some d
                \<and> di_state d = DrainActive \<and> di_role d = role_str (po_role op)))
      \<and> (\<exists>op'. row (ar_journal r) (po_operation_id c) = Some op' \<and> po_state op' \<in> {Uncertain, Accepted, Failed})"
    if c: "c \<in> set (ar_calls r)" for c
  proof -
    obtain op t where o: "op \<in> set ops" "may_apply ctx op j" "c = moved op Uncertain None None None t" using run(3) c by blast
    have "\<exists>op'. row (ar_journal r) (po_operation_id c) = Some op' \<and> po_state op' \<in> {Uncertain, Accepted, Failed}"
      using run(4) c by blast
    moreover have "row j (po_operation_id c) = Some op" using o ops by simp
    moreover have "po_target_job_ids c = po_target_job_ids op" using o(3) by (simp add: moved_def)
    ultimately show ?thesis using o(3) stop_needs_drain [OF o(2)] by auto
  qed
  show ?thesis
    using run(1) ids called sent run(5) by (intro conjI) blast+
qed

definition sample_context :: ApplyContext where
  "sample_context = \<lparr>ac_repr = (\<lambda>_. []), ac_provider = \<lparr>pv_kind = ''k'', pv_losses = []\<rparr>, ac_answer = (\<lambda>_ _. Inl ''down''),
     ac_clock = int, ac_source = Planned, ac_kinds = [CreateOp, StopOp], ac_stop_ids = [''p'']\<rparr>"

theorem batch_calls_authorised_witness:
  "po_operation_id ` set (ar_calls (apply_prepared_provider_operations sample_context (sample_journal Prepared))) = {''p''}"
proof -
  have "may_apply sample_context (sample_stop Prepared) (sample_journal Prepared)" by code_simp
  moreover have "snd ` set (jn_operations (sample_journal Prepared)) = {sample_stop Prepared}" by (simp add: sample_journal_def)
  moreover have "po_state (sample_stop Prepared) = Prepared" "po_operation_id (sample_stop Prepared) = ''p''" by (simp_all add: sample_stop_def)
  ultimately show ?thesis using batch_calls_authorised [OF sample_keyed refl, of sample_context Prepared] by auto
qed

section \<open>Rotation of pending deletes\<close>

text \<open>The selections of consecutive cycles. Every cycle has its own pending intents, recorded
  intents and clock reading: intents finish and new ones arrive in between.\<close>

type_synonym round = "delete_key list \<times> delete_key set \<times> int"

fun rotate_rounds :: "string \<Rightarrow> int \<Rightarrow> round list \<Rightarrow> Journal \<Rightarrow> delete_key list list" where
  "rotate_rounds d budget [] j = []"
| "rotate_rounds d budget ((pending, recorded, now) # rounds) j =
     (case rotate_pending_deletes d pending recorded budget now j of
        Inl e \<Rightarrow> [] | Inr (j', selected) \<Rightarrow> selected # rotate_rounds d budget rounds j')"

abbreviation pending_in :: "round \<Rightarrow> delete_key set" where
  "pending_in r \<equiv> set (fst r)"

abbreviation recorded_in :: "round \<Rightarrow> delete_key set" where
  "recorded_in r \<equiv> fst (snd r)"

lemma fold_update_new:
  assumes "distinct (map snd ps)" "fst ` set d \<inter> snd ` set ps = {}"
  shows "fold (\<lambda>(i, k) d. AList.update k i d) ps d = d @ map (\<lambda>(i, k). (k, i)) ps"
  using assms
proof (induction ps arbitrary: d)
  case (Cons p ps)
  obtain i k where p: "p = (i, k)" by (cases p)
  have "AList.update k i d = d @ [(k, i)]" using Cons.prems(2) p by (intro dict_update_new) auto
  with Cons p show ?case by auto
qed simp

lemma pending_order_distinct:
  assumes "distinct pending"
  shows "map fst (pending_order pending) = pending"
    "inj_on (\<lambda>k. the (dict_get (pending_order pending) k)) (set pending)"
proof -
  have o: "pending_order pending = map (\<lambda>(i, k). (k, i)) (List.enumerate 0 pending)"
    unfolding pending_order_def using assms by (subst fold_update_new) (auto simp: distinct_map)
  have fst: "map fst (pending_order pending) = map snd (List.enumerate 0 pending)" unfolding o by (simp add: comp_def split_beta)
  then show m: "map fst (pending_order pending) = pending" by simp
  have "\<exists>i < length pending. pending ! i = k \<and> dict_get (pending_order pending) k = Some i" if k: "k \<in> set pending" for k
  proof -
    obtain i where i: "i < length pending" "pending ! i = k" using k by (auto simp: in_set_conv_nth)
    then have "(k, i) \<in> set (pending_order pending)" unfolding o by (force simp: in_set_enumerate_eq)
    moreover have "distinct (map fst (pending_order pending))" unfolding m by (rule assms)
    ultimately show ?thesis using i by auto
  qed
  then show "inj_on (\<lambda>k. the (dict_get (pending_order pending) k)) (set pending)"
    by (intro inj_onI) (metis option.sel)
qed

lemma dict_get_fold_update:
  "dict_get (fold (\<lambda>k. AList.update (f k) v) ks m) x = (if x \<in> f ` set ks then Some v else dict_get m x)"
  by (induction ks arbitrary: m) (auto simp: update_conv')

lemma dict_get_filter_fst: "dict_get (filter (\<lambda>(k, v). P k) m) k = (if P k then dict_get m k else None)"
  by (rule dict_get_filter_key)

lemma rotate_attempts:
  assumes "rotate_pending_deletes d pending recorded budget now j = Inr (j', selected)" "k \<in> recorded"
  shows "attempted_at (str_strip d) j' k = (if k \<in> set selected then now else attempted_at (str_strip d) j k)"
proof -
  have kept: "filter (\<lambda>((d', k), t). d' = str_strip d \<longrightarrow> k \<in> recorded) m
      = filter (\<lambda>(p, t). fst p = str_strip d \<longrightarrow> snd p \<in> recorded) m" for m :: "((string \<times> delete_key) \<times> int) list"
    by (rule filter_cong) auto
  have "jn_attempts j' = fold (\<lambda>k. AList.update (str_strip d, k) now) selected
      (filter (\<lambda>((d', k), t). d' = str_strip d \<longrightarrow> k \<in> recorded) (jn_attempts j))"
    using assms(1) by (auto simp: rotate_pending_deletes_def need_def Let_def split: if_splits)
  then show ?thesis using assms(2) unfolding kept
    by (auto simp: attempted_at_def dict_get_fold_update dict_get_filter_fst)
qed

text \<open>The order of the queue.\<close>

definition queue_rank :: "string \<Rightarrow> delete_key list \<Rightarrow> Journal \<Rightarrow> delete_key \<Rightarrow> int \<times> nat" where
  "queue_rank d pending j k = (attempted_at (str_strip d) j k, the (dict_get (pending_order pending) k))"

lemma rotate_selected:
  assumes "str_strip d \<noteq> []" "distinct pending"
  shows "rotate_pending_deletes d pending recorded budget now j = Inr (j', selected) \<Longrightarrow>
      selected = take (nat (max 0 budget)) (sort_key (queue_rank d pending j) pending)"
    "\<exists>j'. rotate_pending_deletes d pending recorded budget now j =
      Inr (j', take (nat (max 0 budget)) (sort_key (queue_rank d pending j) pending))"
  using assms pending_order_distinct(1) [OF assms(2)]
  by (auto simp: rotate_pending_deletes_def need_def Let_def queue_rank_def [abs_def])

lemma sorted_take_below:
  fixes f :: "'a \<Rightarrow> 'b::linorder"
  assumes "inj_on f (set xs)" "distinct xs" "k \<in> set xs" "k \<notin> set (take n (sort_key f xs))"
  shows "\<forall>x \<in> set (take n (sort_key f xs)). f x < f k" "length (take n (sort_key f xs)) = n"
proof -
  let ?ys = "sort_key f xs"
  have "k \<in> set (drop n ?ys)" using assms(3,4) by (metis Un_iff append_take_drop_id set_append set_sort)
  then have "n < length ?ys" by (metis drop_eq_Nil empty_iff leI list.set(1))
  then show "length (take n ?ys) = n" by simp
  show "\<forall>x \<in> set (take n ?ys). f x < f k"
  proof
    fix x assume x: "x \<in> set (take n ?ys)"
    have "sorted (map f (take n ?ys @ drop n ?ys))" by (simp del: append_take_drop_id add: append_take_drop_id)
    then have "f x \<le> f k" using x \<open>k \<in> set (drop n ?ys)\<close> unfolding map_append sorted_append by auto
    moreover have "f x \<noteq> f k" using inj_onD [OF assms(1)] x assms(3,4) by (metis in_set_takeD set_sort)
    ultimately show "f x < f k" by simp
  qed
qed

lemma round_passes_over:
  assumes "str_strip d \<noteq> []" "distinct pending" "k \<in> set pending" "0 < budget"
    and round: "rotate_pending_deletes d pending recorded budget now j = Inr (j', selected)" "k \<notin> set selected"
  shows "set selected \<subseteq> set pending - {k}" "card (set selected) = nat budget"
    "\<forall>x \<in> set selected. attempted_at (str_strip d) j x \<le> attempted_at (str_strip d) j k"
proof -
  let ?f = "queue_rank d pending j"
  have sel: "selected = take (nat budget) (sort_key ?f pending)"
    using rotate_selected(1) [OF assms(1,2) round(1)] assms(4) by simp
  have inj: "inj_on ?f (set pending)"
    using pending_order_distinct(2) [OF assms(2)] by (auto simp: inj_on_def queue_rank_def)
  note below = sorted_take_below [OF inj assms(2,3) round(2) [unfolded sel]]
  show "set selected \<subseteq> set pending - {k}" using round(2) unfolding sel by (auto dest: in_set_takeD)
  show "card (set selected) = nat budget"
    using below(2) assms(2) unfolding sel by (subst distinct_card) simp_all
  show "\<forall>x \<in> set selected. attempted_at (str_strip d) j x \<le> attempted_at (str_strip d) j k"
    using below(1) unfolding sel [symmetric] by (auto simp: queue_rank_def less_prod_def)
qed

text \<open>The selections that pass over a key are disjoint: a selected intent is stamped with a time past
  the key's last attempt, and keeps the stamp as long as it is recorded. \<open>D\<close> holds the intents
  stamped so far.\<close>

lemma rounds_disjoint:
  assumes "str_strip d \<noteq> []" "0 < budget"
    and "\<forall>r \<in> set rounds. key \<in> pending_in r \<and> distinct (fst r) \<and> attempted_at (str_strip d) j key < snd (snd r)"
    and "\<forall>m < length rounds. \<forall>i l. i \<le> l \<longrightarrow> l \<le> m \<longrightarrow>
      pending_in (rounds ! i) \<inter> pending_in (rounds ! m) \<subseteq> recorded_in (rounds ! l)"
    and "\<forall>x \<in> D. \<forall>m < length rounds. x \<in> pending_in (rounds ! m) \<longrightarrow>
      attempted_at (str_strip d) j key < attempted_at (str_strip d) j x \<and> (\<forall>l \<le> m. x \<in> recorded_in (rounds ! l))"
    and "\<forall>selected \<in> set (rotate_rounds d budget rounds j). key \<notin> set selected"
  shows "nat budget * length rounds \<le> card (\<Union> (pending_in ` set rounds) - {key} - D)"
  using assms(3-)
proof (induction rounds arbitrary: j D)
  case (Cons r rounds)
  obtain pending recorded now where r: "r = (pending, recorded, now)" by (cases r)
  let ?at = "attempted_at (str_strip d)" and ?U = "\<Union> (pending_in ` set rounds)"
  have key: "key \<in> set pending" "distinct pending" "?at j key < now" using Cons.prems(1) r by auto
  obtain j' selected where sel: "rotate_pending_deletes d pending recorded budget now j = Inr (j', selected)"
    using rotate_selected(2) [OF assms(1) key(2)] by blast
  have unsel: "key \<notin> set selected" using Cons.prems(4) r sel by simp
  note over = round_passes_over [OF assms(1) key(2,1) assms(2) sel unsel]
  have kept: "set pending \<inter> pending_in (rounds ! m) \<subseteq> recorded \<inter> recorded_in (rounds ! l)" if "m < length rounds" "l \<le> m" for l m
    using Cons.prems(2) [rule_format, of "Suc m" 0 0] Cons.prems(2) [rule_format, of "Suc m" 0 "Suc l"] that r by auto
  have "key \<in> recorded" using Cons.prems(2) [rule_format, of 0 0 0] key(1) r by auto
  then have at_key: "?at j' key = ?at j key" using rotate_attempts [OF sel] unsel by simp
  have D: "x \<in> recorded" "?at j key < ?at j x" "\<forall>l \<le> m. x \<in> recorded_in (rounds ! l)"
    if "x \<in> D" "m < length rounds" "x \<in> pending_in (rounds ! m)" for x m
    using Cons.prems(3) [rule_format, OF that(1), of "Suc m"] that(2,3) r by (force, force, force)
  have "nat budget * length rounds \<le> card (?U - {key} - (D \<union> set selected))"
  proof (rule Cons.IH)
    show "\<forall>r \<in> set rounds. key \<in> pending_in r \<and> distinct (fst r) \<and> ?at j' key < snd (snd r)"
      using Cons.prems(1) at_key by simp
    show "\<forall>m < length rounds. \<forall>i l. i \<le> l \<longrightarrow> l \<le> m \<longrightarrow> pending_in (rounds ! i) \<inter> pending_in (rounds ! m) \<subseteq> recorded_in (rounds ! l)"
      using Cons.prems(2) by (metis Suc_le_mono Suc_less_eq length_Cons nth_Cons_Suc)
    show "\<forall>x \<in> D \<union> set selected. \<forall>m < length rounds. x \<in> pending_in (rounds ! m) \<longrightarrow>
        ?at j' key < ?at j' x \<and> (\<forall>l \<le> m. x \<in> recorded_in (rounds ! l))"
    proof (intro ballI allI impI)
      fix x m assume x: "x \<in> D \<union> set selected" "m < length rounds" "x \<in> pending_in (rounds ! m)"
      have "x \<in> recorded \<and> (\<forall>l \<le> m. x \<in> recorded_in (rounds ! l)) \<and> (x \<in> set selected \<or> ?at j key < ?at j x)"
        using x D [of x m] kept [OF x(2)] over(1) by blast
      then show "?at j' key < ?at j' x \<and> (\<forall>l \<le> m. x \<in> recorded_in (rounds ! l))"
        using rotate_attempts [OF sel, of x] at_key key(3) by auto
    qed
  qed (use Cons.prems(4) r sel in simp)
  moreover have new: "set selected \<inter> D = {}"
    using Cons.prems(3) [rule_format, of _ 0] over(1,3) r by fastforce
  have "card (set selected \<union> (?U - {key} - (D \<union> set selected))) \<le> card (\<Union> (pending_in ` set (r # rounds)) - {key} - D)"
    using over(1) new r by (intro card_mono) auto
  moreover have "card (set selected \<union> (?U - {key} - (D \<union> set selected))) = nat budget + card (?U - {key} - (D \<union> set selected))"
    using over(2) by (subst card_Un_disjoint) auto
  ultimately show ?case by simp
qed simp


text \<open>The order prefers a newcomer to every intent that was attempted before: as long as each cycle
  brings at least \<open>budget\<close> of them, the intent waits.\<close>

lemma newcomers_first:
  assumes "str_strip d \<noteq> []" "distinct pending" "k \<in> set pending" "0 < budget"
    and "rotate_pending_deletes d pending recorded budget now j = Inr (j', selected)"
    and "- 1 < attempted_at (str_strip d) j k"
    and "nat budget \<le> card {x \<in> set pending. attempted_at (str_strip d) j x = - 1}"
  shows "k \<notin> set selected"
proof
  let ?f = "queue_rank d pending j" and ?N = "{x \<in> set pending. attempted_at (str_strip d) j x = - 1}"
  have sel: "selected = take (nat budget) (sort_key ?f pending)"
    using rotate_selected(1) [OF assms(1,2,5)] assms(4) by simp
  assume k: "k \<in> set selected"
  have "?N \<subseteq> set selected - {k}"
  proof
    fix x assume x: "x \<in> ?N"
    then have "?f x < ?f k" using assms(6) by (simp add: queue_rank_def less_prod_def)
    moreover have "sorted (map ?f (take (nat budget) (sort_key ?f pending) @ drop (nat budget) (sort_key ?f pending)))"
      by (simp del: append_take_drop_id add: append_take_drop_id)
    ultimately have "x \<notin> set (drop (nat budget) (sort_key ?f pending))"
      using k unfolding sel map_append sorted_append by fastforce
    then have "x \<in> set selected" unfolding sel using x by (metis (mono_tags, lifting) Un_iff append_take_drop_id mem_Collect_eq set_append set_sort)
    then show "x \<in> set selected - {k}" using x assms(6) by auto
  qed
  then have "card ?N \<le> card (set selected - {k})" by (intro card_mono) auto
  also have "\<dots> < card (set selected)" using k by (intro psubset_card_mono) auto
  also have "\<dots> \<le> nat budget" using card_length [of selected] by (simp add: sel)
  finally show False using assms(7) by simp
qed

text \<open>Two old intents, one replay per cycle, and a newcomer in the second cycle.\<close>

definition sample_rounds :: "round list" where
  "sample_rounds =
     [([(''a'', ''1''), (''b'', ''2'')], {(''a'', ''1''), (''b'', ''2'')}, 10),
      ([(''a'', ''1''), (''b'', ''2''), (''c'', ''3'')], {(''a'', ''1''), (''b'', ''2''), (''c'', ''3'')}, 20),
      ([(''b'', ''2''), (''c'', ''3'')], {(''b'', ''2''), (''c'', ''3'')}, 30)]"

definition attempted_journal :: Journal where
  "attempted_journal = empty_journal\<lparr>jn_attempts := [((''dep'', (''b'', ''2'')), 5), ((''dep'', (''a'', ''1'')), 4)]\<rparr>"


end
