(* ===== verification/Autoscaler_Cycle.thy ===== *)
theory Autoscaler_Cycle
  imports Provider_Guarantees Scale_Decision
begin

text \<open>
  The way of the creates and stops of one cycle through \<open>run_reconcile_cycle\<close> (\<open>src/ucloud_sandboxes/cli.py\<close>): the inventory
  pass replays the prepared creates and blocks the pools with an open create, the decisions of the two pools become create
  intents, the intents and the stops are journalled, and a second batch of provider calls is made. What a stop's request and key hold is observation and an argument; so are the clock and the answers of the provider.
\<close>

section \<open>The cycle\<close>

definition cycle_create_intents ::
  "string \<Rightarrow> string \<Rightarrow> string \<Rightarrow> string \<Rightarrow> 'r ScaleDecision \<Rightarrow> 's ScaleDecision \<Rightarrow> string option \<Rightarrow> Role list \<Rightarrow> (Role \<times> InstanceCreateIntent) list" where
  "cycle_create_intents deployment_id version uuid builder_uuid decision builder_decision seed_prefix blocked_create_roles =
     (let sandbox_create_intents = build_create_intents deployment_id version uuid decision Sandbox_Role seed_prefix;
          builder_create_intents = build_create_intents deployment_id version builder_uuid builder_decision Builder_Role seed_prefix
      in map (Pair Sandbox_Role) (if Sandbox_Role \<in> set blocked_create_roles then [] else sandbox_create_intents)
         @ map (Pair Builder_Role) (if Builder_Role \<in> set blocked_create_roles then [] else builder_create_intents))"

text \<open>Journalling ends at the first error, which ends the cycle; what was journalled before stays.\<close>

fun journal_creates ::
  "(string \<Rightarrow> string) \<Rightarrow> (InstanceCreateIntent \<Rightarrow> (string, json) dict) \<Rightarrow> string \<Rightarrow> (nat \<Rightarrow> int) \<Rightarrow> (Role \<times> InstanceCreateIntent) list \<Rightarrow> Journal
   \<Rightarrow> Journal \<times> (plan_error + ProviderOperation list)" where
  "journal_creates uuid5 render deployment clock [] j = (j, Inr [])"
| "journal_creates uuid5 render deployment clock ((role, intent) # intents) j =
     (let n = length intents in
      case plan_create_operation uuid5 render deployment role intent (clock (2 * n)) (clock (2 * n + 1)) j of
        (j', Inl e) \<Rightarrow> (j', Inl e)
      | (j', Inr op) \<Rightarrow>
          (case journal_creates uuid5 render deployment clock intents j' of
             (j'', Inl e) \<Rightarrow> (j'', Inl e)
           | (j'', Inr ops) \<Rightarrow> (j'', Inr (op # ops))))"

record stop_plan =
  st_intent_key :: string
  st_role :: Role
  st_request :: "(string, json) dict"
  st_job_id :: string

fun journal_stops ::
  "(string \<Rightarrow> string) \<Rightarrow> string \<Rightarrow> (nat \<Rightarrow> int) \<Rightarrow> stop_plan list \<Rightarrow> Journal \<Rightarrow> Journal \<times> (journal_error + ProviderOperation list)" where
  "journal_stops uuid5 deployment clock [] j = (j, Inr [])"
| "journal_stops uuid5 deployment clock (s # plans) j =
     (case prepare_operation uuid5 (st_intent_key s) ''stop'' deployment (st_request s) (role_str (st_role s)) [st_job_id s]
             (clock (length plans)) j of
        Inl e \<Rightarrow> (j, Inl e)
      | Inr (j', op) \<Rightarrow>
          (case journal_stops uuid5 deployment clock plans j' of
             (j'', Inl e) \<Rightarrow> (j'', Inl e)
           | (j'', Inr ops) \<Rightarrow> (j'', Inr (op # ops))))"

text \<open>The journal the cycle leaves and the operations it hands to the provider, in order. A cycle that is not authorised does
  nothing, one without \<open>--execute\<close> journals nothing and allows no call. \<open>ctx\<close> holds the provider and its answers.\<close>

definition planned_phase ::
  "bool \<Rightarrow> bool \<Rightarrow> (string \<Rightarrow> string) \<Rightarrow> (InstanceCreateIntent \<Rightarrow> (string, json) dict) \<Rightarrow> string \<Rightarrow> (nat \<Rightarrow> int)
   \<Rightarrow> (Role \<times> InstanceCreateIntent) list \<Rightarrow> stop_plan list \<Rightarrow> ApplyContext \<Rightarrow> Journal \<Rightarrow> Journal \<times> ProviderOperation list" where
  "planned_phase execution_authorized execute uuid5 render deployment clock intents plans ctx j =
     (if \<not> execution_authorized then (j, [])
      else case journal_creates uuid5 render deployment clock (if execute then intents else []) j of
        (j1, Inl e) \<Rightarrow> (j1, [])
      | (j1, Inr journaled_creates) \<Rightarrow>
          (case journal_stops uuid5 deployment clock (if execute then plans else []) j1 of
             (j2, Inl e) \<Rightarrow> (j2, [])
           | (j2, Inr journaled_stops) \<Rightarrow>
               if journaled_creates = [] \<and> journaled_stops = []
                  \<and> \<not> list_ex (\<lambda>op. po_kind op = StopOp) (list_operations None [Prepared] j2)
               then (j2, [])
               else let r = apply_prepared_provider_operations
                              (ctx\<lparr>ac_source := Planned, ac_kinds := (if execute then [CreateOp, StopOp] else []),
                                   ac_stop_ids := map po_operation_id journaled_stops\<rparr>) j2
                    in (ar_journal r, ar_calls r)))"

text \<open>The calls between the two batches: they keep the drain intents and the attempts of pending deletes.\<close>

fun drain_call :: "JournalCall \<Rightarrow> bool" where
  "drain_call (Call_Prepare_Drain u d job role now) = True"
| "drain_call (Call_Cancel_Drain d job now) = True"
| "drain_call (Call_Retire_Drain d job) = True"
| "drain_call (Call_Rotate d pending recorded limit now) = True"
| "drain_call _ = False"

text \<open>The whole cycle: the journal it leaves, the operations the inventory pass replays and the operations of the planned
  batch. \<open>intents\<close> gives the create intents for the blocked roles; \<open>drains\<close> are the drain calls in between, which only a cycle
  with \<open>--execute\<close> makes.\<close>

definition provider_cycle ::
  "bool \<Rightarrow> bool \<Rightarrow> (string \<Rightarrow> string) \<Rightarrow> (InstanceCreateIntent \<Rightarrow> (string, json) dict) \<Rightarrow> string \<Rightarrow> (nat \<Rightarrow> int)
   \<Rightarrow> ProviderInstance list \<Rightarrow> (string \<Rightarrow> int) \<Rightarrow> ApplyContext \<Rightarrow> (Role list \<Rightarrow> (Role \<times> InstanceCreateIntent) list)
   \<Rightarrow> JournalCall list \<Rightarrow> stop_plan list \<Rightarrow> ApplyContext \<Rightarrow> Journal
   \<Rightarrow> journal_error + Journal \<times> ProviderOperation list \<times> ProviderOperation list" where
  "provider_cycle execution_authorized execute uuid5 render deployment clock jobs recovery_clock replay_ctx intents drains plans ctx j =
     (if \<not> execution_authorized then Inr (j, [], [])
      else case reconcile_provider_operation_inventory replay_ctx execute jobs recovery_clock j of
        Inl e \<Rightarrow> Inl e
      | Inr pass \<Rightarrow>
          (let j1 = fold (journal_step uuid5 render) (if execute then drains else []) (ar_journal (ip_run pass));
               (j2, calls) = planned_phase execution_authorized execute uuid5 render deployment clock
                               (intents (ip_blocked_roles pass)) plans ctx j1
           in Inr (j2, ar_calls (ip_run pass), calls)))"

section \<open>What journalling adds\<close>

text \<open>The operations of a kind, and the creates of a role, that wait for their provider call.\<close>

definition prepared_ids :: "OpKind \<Rightarrow> Journal \<Rightarrow> string set" where
  "prepared_ids kind j = {i. \<exists>op. row j i = Some op \<and> po_kind op = kind \<and> po_state op = Prepared}"

definition prepared_creates :: "Role \<Rightarrow> Journal \<Rightarrow> string set" where
  "prepared_creates role j = {i. \<exists>op. row j i = Some op \<and> po_kind op = CreateOp \<and> po_state op = Prepared \<and> po_role op = role}"

lemma finite_prepared [simp]: "finite (prepared_ids kind j)" "finite (prepared_creates role j)"
  by (rule finite_subset [OF _ finite_dom_map_of [of "jn_operations j"]], auto simp: prepared_ids_def prepared_creates_def)+

lemma prepared_creates_empty: "prepared_ids CreateOp j = {} \<longleftrightarrow> (\<forall>role. prepared_creates role j = {})"
  by (auto simp: prepared_ids_def prepared_creates_def)

text \<open>Journalling adds rows and changes none.\<close>

definition grows :: "OpKind \<Rightarrow> Role set \<Rightarrow> Journal \<Rightarrow> Journal \<Rightarrow> bool" where
  "grows kind roles j j' \<longleftrightarrow> keyed_rows j'
     \<and> (\<forall>i op. row j i = Some op \<longrightarrow> row j' i = Some op)
     \<and> (\<forall>i op. row j i = None \<longrightarrow> row j' i = Some op \<longrightarrow> po_kind op = kind \<and> po_state op = Prepared \<and> po_role op \<in> roles)"

lemma grows_refl: "keyed_rows j \<Longrightarrow> jn_operations j' = jn_operations j \<Longrightarrow> grows kind roles j j'"
  by (simp add: grows_def keyed_rows_def)

lemma growsD:
  assumes "grows kind roles j j'"
  shows "keyed_rows j'" "row j i = Some op \<Longrightarrow> row j' i = Some op"
    "row j i = None \<Longrightarrow> row j' i = Some op \<Longrightarrow> po_kind op = kind"
    "row j i = None \<Longrightarrow> row j' i = Some op \<Longrightarrow> po_state op = Prepared"
    "row j i = None \<Longrightarrow> row j' i = Some op \<Longrightarrow> po_role op \<in> roles"
  using assms unfolding grows_def by blast+

lemma grows_trans: "grows kind roles j j1 \<Longrightarrow> grows kind roles' j1 j' \<Longrightarrow> grows kind (roles \<union> roles') j j'"
  unfolding grows_def by (metis UnI1 UnI2 not_None_eq option.inject)

lemma grows_mono: "grows kind roles j j' \<Longrightarrow> roles \<subseteq> roles' \<Longrightarrow> grows kind roles' j j'"
  by (auto simp: grows_def)

lemma role_str_inverse: "provider_role (role_str role) = Some role"
  by (cases role) (simp_all add: provider_role_def str_strip_def is_space_def)

lemma prepare_grows:
  assumes "prepare_operation uuid5 intent_key kind deployment_id request (role_str role) targets now j = Inr (j', op)" "keyed_rows j"
    "operation_kind kind = Some k"
  shows "grows k {role} j j'" "\<forall>i. i \<noteq> po_operation_id op \<longrightarrow> row j' i = row j i"
proof -
  have d: "str_strip deployment_id \<noteq> []" using assms(1) by (auto simp: prepare_operation_def need_def Let_def split: if_splits option.splits)
  have "grows k {role} j j' \<and> (\<forall>i. i \<noteq> po_operation_id op \<longrightarrow> row j' i = row j i)"
    using assms(1)
  proof (cases rule: prepare_InrE)
    case Existing
    then show ?thesis using assms(2) by (simp add: grows_refl)
  next
    case (New k1 r)
    then have o: "po_kind op = k" "po_operation_id op \<noteq> []" "po_deployment_id op \<noteq> []" "po_role op = role" "po_state op = Prepared"
      using assms(3) d by (simp_all add: fresh_operation_def stable_provider_operation_id_def role_str_inverse)
    have j': "jn_operations j' = jn_operations j @ [(po_operation_id op, op)]"
      using New by (simp add: put_operation_def dict_update_new dict_get_None_iff)
    have r: "row j' i = (if i = po_operation_id op then Some op else row j i)" for i
      using New(4) by (simp add: j' map_add_def split: option.split)
    have "keyed_rows j'" using o assms(2) New(4) by (auto simp: keyed_rows_def j' dict_get_None_iff)
    then show ?thesis using o New(4) by (auto simp: grows_def r)
  qed
  then show "grows k {role} j j'" "\<forall>i. i \<noteq> po_operation_id op \<longrightarrow> row j' i = row j i" by blast+
qed

lemma card_insert_le_Suc: "card (insert x B) \<le> Suc (card B)"
  by (cases "finite B") (simp_all add: card_insert_if)

lemma card_subset_insert: "A \<subseteq> insert x B \<Longrightarrow> finite B \<Longrightarrow> card A \<le> Suc (card B)"
  by (rule order_trans [OF card_mono card_insert_le_Suc]) auto

lemma create_kind: "operation_kind ''create'' = Some CreateOp" and stop_kind: "operation_kind ''stop'' = Some StopOp"
  by code_simp+

text \<open>Journalling an intent of a role adds at most one prepared create, of that role.\<close>

definition planned_one :: "Role \<Rightarrow> Journal \<Rightarrow> Journal \<Rightarrow> bool" where
  "planned_one role j j' \<longleftrightarrow> grows CreateOp {role} j j'
     \<and> (\<forall>r. card (prepared_creates r j') \<le> card (prepared_creates r j) + (if r = role then 1 else 0))"

lemma planned_one_same: "keyed_rows j \<Longrightarrow> jn_operations j' = jn_operations j \<Longrightarrow> planned_one role j j'"
  by (simp add: planned_one_def grows_refl prepared_creates_def)

lemma prepare_create_one:
  assumes "jn_operations j1 = jn_operations j" "keyed_rows j"
    and "prepare_operation uuid5 key ''create'' d request (role_str role) targets now j1 = Inr (j', op)"
  shows "planned_one role j j'"
proof -
  have "keyed_rows j1" using assms(1,2) by (simp add: keyed_rows_def)
  note p = prepare_grows [OF assms(3) this create_kind]
  have g: "grows CreateOp {role} j j'" using p(1) assms(1) by (simp add: grows_def)
  have "prepared_creates r j' \<subseteq> (if r = role then insert (po_operation_id op) (prepared_creates r j) else prepared_creates r j)" for r
  proof
    fix i assume "i \<in> prepared_creates r j'"
    then obtain x where x: "row j' i = Some x" "po_kind x = CreateOp" "po_state x = Prepared" "po_role x = r" by (auto simp: prepared_creates_def)
    show "i \<in> (if r = role then insert (po_operation_id op) (prepared_creates r j) else prepared_creates r j)"
    proof (cases "row j i")
      case None
      from growsD(5) [OF g None x(1)] x(4) have "r = role" by simp
      moreover have "i = po_operation_id op" using p(2) None x(1) assms(1) by (metis not_None_eq)
      ultimately show ?thesis by simp
    next
      case (Some y)
      from growsD(2) [OF g Some] x(1) have "y = x" by simp
      then show ?thesis using Some x by (auto simp: prepared_creates_def)
    qed
  qed
  note sub = this
  have "card (prepared_creates r j') \<le> card (prepared_creates r j) + (if r = role then 1 else 0)" for r
    using card_subset_insert [of "prepared_creates r j'"] card_mono [of "prepared_creates r j"] sub [of r] by (cases "r = role") auto
  with g show ?thesis by (simp add: planned_one_def)
qed

lemma plan_row:
  assumes "plan_create_operation uuid5 render d role intent now1 now2 j = (j', res)" "keyed_rows j"
  shows "planned_one role j j'"
proof (cases "allocate_operation_intent_key d ''create'' (intent_base_key role intent) now1 j")
  case (Inl e)
  then show ?thesis using assms by (simp add: plan_create_operation_def planned_one_same)
next
  case al: (Inr q)
  obtain j1 key where q: "q = (j1, key)" by (cases q)
  have j1: "jn_operations j1 = jn_operations j" using al [unfolded q] by (cases rule: allocate_InrE) simp_all
  have old: "planned_one role j j1" using assms(2) j1 by (rule planned_one_same)
  note plan = assms(1) [unfolded plan_create_operation_def al q sum.case prod.case]
  show ?thesis
  proof (cases "with_provider_operation_label intent (stable_provider_operation_id uuid5 (str_strip d) CreateOp key) (Some d)")
    case (Inl e)
    with plan old show ?thesis by simp
  next
    case lab: (Inr labeled)
    note plan = plan [unfolded lab sum.case]
    show ?thesis
    proof (cases "prepare_operation uuid5 key ''create'' d (render labeled) (role_str role) [] now2 j1")
      case (Inl e)
      with plan old show ?thesis by simp
    next
      case (Inr q2)
      obtain j2 op where q2: "q2 = (j2, op)" by (cases q2)
      have "j2 = j'" using plan [unfolded Inr q2 sum.case prod.case] by simp
      with prepare_create_one [OF j1 assms(2) Inr [unfolded q2]] show ?thesis by simp
    qed
  qed
qed

lemma journal_creates_rows:
  assumes "journal_creates uuid5 render d clock intents j = (j', res)" "keyed_rows j"
  shows "grows CreateOp (fst ` set intents) j j'
    \<and> (\<forall>r. card (prepared_creates r j') \<le> card (prepared_creates r j) + length (filter (\<lambda>p. fst p = r) intents))"
  using assms
proof (induction intents arbitrary: j res)
  case Nil
  then show ?case by (simp add: grows_refl)
next
  case (Cons p intents)
  obtain role intent where p: "p = (role, intent)" by (cases p)
  let ?n = "length intents"
  obtain j1 r1 where one: "plan_create_operation uuid5 render d role intent (clock (2 * ?n)) (clock (2 * ?n + 1)) j = (j1, r1)" by fastforce
  note row = plan_row [OF one Cons.prems(2), unfolded planned_one_def]
  have keyed: "keyed_rows j1" using row by (simp add: grows_def)
  show ?case
  proof (cases r1)
    case (Inl e)
    then have "j' = j1" using Cons.prems(1) one by (simp add: p Let_def)
    moreover have "grows CreateOp (fst ` set (p # intents)) j j1" using conjunct1 [OF row] by (rule grows_mono) (simp add: p)
    moreover have "card (prepared_creates r j1) \<le> card (prepared_creates r j) + length (filter (\<lambda>p. fst p = r) (p # intents))" for r
      using spec [OF conjunct2 [OF row], of r] p by (simp split: if_splits)
    ultimately show ?thesis by blast
  next
    case (Inr op)
    then obtain r2 where "journal_creates uuid5 render d clock intents j1 = (j', r2)"
      using Cons.prems(1) one by (auto simp: p Let_def split: prod.splits sum.splits)
    note ih = Cons.IH [OF this keyed]
    have "card (prepared_creates r j') \<le> card (prepared_creates r j) + length (filter (\<lambda>p. fst p = r) (p # intents))" for r
      using spec [OF conjunct2 [OF row], of r] spec [OF conjunct2 [OF ih], of r] p by (simp split: if_splits)
    moreover have "grows CreateOp (fst ` set (p # intents)) j j'"
      using grows_trans [OF conjunct1 [OF row] conjunct1 [OF ih]] p by simp
    ultimately show ?thesis by blast
  qed
qed

lemma journal_stops_rows:
  assumes "journal_stops uuid5 d clock plans j = (j', res)" "keyed_rows j"
  shows "grows StopOp UNIV j j' \<and> (\<forall>ops. res = Inr ops \<longrightarrow> length ops = length plans)"
  using assms
proof (induction plans arbitrary: j res)
  case Nil
  then show ?case by (auto simp: grows_refl)
next
  case (Cons s plans)
  let ?p = "prepare_operation uuid5 (st_intent_key s) ''stop'' d (st_request s) (role_str (st_role s)) [st_job_id s] (clock (length plans)) j"
  show ?case
  proof (cases ?p)
    case (Inl e)
    then show ?thesis using Cons.prems by (auto simp: grows_refl)
  next
    case (Inr q)
    obtain j1 op where q: "q = (j1, op)" by (cases q)
    note row = prepare_grows(1) [OF Inr [unfolded q] Cons.prems(2) stop_kind]
    obtain r2 where r2: "journal_stops uuid5 d clock plans j1 = (j', r2)" "\<forall>ops. res = Inr ops \<longrightarrow> (\<exists>ops'. r2 = Inr ops' \<and> ops = op # ops')"
      using Cons.prems(1) Inr q by (auto split: prod.splits sum.splits)
    have "keyed_rows j1" using row by (simp add: grows_def)
    note ih = Cons.IH [OF r2(1) this]
    have "grows StopOp UNIV j j'" using grows_trans [OF row conjunct1 [OF ih]] by simp
    with ih r2(2) show ?thesis by auto
  qed
qed

lemma stops_keep_prepared: "grows StopOp roles j j' \<Longrightarrow> prepared_creates r j' = prepared_creates r j"
proof (intro equalityI subsetI)
  fix i assume g: "grows StopOp roles j j'" and "i \<in> prepared_creates r j'"
  then obtain op where op: "row j' i = Some op" "po_kind op = CreateOp" "po_state op = Prepared" "po_role op = r"
    by (auto simp: prepared_creates_def)
  moreover have "row j i = Some op"
  proof (cases "row j i")
    case None
    from growsD(3) [OF g this op(1)] op(2) show ?thesis by simp
  next
    case (Some x)
    from growsD(2) [OF g this] Some op(1) show ?thesis by simp
  qed
  ultimately show "i \<in> prepared_creates r j" by (auto simp: prepared_creates_def)
qed (auto simp: prepared_creates_def dest: growsD(2))

section \<open>A batch keeps the rows keyed\<close>

lemma transition_keyed:
  assumes "keyed_rows j" "transition_operation i expected st r t e now j = Inr (j', op')"
  shows "keyed_rows j'"
proof -
  obtain op where op: "row j i = Some op" "op' = moved op st r t e now" using assms(2) by (rule transition_InrE)
  have "dict_keys_ok (jn_operations j')"
    unfolding transition_rows(1) [OF assms(2)] using assms(1) by (intro dict_keys_ok_update) (simp add: keyed_rows_def)
  moreover have "k = po_operation_id x \<and> k \<noteq> [] \<and> po_deployment_id x \<noteq> []" if "row j' k = Some x" for k x
  proof (cases "k = i")
    case True
    then have "x = op'" using that transition_rows(1) [OF assms(2)] by (simp add: update_conv')
    with True op keyed_rowsD(3) [OF assms(1) op(1)] show ?thesis by simp
  next
    case False
    then have "row j k = Some x" using that transition_rows(1) [OF assms(2)] by (simp add: update_conv')
    from keyed_rowsD(3) [OF assms(1) this] show ?thesis by simp
  qed
  ultimately show ?thesis by (auto simp: keyed_rows_def)
qed

lemma mark_outcome_keyed: "keyed_rows j \<Longrightarrow> mark_outcome i result now j = Inr (j', op) \<Longrightarrow> keyed_rows j'"
  by (auto simp: mark_outcome_def mark_defs intro: transition_keyed split: sum.splits ProviderMutationResult.splits)

lemma apply_one_keyed: "keyed_rows (ar_journal r) \<Longrightarrow> keyed_rows (ar_journal (apply_one ctx op r))"
  by (auto simp: apply_one_def Let_def begin_provider_call_def dest: transition_keyed mark_outcome_keyed split: sum.splits option.splits)

lemma apply_loop_keyed: "keyed_rows (ar_journal r) \<Longrightarrow> keyed_rows (ar_journal (apply_loop ctx ops r))"
  by (induction ops arbitrary: r) (simp_all add: apply_one_keyed)

lemma apply_keyed: "keyed_rows j \<Longrightarrow> keyed_rows (ar_journal (apply_prepared_provider_operations ctx j))"
  by (simp add: apply_prepared_provider_operations_def apply_loop_keyed)

lemma reconcile_keyed:
  assumes "keyed_rows j" "reconcile_provider_inventory instances now j = Inr (j', outs)"
  shows "keyed_rows j'"
proof -
  obtain j1 o1 o2 where
    l1: "reconcile_loop (reconcile_create instances now) (list_operations (Some CreateOp) [Uncertain, Accepted] j) j = Inr (j1, o1)" and
    l2: "reconcile_loop (reconcile_stop instances now) (list_operations (Some StopOp) [Uncertain, Accepted] j1) j1 = Inr (j', o2)"
    using assms(2) by (auto simp: reconcile_provider_inventory_def split: sum.splits)
  have "keyed_rows j1"
    by (rule reconcile_loop_keeps [where P = keyed_rows, OF _ assms(1) l1]) (use reconcile_create_transition transition_keyed in blast)
  then show ?thesis
    by (rule reconcile_loop_keeps [where P = keyed_rows, OF _ _ l2, rotated]) (use reconcile_stop_transition transition_keyed in blast)
qed

lemma recovered_prepared:
  assumes "po_kind (recovered_row instances now op) = CreateOp" "po_state (recovered_row instances now op) = Prepared"
  shows "po_kind op = CreateOp \<and> po_state op = Prepared"
proof (cases "po_state op \<in> {Uncertain, Accepted}")
  case True
  then have "po_kind op = CreateOp" using assms(1) by (cases "po_kind op") (simp_all add: recovered_row_def)
  then have "po_state (create_turn instances now op) = Prepared" using assms(2) True by (auto simp: recovered_row_def split: if_splits)
  moreover have "po_state (create_turn instances now op) \<in> {Settled, po_state op}" by (simp add: create_turn_def Let_def)
  ultimately show ?thesis using True by auto
qed (use assms in \<open>simp add: recovered_row_def\<close>)

lemma suppress_rows:
  assumes "keyed_rows j" "distinct (map po_operation_id ops)"
    and "\<forall>op \<in> set ops. row j (po_operation_id op) = Some op \<and> po_state op = Prepared \<and> po_kind op = StopOp"
  shows "\<exists>j' outs. suppress_loop ctx reason ops j = Inr (j', outs) \<and> keyed_rows j'
    \<and> (\<forall>i op. po_kind op = CreateOp \<longrightarrow> row j' i = Some op \<longleftrightarrow> row j i = Some op)"
  using assms
proof (induction ops arbitrary: j)
  case (Cons op ops)
  have op: "row j (po_operation_id op) = Some op" "po_state op = Prepared" "po_kind op = StopOp" using Cons.prems(3) by simp_all
  show ?case
  proof (cases "stop_operation_is_destructive_node_loss op \<and> \<not> stop_operation_has_safety_proof (ac_repr ctx) (ac_provider ctx) op j")
    case False
    then have "suppress_loop ctx reason (op # ops) j = suppress_loop ctx reason ops j" by auto
    with Cons.IH [OF Cons.prems(1)] Cons.prems(2,3) show ?thesis by simp
  next
    case True
    obtain j1 marked where one: "suppress_prepared_operation (po_operation_id op) reason (ac_clock ctx 0) j = Inr (j1, marked)"
      and kind: "po_kind marked = StopOp"
      using op by (auto simp: suppress_prepared_operation_def transition_Some [OF op(1)])
    note tr = one [unfolded suppress_prepared_operation_def]
    have rows: "row j1 i = (if i = po_operation_id op then Some marked else row j i)" for i
      using transition_rows(1) [OF tr] by (simp add: update_conv')
    have "\<forall>x \<in> set ops. po_operation_id x \<noteq> po_operation_id op" using Cons.prems(2) by (auto simp: image_iff)
    then have "\<forall>x \<in> set ops. row j1 (po_operation_id x) = Some x \<and> po_state x = Prepared \<and> po_kind x = StopOp"
      using Cons.prems(3) by (simp add: rows)
    with Cons.IH [OF transition_keyed [OF Cons.prems(1) tr]] Cons.prems(2) obtain j' outs where
      ih: "suppress_loop ctx reason ops j1 = Inr (j', outs)" "keyed_rows j'"
      "\<forall>i x. po_kind x = CreateOp \<longrightarrow> row j' i = Some x \<longleftrightarrow> row j1 i = Some x" by auto
    have "\<forall>i x. po_kind x = CreateOp \<longrightarrow> row j1 i = Some x \<longleftrightarrow> row j i = Some x"
      using kind op by (auto simp: rows)
    with ih True one show ?thesis by (simp add: Let_def)
  qed
qed simp

section \<open>What the cycle calls\<close>

lemma scale_creates_bound: "creates (evaluate_scale parse nodes demand policy now signals) \<le> max 0 (max_create_per_cycle policy)"
proof -
  let ?v = "scale_view parse nodes demand policy now signals"
  obtain needs p ds where p: "cap_ok policy ?v p" "creates (evaluate_scale parse nodes demand policy now signals) = planned_creates (fst p)"
    by (rule evaluate_scale_actions)
  then show ?thesis by (auto simp: cap_ok_def)
qed

lemma length_build: "length (build_create_intents deployment version uuid d role seed_prefix) = nat (creates d)"
  by (simp add: build_create_intents_def Let_def)

lemma cycle_intents_role:
  "length (filter (\<lambda>p. fst p = role) (cycle_create_intents deployment version uuid builder_uuid d b seed_prefix blocked)) =
     (if role \<in> set blocked then 0 else case role of Sandbox_Role \<Rightarrow> nat (creates d) | Builder_Role \<Rightarrow> nat (creates b))"
  by (cases role) (simp_all add: cycle_create_intents_def Let_def filter_map comp_def length_build)

lemma length_le_card: "distinct xs \<Longrightarrow> set xs \<subseteq> A \<Longrightarrow> finite A \<Longrightarrow> length xs \<le> card A"
  by (metis card_mono distinct_card)

lemma batch_counts:
  assumes "keyed_rows j" "r = apply_prepared_provider_operations ctx j"
  shows "ar_error r = None" "distinct (map po_operation_id (ar_calls r))"
    "\<forall>c \<in> set (ar_calls r). \<exists>op t. row j (po_operation_id c) = Some op \<and> po_state op = Prepared \<and> may_apply ctx op j
       \<and> c = moved op Uncertain None None None t"
    "\<forall>i \<in> po_operation_id ` set (ar_calls r). \<exists>op. row (ar_journal r) i = Some op \<and> po_state op \<in> {Uncertain, Accepted, Failed}"
    "\<forall>i. i \<notin> po_operation_id ` set (ar_calls r) \<longrightarrow> row (ar_journal r) i = row j i"
    "length (filter (\<lambda>c. po_kind c = CreateOp \<and> po_role c = role) (ar_calls r)) \<le> card (prepared_creates role j)"
    "length (filter (\<lambda>c. po_kind c = StopOp) (ar_calls r)) \<le> length (ac_stop_ids ctx)"
    "CreateOp \<in> set (ac_kinds ctx) \<Longrightarrow> prepared_ids CreateOp (ar_journal r) = {}"
proof -
  obtain ops where ops: "\<And>op. op \<in> set ops \<longleftrightarrow> row j (po_operation_id op) = Some op \<and> po_state op = Prepared"
    and dist: "distinct (map po_operation_id ops)"
    and run: "ar_error r = None" "map po_operation_id (ar_calls r) = map po_operation_id (filter (\<lambda>op. may_apply ctx op j) ops)"
    "\<forall>c \<in> set (ar_calls r). \<exists>op \<in> set ops. \<exists>t. may_apply ctx op j \<and> c = moved op Uncertain None None None t"
    "\<forall>i. i \<in> po_operation_id ` set (ar_calls r) \<longrightarrow>
       (\<exists>op'. row (ar_journal r) i = Some op' \<and> po_state op' \<in> {Uncertain, Accepted, Failed})"
    "\<forall>i. i \<notin> po_operation_id ` set (ar_calls r) \<longrightarrow> row (ar_journal r) i = row j i"
    by (rule apply_prepared_rows [OF assms]) (rule that)
  show "ar_error r = None" by (rule run(1))
  show ids: "distinct (map po_operation_id (ar_calls r))" unfolding run(2) using dist by (rule distinct_map_filter)
  have some: "distinct (map po_operation_id (filter P (ar_calls r)))" for P using ids by (rule distinct_map_filter)
  show called: "\<forall>c \<in> set (ar_calls r). \<exists>op t. row j (po_operation_id c) = Some op \<and> po_state op = Prepared \<and> may_apply ctx op j
       \<and> c = moved op Uncertain None None None t"
    using run(3) ops by (metis moved_fields(1))
  show "\<forall>i \<in> po_operation_id ` set (ar_calls r). \<exists>op. row (ar_journal r) i = Some op \<and> po_state op \<in> {Uncertain, Accepted, Failed}"
    using run(4) by blast
  show "\<forall>i. i \<notin> po_operation_id ` set (ar_calls r) \<longrightarrow> row (ar_journal r) i = row j i" by (rule run(5))
  have create: "po_operation_id c \<in> prepared_creates (po_role c) j" if "c \<in> set (ar_calls r)" "po_kind c = CreateOp" for c
    using called that by (fastforce simp: prepared_creates_def)
  have stop: "po_operation_id c \<in> set (ac_stop_ids ctx)" if "c \<in> set (ar_calls r)" "po_kind c = StopOp" for c
    using called that by (fastforce simp: may_apply_def)
  show "length (filter (\<lambda>c. po_kind c = CreateOp \<and> po_role c = role) (ar_calls r)) \<le> card (prepared_creates role j)"
    using length_le_card [OF some [of "\<lambda>c. po_kind c = CreateOp \<and> po_role c = role"], of "prepared_creates role j"] create by auto
  have "length (filter (\<lambda>c. po_kind c = StopOp) (ar_calls r)) \<le> card (set (ac_stop_ids ctx))"
    using length_le_card [OF some [of "\<lambda>c. po_kind c = StopOp"], of "set (ac_stop_ids ctx)"] stop by auto
  then show "length (filter (\<lambda>c. po_kind c = StopOp) (ar_calls r)) \<le> length (ac_stop_ids ctx)" using card_length order_trans by blast
  show "prepared_ids CreateOp (ar_journal r) = {}" if k: "CreateOp \<in> set (ac_kinds ctx)"
  proof (rule ccontr)
    assume "prepared_ids CreateOp (ar_journal r) \<noteq> {}"
    then obtain i op where op: "row (ar_journal r) i = Some op" "po_kind op = CreateOp" "po_state op = Prepared" by (auto simp: prepared_ids_def)
    then have i: "i \<notin> po_operation_id ` set (ar_calls r)" using run(4) by fastforce
    with run(5) op(1) have "row j i = Some op" by simp
    then have "op \<in> set ops" "i = po_operation_id op" using ops op(3) keyed_rowsD(3) [OF assms(1)] by blast+
    then have "i \<in> set (map po_operation_id (ar_calls r))" unfolding run(2) using k op(2) by (force simp: may_apply_def)
    with i show False by simp
  qed
qed

lemma no_kinds_no_calls: "ac_kinds ctx = [] \<Longrightarrow> ar_calls (apply_loop ctx ops r) = ar_calls r"
  by (induction ops) (simp_all add: may_apply_def)

lemma planned_phase_calls:
  assumes "planned_phase execution_authorized execute uuid5 render deployment clock intents plans ctx j = (j', calls)" "calls \<noteq> []"
  obtains j1 ops j2 sops ctx' where "journal_creates uuid5 render deployment clock intents j = (j1, Inr ops)"
    "journal_stops uuid5 deployment clock plans j1 = (j2, Inr sops)" "ac_stop_ids ctx' = map po_operation_id sops" "CreateOp \<in> set (ac_kinds ctx')"
    "j' = ar_journal (apply_prepared_provider_operations ctx' j2)" "calls = ar_calls (apply_prepared_provider_operations ctx' j2)"
    "execution_authorized" "execute"
proof -
  let ?intents = "if execute then intents else []" and ?plans = "if execute then plans else []"
  obtain j1 r1 where one: "journal_creates uuid5 render deployment clock ?intents j = (j1, r1)" by fastforce
  obtain j2 r2 where two: "journal_stops uuid5 deployment clock ?plans j1 = (j2, r2)" by fastforce
  have auth: "execution_authorized = True" using assms by (cases execution_authorized) (simp_all add: planned_phase_def)
  note phase = assms(1) [unfolded planned_phase_def auth not_True_eq_False if_False one prod.case]
  obtain ops where ops: "r1 = Inr ops" using phase assms(2) by (cases r1) simp_all
  note phase = phase [unfolded ops sum.case two prod.case]
  obtain sops where sops: "r2 = Inr sops" using phase assms(2) by (cases r2) simp_all
  let ?ctx = "ctx\<lparr>ac_source := Planned, ac_kinds := (if execute then [CreateOp, StopOp] else []), ac_stop_ids := map po_operation_id sops\<rparr>"
  have r: "j' = ar_journal (apply_prepared_provider_operations ?ctx j2)" "calls = ar_calls (apply_prepared_provider_operations ?ctx j2)"
    using phase [unfolded sops sum.case] assms(2) unfolding Let_def by (auto split: if_splits)
  have "execute = True"
    using r(2) assms(2) no_kinds_no_calls [of ?ctx] by (cases execute) (simp_all add: apply_prepared_provider_operations_def)
  then show thesis using that [of j1 ops j2 sops ?ctx] one two ops sops r auth by simp
qed

text \<open>The inventory pass never fails, replays prepared creates only, and blocks the role of every open create.\<close>

lemma inventory_pass:
  assumes "keyed_rows j"
  obtains pass where "reconcile_provider_operation_inventory ctx execute jobs now j = Inr pass" "keyed_rows (ar_journal (ip_run pass))"
    "distinct (map po_operation_id (ar_calls (ip_run pass)))"
    "\<forall>c \<in> set (ar_calls (ip_run pass)). po_kind c = CreateOp \<and> po_operation_id c \<in> prepared_ids CreateOp j"
    "\<forall>i \<in> po_operation_id ` set (ar_calls (ip_run pass)). \<exists>op. row (ar_journal (ip_run pass)) i = Some op \<and> po_state op \<noteq> Prepared"
    "execute \<Longrightarrow> prepared_ids CreateOp (ar_journal (ip_run pass)) = {}" "\<not> execute \<Longrightarrow> ar_calls (ip_run pass) = []"
    "\<forall>i op. row (ar_journal (ip_run pass)) i = Some op \<longrightarrow> po_kind op = CreateOp \<longrightarrow> po_state op \<in> {Uncertain, Accepted}
       \<longrightarrow> po_role op \<in> set (ip_blocked_roles pass)"
proof -
  obtain j1 results where one: "reconcile_provider_inventory jobs now j = Inr (j1, results)"
    and rows: "row j1 = (\<lambda>i. map_option (recovered_row jobs now) (row j i))" using reconcile_rows [OF assms] by blast
  have k1: "keyed_rows j1" using assms one by (rule reconcile_keyed)
  have prep: "prepared_ids CreateOp j1 \<subseteq> prepared_ids CreateOp j"
    unfolding prepared_ids_def rows by (auto dest: recovered_prepared)
  let ?reason = "''obsolete destructive stop authorization; automatic retry disabled''"
  let ?ops = "list_operations (Some StopOp) [Prepared] j1"
  obtain j2 outs where two: "suppress_loop ctx ?reason ?ops j1 = Inr (j2, outs)" "keyed_rows j2"
    "\<forall>i op. po_kind op = CreateOp \<longrightarrow> row j2 i = Some op \<longleftrightarrow> row j1 i = Some op"
    using suppress_rows [OF k1 keyed_rowsD(2) [OF k1], of "Some StopOp" "[Prepared]" ctx ?reason]
    by (auto simp: in_list_operations [OF k1])
  have prep2: "prepared_ids CreateOp j2 = prepared_ids CreateOp j1" using two(3) unfolding prepared_ids_def by blast
  define ctx' where "ctx' = ctx\<lparr>ac_source := Prepared_Replay, ac_kinds := (if execute then [CreateOp] else []), ac_stop_ids := []\<rparr>"
  define run where "run = apply_prepared_provider_operations ctx' j2"
  note b = batch_counts [OF two(2) run_def]
  have k3: "keyed_rows (ar_journal run)" unfolding run_def using two(2) by (rule apply_keyed)
  obtain pass where pass: "reconcile_provider_operation_inventory ctx execute jobs now j = Inr pass"
    "ar_journal (ip_run pass) = ar_journal run" "ar_calls (ip_run pass) = ar_calls run"
    "set (map po_role (list_operations (Some CreateOp) [Uncertain, Accepted] (ar_journal run))) \<subseteq> set (ip_blocked_roles pass)"
    using b(1) by (fastforce simp: reconcile_provider_operation_inventory_def one two(1) Let_def ctx'_def [symmetric] run_def [symmetric])
  show thesis
  proof (rule that [OF pass(1)])
    show "\<forall>c \<in> set (ar_calls (ip_run pass)). po_kind c = CreateOp \<and> po_operation_id c \<in> prepared_ids CreateOp j"
    proof
      fix c assume "c \<in> set (ar_calls (ip_run pass))"
      with b(3) pass(3) obtain op t where op: "row j2 (po_operation_id c) = Some op" "po_state op = Prepared" "may_apply ctx' op j2"
        "c = moved op Uncertain None None None t" by force
      then have "po_kind op = CreateOp" by (auto simp: may_apply_def ctx'_def split: if_splits)
      moreover from this op(1,2) have "po_operation_id c \<in> prepared_ids CreateOp j2" by (auto simp: prepared_ids_def)
      ultimately show "po_kind c = CreateOp \<and> po_operation_id c \<in> prepared_ids CreateOp j"
        using op(4) prep prep2 by auto
    qed
    show "prepared_ids CreateOp (ar_journal (ip_run pass)) = {}" if execute
      unfolding pass(2) using b(8) that by (simp add: ctx'_def)
    show "ar_calls (ip_run pass) = []" if "\<not> execute"
      unfolding pass(3) run_def using that
      by (simp add: apply_prepared_provider_operations_def ctx'_def no_kinds_no_calls)
    show "\<forall>i \<in> po_operation_id ` set (ar_calls (ip_run pass)). \<exists>op. row (ar_journal (ip_run pass)) i = Some op \<and> po_state op \<noteq> Prepared"
      using b(4) unfolding pass(2,3) by fastforce
    show "\<forall>i op. row (ar_journal (ip_run pass)) i = Some op \<longrightarrow> po_kind op = CreateOp \<longrightarrow> po_state op \<in> {Uncertain, Accepted}
       \<longrightarrow> po_role op \<in> set (ip_blocked_roles pass)"
    proof (intro allI impI)
      fix i op assume "row (ar_journal (ip_run pass)) i = Some op" "po_kind op = CreateOp" "po_state op \<in> {Uncertain, Accepted}"
      then have "op \<in> set (list_operations (Some CreateOp) [Uncertain, Accepted] (ar_journal run))"
        using keyed_rowsD(3) [OF k3] unfolding pass(2) by (fastforce simp: in_list_operations [OF k3])
      then show "po_role op \<in> set (ip_blocked_roles pass)" using pass(4) by auto
    qed
  qed (use b(2) k3 in \<open>simp_all only: pass(2,3)\<close>)
qed

lemma drain_calls_keep:
  "list_all drain_call cs \<Longrightarrow> jn_operations (fold (journal_step uuid5 render) cs j) = jn_operations j"
proof (induction cs arbitrary: j)
  case (Cons c cs)
  have "jn_operations (journal_step uuid5 render c j) = jn_operations j"
    using Cons.prems by (cases c) (auto simp: after_def dest: drain_calls_unchanged split: sum.splits)
  with Cons show ?case by simp
qed simp

text \<open>The planned batch after a pass that left no prepared create.\<close>

lemma planned_batch:
  assumes "planned_phase execution_authorized execute uuid5 render deployment clock intents plans ctx j = (j', calls)" "keyed_rows j"
    and "execute \<Longrightarrow> prepared_ids CreateOp j = {}" and ne: "calls \<noteq> []"
  shows "distinct (map po_operation_id calls)" "\<forall>i \<in> po_operation_id ` set calls. \<forall>op. row j i = Some op \<longrightarrow> po_state op = Prepared"
    "length (filter (\<lambda>c. po_kind c = CreateOp \<and> po_role c = role) calls) \<le> length (filter (\<lambda>p. fst p = role) intents)"
    "length (filter (\<lambda>c. po_kind c = StopOp) calls) \<le> length plans" execute "prepared_ids CreateOp j' = {}"
    "\<forall>c \<in> set calls. po_kind c = CreateOp \<longrightarrow> po_role c \<in> fst ` set intents"
    "\<forall>i op. row j' i = Some op \<longrightarrow> po_state op \<noteq> Prepared \<longrightarrow> i \<notin> po_operation_id ` set calls \<longrightarrow> row j i = Some op"
proof -
  obtain j1 ops j2 sops ctx' where c: "journal_creates uuid5 render deployment clock intents j = (j1, Inr ops)"
    "journal_stops uuid5 deployment clock plans j1 = (j2, Inr sops)" "ac_stop_ids ctx' = map po_operation_id sops" "CreateOp \<in> set (ac_kinds ctx')"
    "j' = ar_journal (apply_prepared_provider_operations ctx' j2)" "calls = ar_calls (apply_prepared_provider_operations ctx' j2)" execute
    by (rule planned_phase_calls [OF assms(1) ne])
  note creates = journal_creates_rows [OF c(1) assms(2)]
  have g1: "grows CreateOp (fst ` set intents) j j1" using creates by blast
  note stops = journal_stops_rows [OF c(2) growsD(1) [OF g1]]
  have g2: "grows StopOp UNIV j1 j2" using stops by blast
  note batch = batch_counts [OF growsD(1) [OF g2] refl, where ctx = ctx', folded c(5,6)]
  have kept: "row j2 i = Some op" if "row j i = Some op" for i op by (rule growsD(2) [OF g2 growsD(2) [OF g1 that]])
  have new: "po_state op = Prepared \<and> (po_kind op = CreateOp \<longrightarrow> po_role op \<in> fst ` set intents)"
    if "row j2 i = Some op" "row j i = None" for i op
  proof (cases "row j1 i")
    case None
    from growsD(3,4) [OF g2 None that(1)] show ?thesis by simp
  next
    case (Some x)
    from growsD(2) [OF g2 Some] that(1) have "x = op" by simp
    with growsD(4,5) [OF g1 that(2) Some] show ?thesis by simp
  qed
  have none: "prepared_ids CreateOp j = {}" by (rule assms(3) [OF c(7)])
  show "length (filter (\<lambda>c. po_kind c = CreateOp \<and> po_role c = role) calls) \<le> length (filter (\<lambda>p. fst p = role) intents)"
    using batch(6) [of role] spec [OF conjunct2 [OF creates], of role] none [unfolded prepared_creates_empty]
    unfolding stops_keep_prepared [OF g2] by simp
  show "\<forall>c \<in> set calls. po_kind c = CreateOp \<longrightarrow> po_role c \<in> fst ` set intents"
  proof (intro ballI impI)
    fix x assume x: "x \<in> set calls" "po_kind x = CreateOp"
    then obtain op t where op: "row j2 (po_operation_id x) = Some op" "po_state op = Prepared" "x = moved op Uncertain None None None t"
      using batch(3) by blast
    have "row j (po_operation_id x) = None"
    proof (rule ccontr)
      assume "row j (po_operation_id x) \<noteq> None"
      then obtain y where y: "row j (po_operation_id x) = Some y" by blast
      from kept [OF y] op(1) have "y = op" by simp
      with y op(2,3) x(2) none show False by (auto simp: prepared_ids_def)
    qed
    from new [OF op(1) this] op(3) x(2) show "po_role x \<in> fst ` set intents" by simp
  qed
  show "\<forall>i op. row j' i = Some op \<longrightarrow> po_state op \<noteq> Prepared \<longrightarrow> i \<notin> po_operation_id ` set calls \<longrightarrow> row j i = Some op"
  proof (intro allI impI)
    fix i op assume i: "row j' i = Some op" "po_state op \<noteq> Prepared" "i \<notin> po_operation_id ` set calls"
    then have "row j2 i = Some op" using batch(5) by simp
    with new [OF this] kept [of i] i(2) show "row j i = Some op" by (cases "row j i") auto
  qed
  show "\<forall>i \<in> po_operation_id ` set calls. \<forall>op. row j i = Some op \<longrightarrow> po_state op = Prepared"
    using batch(3) kept by fastforce
  show "length (filter (\<lambda>c. po_kind c = StopOp) calls) \<le> length plans" using batch(7) stops c(3) by simp
  show "distinct (map po_operation_id calls)" by (rule batch(2))
  show execute by (rule c(7))
  show "prepared_ids CreateOp j' = {}" by (rule batch(8) [OF c(4)])
qed

end
