(* ===== verification/Singleflight_Cache.thy ===== *)
theory Singleflight_Cache
  imports Prelude
begin

text \<open>
  \<open>src/ucloud_sandboxes/singleflight_cache.py\<close>: one expiring value whose cold loads are shared and
  whose invalidations fence the loads in flight. Every section under the lock is a function on the
  cache record; events are numbers, with the set of those that have been set. The threads interleave
  in the step relation \<open>sf_step\<close>, which also keeps a log of what happened. The loader, the clock and
  the value's TTL are arguments of the steps.
\<close>

section \<open>The cache\<close>

record 'v SingleFlight =
  sf_ttl_seconds :: rat
  sf_cached :: bool
  sf_value :: "'v option"
  sf_loaded_at :: rat
  sf_loaded_ttl :: rat
  sf_generation :: nat
  sf_loading :: "nat option"
  sf_next_event :: nat
  sf_set_events :: "nat set"

definition valid_ttl_seconds :: "rat \<Rightarrow> rat option" where
  "valid_ttl_seconds value = (if value < 0 then None else Some value)"

definition new_cache :: "rat \<Rightarrow> 'v SingleFlight option" where
  "new_cache ttl = map_option (\<lambda>t. \<lparr>sf_ttl_seconds = t, sf_cached = False, sf_value = None, sf_loaded_at = 0, sf_loaded_ttl = t,
     sf_generation = 0, sf_loading = None, sf_next_event = 0, sf_set_events = {}\<rparr>) (valid_ttl_seconds ttl)"

definition is_fresh_locked :: "'v SingleFlight \<Rightarrow> rat \<Rightarrow> bool" where
  "is_fresh_locked c now =
     (if \<not> sf_cached c then False
      else let age = now - sf_loaded_at c in 0 \<le> age \<and> age \<le> sf_loaded_ttl c)"

datatype 'v enter_result = Serve "'v option" | Join nat | Begin nat nat

text \<open>The section at the head of the loop of \<open>get_or_load\<close>.\<close>

definition get_enter :: "'v SingleFlight \<Rightarrow> rat \<Rightarrow> 'v enter_result \<times> 'v SingleFlight" where
  "get_enter c now =
     (if is_fresh_locked c now then (Serve (sf_value c), c)
      else case sf_loading c of
             Some e \<Rightarrow> (Join e, c)
           | None \<Rightarrow>
               (Begin (sf_next_event c) (sf_generation c),
                c\<lparr>sf_loading := Some (sf_next_event c), sf_next_event := Suc (sf_next_event c)\<rparr>))"

definition complete_loading_locked :: "nat \<Rightarrow> 'v SingleFlight \<Rightarrow> 'v SingleFlight" where
  "complete_loading_locked e c =
     (let c' = (if sf_loading c = Some e then c\<lparr>sf_loading := None\<rparr> else c)
      in c'\<lparr>sf_set_events := insert e (sf_set_events c')\<rparr>)"

text \<open>The section after the loader returned \<open>v\<close> at \<open>loaded_at\<close> for a load of \<open>generation\<close>.\<close>

definition publish :: "nat \<Rightarrow> nat \<Rightarrow> 'v \<Rightarrow> rat \<Rightarrow> rat \<Rightarrow> 'v SingleFlight \<Rightarrow> 'v SingleFlight" where
  "publish e generation v loaded_at ttl c =
     complete_loading_locked e
       (if sf_generation c = generation
        then c\<lparr>sf_value := Some v, sf_loaded_at := loaded_at, sf_loaded_ttl := ttl, sf_cached := True\<rparr> else c)"

text \<open>What follows the loader: it raises, or its value has an invalid TTL, or it is published.\<close>

definition get_finish ::
  "('v \<Rightarrow> rat) option \<Rightarrow> nat \<Rightarrow> nat \<Rightarrow> 'v option \<Rightarrow> rat \<Rightarrow> 'v SingleFlight \<Rightarrow> 'v option \<times> 'v SingleFlight" where
  "get_finish ttl_for_value e generation loaded loaded_at c =
     (case loaded of
        None \<Rightarrow> (None, complete_loading_locked e c)
      | Some v \<Rightarrow>
          (case (case ttl_for_value of None \<Rightarrow> Some (sf_ttl_seconds c) | Some f \<Rightarrow> valid_ttl_seconds (f v)) of
             None \<Rightarrow> (None, complete_loading_locked e c)
           | Some ttl \<Rightarrow> (Some v, publish e generation v loaded_at ttl c)))"

text \<open>The section of \<open>invalidate\<close>; the event it returns is set after the lock is released.\<close>

definition invalidate_locked :: "'v SingleFlight \<Rightarrow> nat option \<times> 'v SingleFlight" where
  "invalidate_locked c =
     (sf_loading c,
      c\<lparr>sf_generation := Suc (sf_generation c), sf_cached := False, sf_value := None, sf_loaded_at := 0,
        sf_loaded_ttl := sf_ttl_seconds c, sf_loading := None\<rparr>)"

definition set_event :: "nat \<Rightarrow> 'v SingleFlight \<Rightarrow> 'v SingleFlight" where
  "set_event e c = c\<lparr>sf_set_events := insert e (sf_set_events c)\<rparr>"

section \<open>Interleaved threads\<close>

datatype thread_state = Idle | Waiting nat | Loading nat nat | Waking nat

datatype 'v flight_event =
    Began nat nat
  | Published nat nat 'v rat rat
  | Invalidated
  | Served nat 'v rat

type_synonym 'v flight_state = "'v SingleFlight \<times> (nat \<Rightarrow> thread_state) \<times> 'v flight_event list"

inductive sf_step :: "('v \<Rightarrow> rat) option \<Rightarrow> 'v flight_state \<Rightarrow> 'v flight_state \<Rightarrow> bool" for ttl_for_value where
  serve: "th t = Idle \<or> (\<exists>e. th t = Waiting e \<and> e \<in> sf_set_events c) \<Longrightarrow> get_enter c now = (Serve (Some v), c') \<Longrightarrow>
    sf_step ttl_for_value (c, th, lg) (c', th(t := Idle), lg @ [Served t v now])"
| join: "th t = Idle \<or> (\<exists>e. th t = Waiting e \<and> e \<in> sf_set_events c) \<Longrightarrow> get_enter c now = (Join e, c') \<Longrightarrow>
    sf_step ttl_for_value (c, th, lg) (c', th(t := Waiting e), lg)"
| begin_load: "th t = Idle \<or> (\<exists>e. th t = Waiting e \<and> e \<in> sf_set_events c) \<Longrightarrow> get_enter c now = (Begin e g, c') \<Longrightarrow>
    sf_step ttl_for_value (c, th, lg) (c', th(t := Loading e g), lg @ [Began t e])"
| loaded: "th t = Loading e g \<Longrightarrow> get_finish ttl_for_value e g (Some v) loaded_at c = (Some v, c') \<Longrightarrow>
    sf_step ttl_for_value (c, th, lg) (c', th(t := Idle), lg @ [Published t e v loaded_at (case ttl_for_value of None \<Rightarrow> sf_ttl_seconds c | Some f \<Rightarrow> f v)])"
| failed: "th t = Loading e g \<Longrightarrow> get_finish ttl_for_value e g result loaded_at c = (None, c') \<Longrightarrow>
    sf_step ttl_for_value (c, th, lg) (c', th(t := Idle), lg)"
| invalidate: "th t = Idle \<Longrightarrow> invalidate_locked c = (loading, c') \<Longrightarrow>
    sf_step ttl_for_value (c, th, lg)
      (c', th(t := (case loading of None \<Rightarrow> Idle | Some e \<Rightarrow> Waking e)), lg @ [Invalidated])"
| wake: "th t = Waking e \<Longrightarrow> sf_step ttl_for_value (c, th, lg) (set_event e c, th(t := Idle), lg)"

inductive sf_reachable :: "rat \<Rightarrow> ('v \<Rightarrow> rat) option \<Rightarrow> 'v flight_state \<Rightarrow> bool" for ttl ttl_for_value where
  start: "new_cache ttl = Some c \<Longrightarrow> sf_reachable ttl ttl_for_value (c, \<lambda>_. Idle, [])"
| step: "sf_reachable ttl ttl_for_value s \<Longrightarrow> sf_step ttl_for_value s s' \<Longrightarrow> sf_reachable ttl ttl_for_value s'"

inductive_cases sf_stepE: "sf_step ttl_for_value (c, th, lg) s'"

section \<open>The invariant\<close>

definition invalidations :: "'v flight_event list \<Rightarrow> nat" where
  "invalidations lg = length (filter (\<lambda>x. x = Invalidated) lg)"

lemma invalidations_simps [simp]:
  "invalidations [] = 0" "invalidations (x # lg) = (if x = Invalidated then Suc (invalidations lg) else invalidations lg)"
  "invalidations (a @ b) = invalidations a + invalidations b"
  by (simp_all add: invalidations_def)

lemma no_invalidation: "invalidations lg = 0 \<longleftrightarrow> Invalidated \<notin> set lg"
  by (induction lg) auto

text \<open>A value is current at the end of a log when the load that published it began after the last
  invalidation.\<close>

definition current :: "'v flight_event list \<Rightarrow> 'v \<Rightarrow> rat \<Rightarrow> rat \<Rightarrow> bool" where
  "current lg v loaded_at ttl \<longleftrightarrow> (\<exists>p t e q r. lg = p @ Began t e # q @ Published t e v loaded_at ttl # r
     \<and> Invalidated \<notin> set q \<and> Invalidated \<notin> set r)"

lemma current_append: "current lg v a l \<Longrightarrow> Invalidated \<notin> set xs \<Longrightarrow> current (lg @ xs) v a l"
  unfolding current_def by (metis (no_types, lifting) Un_iff append.assoc append_Cons set_append)

definition cache_inv :: "'v SingleFlight \<Rightarrow> 'v flight_event list \<Rightarrow> bool" where
  "cache_inv c lg \<longleftrightarrow> sf_generation c = invalidations lg
     \<and> (sf_cached c \<longrightarrow> (\<exists>v. sf_value c = Some v \<and> current lg v (sf_loaded_at c) (sf_loaded_ttl c)))"

definition loads_inv :: "'v SingleFlight \<Rightarrow> (nat \<Rightarrow> thread_state) \<Rightarrow> 'v flight_event list \<Rightarrow> bool" where
  "loads_inv c th lg \<longleftrightarrow> (\<forall>t e g. th t = Loading e g \<longrightarrow> e < sf_next_event c
     \<and> (\<exists>p q. lg = p @ Began t e # q \<and> invalidations p = g)
     \<and> (g = sf_generation c \<longrightarrow> sf_loading c = Some e))"

definition single_inv :: "'v SingleFlight \<Rightarrow> (nat \<Rightarrow> thread_state) \<Rightarrow> bool" where
  "single_inv c th \<longleftrightarrow> (\<forall>t u e g g'. th t = Loading e g \<longrightarrow> th u = Loading e g' \<longrightarrow> t = u)
     \<and> (\<forall>e. sf_loading c = Some e \<longrightarrow> e < sf_next_event c \<and> e \<notin> sf_set_events c \<and> (\<exists>t. th t = Loading e (sf_generation c)))"

definition waker :: "(nat \<Rightarrow> thread_state) \<Rightarrow> nat \<Rightarrow> bool" where
  "waker th e \<longleftrightarrow> (\<exists>u. th u = Waking e)"

definition waits_inv :: "'v SingleFlight \<Rightarrow> (nat \<Rightarrow> thread_state) \<Rightarrow> bool" where
  "waits_inv c th \<longleftrightarrow> sf_set_events c \<subseteq> {..<sf_next_event c}
     \<and> (\<forall>e. waker th e \<longrightarrow> e < sf_next_event c \<and> sf_loading c \<noteq> Some e)
     \<and> (\<forall>t e. th t = Waiting e \<longrightarrow> e \<in> sf_set_events c \<or> sf_loading c = Some e \<or> waker th e)"

lemma waker_update:
  assumes "\<And>x. th t \<noteq> Waking x"
  shows "waker (th(t := s)) e \<longleftrightarrow> s = Waking e \<or> waker th e"
  using assms unfolding waker_def by (metis fun_upd_apply)

lemma get_enter_cases:
  assumes "get_enter c now = (r, c')"
  shows "(\<And>x. r = Serve x \<Longrightarrow> c' = c \<and> x = sf_value c \<and> is_fresh_locked c now)"
    "(\<And>e. r = Join e \<Longrightarrow> c' = c \<and> sf_loading c = Some e)"
    "(\<And>e g. r = Begin e g \<Longrightarrow> sf_loading c = None \<and> e = sf_next_event c \<and> g = sf_generation c
       \<and> c' = c\<lparr>sf_loading := Some e, sf_next_event := Suc e\<rparr>)"
  using assms by (auto simp: get_enter_def split: if_splits option.splits)

lemma complete_fields [simp]:
  "sf_loading (complete_loading_locked e c) = (if sf_loading c = Some e then None else sf_loading c)"
  "sf_set_events (complete_loading_locked e c) = insert e (sf_set_events c)"
  "sf_next_event (complete_loading_locked e c) = sf_next_event c" "sf_generation (complete_loading_locked e c) = sf_generation c"
  "sf_cached (complete_loading_locked e c) = sf_cached c" "sf_value (complete_loading_locked e c) = sf_value c"
  "sf_loaded_at (complete_loading_locked e c) = sf_loaded_at c" "sf_loaded_ttl (complete_loading_locked e c) = sf_loaded_ttl c"
  by (simp_all add: complete_loading_locked_def Let_def)

lemma publish_fields [simp]:
  "sf_loading (publish e g v a l c) = (if sf_loading c = Some e then None else sf_loading c)"
  "sf_set_events (publish e g v a l c) = insert e (sf_set_events c)"
  "sf_next_event (publish e g v a l c) = sf_next_event c" "sf_generation (publish e g v a l c) = sf_generation c"
  by (simp_all add: publish_def)

text \<open>A load that ends, in whatever way, leaves the threads in order.\<close>

lemma loads_append:
  assumes "loads_inv c th lg"
  shows "loads_inv c th (lg @ xs)"
  using assms unfolding loads_inv_def by (metis append.assoc append_Cons)

lemma load_ends:
  assumes "loads_inv c th lg" "single_inv c th" "waits_inv c th" "th t = Loading e g"
    and c': "sf_loading c' = (if sf_loading c = Some e then None else sf_loading c)" "sf_set_events c' = insert e (sf_set_events c)"
      "sf_next_event c' = sf_next_event c" "sf_generation c' = sf_generation c"
  shows "loads_inv c' (th(t := Idle)) lg" "single_inv c' (th(t := Idle))" "waits_inv c' (th(t := Idle))"
proof -
  have single: "t = u" if "th u = Loading e g'" for u g' using assms(2,4) that unfolding single_inv_def by blast
  show "loads_inv c' (th(t := Idle)) lg"
    using assms(1) single unfolding loads_inv_def c' by (auto split: if_splits)
  show "single_inv c' (th(t := Idle))"
    using assms(2,4) unfolding single_inv_def c' by (auto split: if_splits) (metis thread_state.inject(2))
  have "e < sf_next_event c" using assms(1,4) unfolding loads_inv_def by blast
  moreover have "waker (th(t := Idle)) x \<longleftrightarrow> waker th x" for x using waker_update [of th t Idle x] assms(4) by simp
  ultimately show "waits_inv c' (th(t := Idle))"
    using assms(3) unfolding waits_inv_def c' by (auto split: if_splits) blast+
qed

lemma publish_cache:
  assumes "cache_inv c lg" "loads_inv c th lg" "th t = Loading e g"
  shows "cache_inv (publish e g v a l c) (lg @ [Published t e v a l])"
proof (cases "sf_generation c = g")
  case True
  obtain p q where pq: "lg = p @ Began t e # q" "invalidations p = g" using assms(2,3) unfolding loads_inv_def by blast
  then have "Invalidated \<notin> set q" using assms(1) True by (simp add: cache_inv_def no_invalidation [symmetric])
  then have "current (lg @ [Published t e v a l]) v a l"
    unfolding current_def pq(1) by (intro exI [of _ p] exI [of _ t] exI [of _ e] exI [of _ q] exI [of _ "[]"]) simp
  with True assms(1) show ?thesis by (simp add: cache_inv_def publish_def)
next
  case False
  with assms(1) current_append [of lg _ _ _ "[Published t e v a l]"] show ?thesis
    by (auto simp: cache_inv_def publish_def)
qed

definition flight_inv :: "'v flight_state \<Rightarrow> bool" where
  "flight_inv = (\<lambda>(c, th, lg). cache_inv c lg \<and> loads_inv c th lg \<and> single_inv c th \<and> waits_inv c th)"

lemma idle_inv:
  assumes "loads_inv c th lg" "single_inv c th" "waits_inv c th" "\<And>e g. th t \<noteq> Loading e g" "\<And>e. th t \<noteq> Waking e"
  shows "loads_inv c (th(t := Idle)) lg" "single_inv c (th(t := Idle))" "waits_inv c (th(t := Idle))"
    "sf_loading c = Some e \<Longrightarrow> waits_inv c (th(t := Waiting e))" "loads_inv c (th(t := Waiting e)) lg" "single_inv c (th(t := Waiting e))"
proof -
  show "loads_inv c (th(t := Idle)) lg" "loads_inv c (th(t := Waiting e)) lg" using assms(1) by (auto simp: loads_inv_def)
  show "single_inv c (th(t := Idle))" "single_inv c (th(t := Waiting e))" using assms(2,4) unfolding single_inv_def by (auto; metis)+
  show "waits_inv c (th(t := Idle))" "sf_loading c = Some e \<Longrightarrow> waits_inv c (th(t := Waiting e))"
    using assms(3) waker_update [of th t, OF assms(5)] unfolding waits_inv_def by (auto split: if_splits)
qed

lemma begin_inv:
  assumes "cache_inv c lg" "loads_inv c th lg" "single_inv c th" "waits_inv c th" "\<And>x y. th t \<noteq> Loading x y" "\<And>x. th t \<noteq> Waking x"
    and "sf_loading c = None" "e = sf_next_event c" "c' = c\<lparr>sf_loading := Some e, sf_next_event := Suc e\<rparr>"
  shows "loads_inv c' (th(t := Loading e (sf_generation c))) (lg @ [Began t e])"
    "single_inv c' (th(t := Loading e (sf_generation c)))" "waits_inv c' (th(t := Loading e (sf_generation c)))"
proof -
  have old: "\<And>u x g. th u = Loading x g \<Longrightarrow> x < e \<and> g \<noteq> sf_generation c"
    using assms(2,7,8) unfolding loads_inv_def by fastforce
  show "loads_inv c' (th(t := Loading e (sf_generation c))) (lg @ [Began t e])"
    unfolding loads_inv_def
  proof (intro allI impI)
    fix u x g assume l: "(th(t := Loading e (sf_generation c))) u = Loading x g"
    show "x < sf_next_event c' \<and> (\<exists>p q. lg @ [Began t e] = p @ Began u x # q \<and> invalidations p = g)
      \<and> (g = sf_generation c' \<longrightarrow> sf_loading c' = Some x)"
    proof (cases "u = t")
      case True
      with l assms(1,9) show ?thesis by (auto simp: cache_inv_def)
    next
      case False
      with l have "th u = Loading x g" by simp
      moreover obtain p q where "lg = p @ Began u x # q" "invalidations p = g"
        using assms(2) calculation unfolding loads_inv_def by blast
      ultimately show ?thesis using old [of u x g] assms(9) by auto
    qed
  qed
  show "single_inv c' (th(t := Loading e (sf_generation c)))"
    using assms(3,4,8,9) old unfolding single_inv_def waits_inv_def by (fastforce split: if_splits)
  show "waits_inv c' (th(t := Loading e (sf_generation c)))"
    using assms(4,7,8,9) waker_update [of th t, OF assms(6)] unfolding waits_inv_def by (fastforce split: if_splits)
qed

lemma invalidate_inv:
  assumes "cache_inv c lg" "loads_inv c th lg" "single_inv c th" "waits_inv c th" "th t = Idle" "invalidate_locked c = (loading, c')"
  defines "th' \<equiv> th(t := (case loading of None \<Rightarrow> Idle | Some e \<Rightarrow> Waking e))"
  shows "cache_inv c' (lg @ [Invalidated])" "loads_inv c' th' (lg @ [Invalidated])" "single_inv c' th'" "waits_inv c' th'"
proof -
  have c': "sf_generation c' = Suc (sf_generation c)" "sf_cached c' = False" "sf_loading c' = None" "loading = sf_loading c"
    "sf_next_event c' = sf_next_event c" "sf_set_events c' = sf_set_events c" using assms(6) by (auto simp: invalidate_locked_def)
  show "cache_inv c' (lg @ [Invalidated])" using assms(1) c' by (simp add: cache_inv_def)
  have old: "th' u = Loading x g \<Longrightarrow> th u = Loading x g" for u x g
    using assms(5) by (auto simp: th'_def split: if_splits option.splits)
  have "g \<le> sf_generation c" if l: "th u = Loading x g" for u x g
  proof -
    obtain p q where "lg = p @ Began u x # q" "invalidations p = g" using assms(2) l unfolding loads_inv_def by blast
    then show ?thesis using assms(1) by (simp add: cache_inv_def)
  qed
  then have gen: "g \<noteq> sf_generation c'" if "th u = Loading x g" for u x g using that unfolding c' by fastforce
  show "loads_inv c' th' (lg @ [Invalidated])"
    using loads_append [OF assms(2), of "[Invalidated]"] old gen c'(5) unfolding loads_inv_def by metis
  show "single_inv c' th'" using assms(3) old c'(3) unfolding single_inv_def by (metis option.distinct(1))
  have "waker th' x \<longleftrightarrow> sf_loading c = Some x \<or> waker th x" for x
    unfolding th'_def using waker_update [of th t _ x] assms(5) c'(4) by (auto split: option.splits)
  moreover have "th' u = Waiting x \<Longrightarrow> th u = Waiting x" for u x
    using assms(5) by (auto simp: th'_def split: if_splits option.splits)
  ultimately show "waits_inv c' th'"
    using assms(3,4) unfolding waits_inv_def single_inv_def c' by blast
qed

lemma wake_inv:
  assumes "loads_inv c th lg" "single_inv c th" "waits_inv c th" "th t = Waking e"
  shows "loads_inv (set_event e c) (th(t := Idle)) lg" "single_inv (set_event e c) (th(t := Idle))" "waits_inv (set_event e c) (th(t := Idle))"
proof -
  have e: "waker th e" using assms(4) by (auto simp: waker_def)
  show "loads_inv (set_event e c) (th(t := Idle)) lg" using assms(1) by (auto simp: loads_inv_def set_event_def)
  have "sf_loading c \<noteq> Some e" using assms(3) e unfolding waits_inv_def by blast
  then show "single_inv (set_event e c) (th(t := Idle))"
    using assms(2,4) unfolding single_inv_def set_event_def by (auto; metis thread_state.distinct)
  have "waker th x \<Longrightarrow> x = e \<or> waker (th(t := Idle)) x" for x
    using assms(4) unfolding waker_def by (metis fun_upd_apply thread_state.inject(3))
  moreover have "waker (th(t := Idle)) x \<Longrightarrow> waker th x" for x
    unfolding waker_def by (metis fun_upd_apply thread_state.distinct(5))
  ultimately show "waits_inv (set_event e c) (th(t := Idle))"
    using assms(3) e unfolding waits_inv_def set_event_def by (auto split: if_splits) blast
qed

lemma cache_inv_append:
  assumes "cache_inv c lg" "Invalidated \<notin> set xs"
  shows "cache_inv c (lg @ xs)"
proof -
  have "invalidations xs = 0" using assms(2) by (simp add: no_invalidation)
  then show ?thesis using assms current_append [OF _ assms(2)] by (auto simp: cache_inv_def)
qed

lemma cache_inv_cong:
  assumes "cache_inv c lg" "sf_generation c' = sf_generation c" "sf_cached c' = sf_cached c" "sf_value c' = sf_value c"
    "sf_loaded_at c' = sf_loaded_at c" "sf_loaded_ttl c' = sf_loaded_ttl c"
  shows "cache_inv c' lg"
  using assms by (simp add: cache_inv_def)

lemma get_finish_None: "get_finish f e g result a c = (None, c') \<Longrightarrow> c' = complete_loading_locked e c"
  by (auto simp: get_finish_def split: option.splits)

lemma get_finish_Some:
  "get_finish f e g (Some v) a c = (Some v, c') \<Longrightarrow>
   c' = publish e g v a (case f of None \<Rightarrow> sf_ttl_seconds c | Some f \<Rightarrow> f v) c"
  by (auto simp: get_finish_def valid_ttl_seconds_def split: option.splits if_splits)

lemma flight_step:
  assumes "flight_inv s" "sf_step f s s'"
  shows "flight_inv s'"
  using assms(2)
proof (cases rule: sf_step.cases)
  case (serve th t c now v c' lg)
  have inv: "cache_inv c lg" "loads_inv c th lg" "single_inv c th" "waits_inv c th" using assms(1) serve(1) by (simp_all add: flight_inv_def)
  have c': "c' = c" using get_enter_cases(1) [OF serve(4) refl] by simp
  have no: "\<And>x y. th t \<noteq> Loading x y" "\<And>x. th t \<noteq> Waking x" using serve(3) by auto
  show ?thesis unfolding serve(2) flight_inv_def c'
    using cache_inv_append [OF inv(1), of "[Served t v now]"] idle_inv(1-3) [OF inv(2-4) no] by (simp add: loads_append)
next
  case (join th t c now e c' lg)
  have inv: "cache_inv c lg" "loads_inv c th lg" "single_inv c th" "waits_inv c th" using assms(1) join(1) by (simp_all add: flight_inv_def)
  have c': "c' = c" "sf_loading c = Some e" using get_enter_cases(2) [OF join(4) refl] by simp_all
  have no: "\<And>x y. th t \<noteq> Loading x y" "\<And>x. th t \<noteq> Waking x" using join(3) by auto
  show ?thesis unfolding join(2) flight_inv_def c'(1) using inv(1) idle_inv(4-6) [OF inv(2-4) no] c'(2) by simp
next
  case (begin_load th t c now e g c' lg)
  have inv: "cache_inv c lg" "loads_inv c th lg" "single_inv c th" "waits_inv c th" using assms(1) begin_load(1) by (simp_all add: flight_inv_def)
  have c': "sf_loading c = None" "e = sf_next_event c" "g = sf_generation c" "c' = c\<lparr>sf_loading := Some e, sf_next_event := Suc e\<rparr>"
    using get_enter_cases(3) [OF begin_load(4) refl] by simp_all
  have no: "\<And>x y. th t \<noteq> Loading x y" "\<And>x. th t \<noteq> Waking x" using begin_load(3) by auto
  have "cache_inv c' (lg @ [Began t e])" by (rule cache_inv_cong [OF cache_inv_append [OF inv(1)]]) (simp_all add: c'(4))
  then show ?thesis unfolding begin_load(2) flight_inv_def c'(3) using begin_inv [OF inv no c'(1,2,4)] by simp
next
  case (loaded th t e g v a c c' lg)
  have inv: "cache_inv c lg" "loads_inv c th lg" "single_inv c th" "waits_inv c th" using assms(1) loaded(1) by (simp_all add: flight_inv_def)
  note c' = get_finish_Some [OF loaded(4)]
  show ?thesis unfolding loaded(2) flight_inv_def c'
    using publish_cache [OF inv(1,2) loaded(3)] load_ends [OF inv(2-4) loaded(3)] by (simp add: loads_append)
next
  case (failed th t e g result a c c' lg)
  have inv: "cache_inv c lg" "loads_inv c th lg" "single_inv c th" "waits_inv c th" using assms(1) failed(1) by (simp_all add: flight_inv_def)
  note c' = get_finish_None [OF failed(4)]
  have "cache_inv c' lg" by (rule cache_inv_cong [OF inv(1)]) (simp_all add: c')
  then show ?thesis unfolding failed(2) flight_inv_def c' using load_ends [OF inv(2-4) failed(3)] by simp
next
  case (invalidate th t c loading c' lg)
  have inv: "cache_inv c lg" "loads_inv c th lg" "single_inv c th" "waits_inv c th" using assms(1) invalidate(1) by (simp_all add: flight_inv_def)
  show ?thesis unfolding invalidate(2) flight_inv_def using invalidate_inv [OF inv invalidate(3,4)] by simp
next
  case (wake th t e c lg)
  have inv: "cache_inv c lg" "loads_inv c th lg" "single_inv c th" "waits_inv c th" using assms(1) wake(1) by (simp_all add: flight_inv_def)
  have "cache_inv (set_event e c) lg" by (rule cache_inv_cong [OF inv(1)]) (simp_all add: set_event_def)
  then show ?thesis unfolding wake(2) flight_inv_def using wake_inv [OF inv(2-4) wake(3)] by simp
qed

lemma reachable_inv: "sf_reachable ttl f s \<Longrightarrow> flight_inv s"
proof (induction rule: sf_reachable.induct)
  case (start c)
  then show ?case
    by (auto simp: flight_inv_def new_cache_def cache_inv_def loads_inv_def single_inv_def waits_inv_def waker_def)
qed (rule flight_step)

section \<open>A sample run\<close>

text \<open>Thread 0 loads and thread 1 joins it; thread 2 invalidates and wakes thread 1, which begins a second
  load while thread 0 is still loading; the first load publishes nothing, the second one is served.\<close>

definition sample_cache :: "nat \<Rightarrow> nat option \<Rightarrow> nat \<Rightarrow> nat set \<Rightarrow> int SingleFlight" where
  "sample_cache g loading next set_events = \<lparr>sf_ttl_seconds = 10, sf_cached = False, sf_value = None, sf_loaded_at = 0,
     sf_loaded_ttl = 10, sf_generation = g, sf_loading = loading, sf_next_event = next, sf_set_events = set_events\<rparr>"

definition sample_threads :: "thread_state \<Rightarrow> thread_state \<Rightarrow> thread_state \<Rightarrow> nat \<Rightarrow> thread_state" where
  "sample_threads a b c = (\<lambda>_. Idle)(0 := a, 1 := b, 2 := c)"

lemma sample_threads_simps [simp]:
  "sample_threads a b c 0 = a" "sample_threads a b c (Suc 0) = b" "sample_threads a b c 2 = c"
  "(sample_threads a b c)(0 := x) = sample_threads x b c"
  "(sample_threads a b c)(Suc 0 := x) = sample_threads a x c"
  "(sample_threads a b c)(2 := x) = sample_threads a b x"
  by (auto simp: sample_threads_def fun_eq_iff)

lemma sample_idle: "(\<lambda>_. Idle) = sample_threads Idle Idle Idle"
  by (auto simp: sample_threads_def fun_eq_iff)

lemmas sample_defs = sample_cache_def get_enter_def is_fresh_locked_def invalidate_locked_def set_event_def get_finish_def
  publish_def complete_loading_locked_def Let_def

lemma sample_joined: "sf_reachable 10 None (sample_cache 0 (Some 0) 1 {}, sample_threads (Loading 0 0) (Waiting 0) Idle, [Began 0 0])"
proof -
  have "sf_reachable 10 None (sample_cache 0 None 0 {}, sample_threads Idle Idle Idle, [])"
    using sf_reachable.start [of 10 "sample_cache 0 None 0 {}" None]
    by (simp add: sample_idle new_cache_def valid_ttl_seconds_def sample_cache_def)
  then have "sf_reachable 10 None (sample_cache 0 (Some 0) 1 {}, sample_threads (Loading 0 0) Idle Idle, [Began 0 0])"
    by (rule sf_reachable.step) (use sf_step.begin_load [of "sample_threads Idle Idle Idle" 0 "sample_cache 0 None 0 {}" 0 0 0 _ None "[]"]
      in \<open>simp add: sample_defs\<close>)
  then show ?thesis
    by (rule sf_reachable.step) (use sf_step.join [of "sample_threads (Loading 0 0) Idle Idle" 1 "sample_cache 0 (Some 0) 1 {}" 0 0 _ None "[Began 0 0]"]
      in \<open>simp add: sample_defs\<close>)
qed

lemma sample_fenced: "sf_reachable 10 None (sample_cache 1 (Some 1) 2 {0}, sample_threads (Loading 0 0) (Loading 1 1) (Waiting 1),
  [Began 0 0, Invalidated, Began 1 1])"
proof -
  have "sf_reachable 10 None (sample_cache 1 None 1 {}, sample_threads (Loading 0 0) (Waiting 0) (Waking 0), [Began 0 0, Invalidated])"
    by (rule sf_reachable.step [OF sample_joined]) (use sf_step.invalidate [of "sample_threads (Loading 0 0) (Waiting 0) Idle" 2
      "sample_cache 0 (Some 0) 1 {}" _ _ None "[Began 0 0]"] in \<open>simp add: sample_defs\<close>)
  then have "sf_reachable 10 None (sample_cache 1 None 1 {0}, sample_threads (Loading 0 0) (Waiting 0) Idle, [Began 0 0, Invalidated])"
    by (rule sf_reachable.step) (use sf_step.wake [of "sample_threads (Loading 0 0) (Waiting 0) (Waking 0)" 2 0 None
      "sample_cache 1 None 1 {}" "[Began 0 0, Invalidated]"] in \<open>simp add: sample_defs\<close>)
  then have "sf_reachable 10 None (sample_cache 1 (Some 1) 2 {0}, sample_threads (Loading 0 0) (Loading 1 1) Idle,
      [Began 0 0, Invalidated, Began 1 1])"
    by (rule sf_reachable.step) (use sf_step.begin_load [of "sample_threads (Loading 0 0) (Waiting 0) Idle" 1 "sample_cache 1 None 1 {0}" 1 1 1 _ None
      "[Began 0 0, Invalidated]"] in \<open>simp add: sample_defs numeral_2_eq_2\<close>)
  then show ?thesis
    by (rule sf_reachable.step) (use sf_step.join [of "sample_threads (Loading 0 0) (Loading 1 1) Idle" 2 "sample_cache 1 (Some 1) 2 {0}" 1 1 _ None
      "[Began 0 0, Invalidated, Began 1 1]"] in \<open>simp add: sample_defs\<close>)
qed

lemma sample_served: "\<exists>c th. sf_reachable 10 None (c :: int SingleFlight, th,
  [Began 0 0, Invalidated, Began 1 1, Published 0 0 5 1 10, Published 1 1 6 2 10] @ [Served 0 6 3])"
proof -
  have "sf_reachable 10 None (sample_cache 1 (Some 1) 2 {0}, sample_threads Idle (Loading 1 1) (Waiting 1),
      [Began 0 0, Invalidated, Began 1 1, Published 0 0 5 1 10])"
    by (rule sf_reachable.step [OF sample_fenced]) (use sf_step.loaded [of "sample_threads (Loading 0 0) (Loading 1 1) (Waiting 1)" 0 0 0 None 5 1
      "sample_cache 1 (Some 1) 2 {0}" _ "[Began 0 0, Invalidated, Began 1 1]"] in \<open>simp add: sample_defs\<close>)
  then have "sf_reachable 10 None ((sample_cache 1 None 2 {1, 0})\<lparr>sf_value := Some 6, sf_loaded_at := 2, sf_loaded_ttl := 10, sf_cached := True\<rparr>,
      sample_threads Idle Idle (Waiting 1), [Began 0 0, Invalidated, Began 1 1, Published 0 0 5 1 10, Published 1 1 6 2 10])"
    (is "sf_reachable _ _ (?c, ?th, ?lg)")
    by (rule sf_reachable.step) (use sf_step.loaded [of "sample_threads Idle (Loading 1 1) (Waiting 1)" 1 1 1 None 6 2
      "sample_cache 1 (Some 1) 2 {0}" _ "[Began 0 0, Invalidated, Began 1 1, Published 0 0 5 1 10]"] in \<open>simp add: sample_defs\<close>)
  then have "sf_reachable 10 None (?c, ?th, ?lg @ [Served 0 6 3])"
    by (rule sf_reachable.step) (use sf_step.serve [of ?th 0 ?c 3 6 _ None ?lg] in \<open>simp add: sample_defs\<close>)
  then show ?thesis by auto
qed

section \<open>Properties\<close>

text \<open>C17. A value served from the cache was loaded by a load that began after the last invalidation
  before it is served, however loads, failures and invalidations of other threads interleave, and is
  served within the TTL of its load.\<close>

theorem served_after_invalidation:
  assumes "sf_reachable ttl f (c, th, pre @ Served t v now # post)"
  shows "\<exists>p u e loaded_at l q r. pre = p @ Began u e # q @ Published u e v loaded_at l # r
    \<and> Invalidated \<notin> set q \<and> Invalidated \<notin> set r \<and> 0 \<le> now - loaded_at \<and> now - loaded_at \<le> l"
proof -
  have "\<exists>a l. current pre v a l \<and> 0 \<le> now - a \<and> now - a \<le> l" if "sf_reachable ttl f s" "snd (snd s) = pre @ Served t v now # post"
    for s pre post t v now
    using that
  proof (induction arbitrary: pre post t v now rule: sf_reachable.induct)
    case (step s s')
    show ?case
    proof (cases "\<exists>post'. snd (snd s) = pre @ Served t v now # post'")
      case True
      then show ?thesis using step.IH by blast
    next
      case False
      obtain c th lg where s: "s = (c, th, lg)" by (cases s)
      from step.hyps(2) [unfolded s] step.prems False s
      have "lg = pre \<and> post = [] \<and> (\<exists>c'. get_enter c now = (Serve (Some v), c'))"
        by (cases rule: sf_stepE) (auto simp: append_eq_append_conv2 append_eq_Cons_conv Cons_eq_append_conv)
      then have "sf_cached c" "sf_value c = Some v" "lg = pre" "0 \<le> now - sf_loaded_at c" "now - sf_loaded_at c \<le> sf_loaded_ttl c"
        using get_enter_cases(1) by (force simp: is_fresh_locked_def Let_def split: if_splits)+
      moreover have "cache_inv c lg" using reachable_inv [OF step.hyps(1)] s by (simp add: flight_inv_def)
      ultimately show ?thesis by (auto simp: cache_inv_def)
    qed
  qed simp
  from this [OF assms, of pre t v now post] obtain a l where "current pre v a l" "0 \<le> now - a" "now - a \<le> l" by auto
  then show ?thesis unfolding current_def by blast
qed

theorem served_after_invalidation_witness:
  "\<exists>c th. sf_reachable 10 None (c :: int SingleFlight, th,
      [Began 0 0, Invalidated, Began 1 1, Published 0 0 5 1 10, Published 1 1 6 2 10] @ [Served 0 6 3])
    \<and> (\<exists>p u e loaded_at l q r. [Began 0 0, Invalidated, Began 1 1, Published 0 0 (5 :: int) 1 10, Published 1 1 6 2 10]
          = p @ Began u e # q @ Published u e 6 loaded_at l # r
        \<and> Invalidated \<notin> set q \<and> Invalidated \<notin> set r \<and> 0 \<le> 3 - loaded_at \<and> 3 - loaded_at \<le> l)"
proof -
  obtain c th where r: "sf_reachable 10 None (c :: int SingleFlight, th,
      [Began 0 0, Invalidated, Began 1 1, Published 0 0 5 1 10, Published 1 1 6 2 10] @ [Served 0 6 3])" using sample_served by blast
  show ?thesis by (intro exI [of _ c] exI [of _ th] conjI r served_after_invalidation [OF r])
qed

text \<open>C38. Loads are shared and no waiter is lost: in every reachable state at most one load runs that
  could still publish, and a thread waiting for an event that is not set waits for a load that is
  running or for an invalidation that is about to set it.\<close>

theorem single_flight:
  assumes "sf_reachable ttl f (c, th, lg)"
  shows "(\<forall>t u e e'. th t = Loading e (sf_generation c) \<and> th u = Loading e' (sf_generation c) \<longrightarrow> t = u)
    \<and> (\<forall>t e. th t = Waiting e \<and> e \<notin> sf_set_events c \<longrightarrow> (\<exists>u g. th u = Loading e g) \<or> (\<exists>u. th u = Waking e))"
proof -
  have inv: "loads_inv c th lg" "single_inv c th" "waits_inv c th" using reachable_inv [OF assms] by (auto simp: flight_inv_def)
  have "t = u" if "th t = Loading e (sf_generation c)" "th u = Loading e' (sf_generation c)" for t u e e'
  proof -
    have "sf_loading c = Some e" "sf_loading c = Some e'" using inv(1) that unfolding loads_inv_def by blast+
    then show ?thesis using inv(2) that unfolding single_inv_def by auto
  qed
  moreover have "(\<exists>u g. th u = Loading e g) \<or> (\<exists>u. th u = Waking e)" if "th t = Waiting e" "e \<notin> sf_set_events c" for t e
    using inv(2,3) that unfolding waits_inv_def single_inv_def waker_def by blast
  ultimately show ?thesis by blast
qed

theorem single_flight_witness:
  "sf_reachable 10 None (sample_cache 1 (Some 1) 2 {0}, sample_threads (Loading 0 0) (Loading 1 1) (Waiting 1),
      [Began 0 0, Invalidated, Began 1 1])
    \<and> (\<exists>u g. sample_threads (Loading 0 0) (Loading 1 1) (Waiting 1) u = Loading 1 g)"
proof -
  have "(\<exists>u g. sample_threads (Loading 0 0) (Loading 1 1) (Waiting 1) u = Loading 1 g)
      \<or> (\<exists>u. sample_threads (Loading 0 0) (Loading 1 1) (Waiting 1) u = Waking 1)"
    using single_flight [OF sample_fenced, THEN conjunct2, THEN spec [of _ 2], THEN spec [of _ 1]]
    by (simp only: sample_threads_simps sample_cache_def SingleFlight.simps insert_iff empty_iff one_neq_zero simp_thms)
  then show ?thesis using sample_fenced by (auto simp: sample_threads_def split: if_splits)
qed

end
