(* ===== verification/Exec_Fence.thy ===== *)
theory Exec_Fence
  imports Prelude
begin

text \<open>
  The lifecycle fence of one sandbox id. In the agent, \<open>SandboxLifecycleCoordinator\<close>
  (\<open>src/ucloud_sandboxes/sandbox.py\<close>) and \<open>DirectLifecycle\<close> (\<open>node_runtime.py\<close>) admit transitions and
  exec or file activity; across the agent and the node daemon the two flock files of
  \<open>src/ucloud_sandboxes/exec_fence.py\<close> do, which \<open>src/runtime/noded/src/exec_fence.rs\<close> and
  \<open>pause_policy/fence.rs\<close> lock too.

  The coordinator is a record with one function per method. A file is the inode its path names, if any;
  a lock is on an inode, which may have been unlinked since. Every system call of the lockers is a step
  of \<open>fence_step\<close>, labelled with the operation that makes it, so that operations of both processes
  interleave between opening, locking and checking a file.
\<close>

section \<open>The coordinator of the agent\<close>

record coordinator =
  co_shared :: "(string, nat) dict"
  co_exclusive :: "string set"

definition co_new :: coordinator where
  "co_new = \<lparr>co_shared = [], co_exclusive = {}\<rparr>"

definition co_count :: "string \<Rightarrow> coordinator \<Rightarrow> nat" where
  "co_count sid c = (case dict_get (co_shared c) sid of None \<Rightarrow> 0 | Some n \<Rightarrow> n)"

definition co_is_idle :: "string \<Rightarrow> coordinator \<Rightarrow> bool" where
  "co_is_idle sid c \<longleftrightarrow> sid \<notin> co_exclusive c \<and> co_count sid c = 0"

text \<open>\<open>None\<close> is \<open>SandboxBusyError\<close>; with \<open>join_transition\<close> the caller first waits, at most for its timeout.\<close>

definition co_acquire_shared :: "string \<Rightarrow> coordinator \<Rightarrow> coordinator option" where
  "co_acquire_shared sid c =
     (if sid \<in> co_exclusive c then None
      else Some (c\<lparr>co_shared := AList.update sid (co_count sid c + 1) (co_shared c)\<rparr>))"

definition co_release_shared :: "string \<Rightarrow> coordinator \<Rightarrow> coordinator" where
  "co_release_shared sid c =
     (if co_count sid c \<le> 1 then c\<lparr>co_shared := AList.delete sid (co_shared c)\<rparr>
      else c\<lparr>co_shared := AList.update sid (co_count sid c - 1) (co_shared c)\<rparr>)"

definition co_conflicts :: "string list \<Rightarrow> bool \<Rightarrow> coordinator \<Rightarrow> string list" where
  "co_conflicts sids allow_shared c =
     filter (\<lambda>sid. sid \<in> co_exclusive c \<or> (\<not> allow_shared \<and> 0 < co_count sid c)) (sort (remdups sids))"

definition co_enter_exclusive :: "string list \<Rightarrow> bool \<Rightarrow> coordinator \<Rightarrow> coordinator option" where
  "co_enter_exclusive sids allow_shared c =
     (if co_conflicts sids allow_shared c \<noteq> [] then None else Some (c\<lparr>co_exclusive := co_exclusive c \<union> set sids\<rparr>))"

definition co_leave_exclusive :: "string list \<Rightarrow> coordinator \<Rightarrow> coordinator" where
  "co_leave_exclusive sids c = c\<lparr>co_exclusive := co_exclusive c - set sids\<rparr>"

lemma co_count_simps [simp]:
  "co_count sid (co_leave_exclusive sids c) = co_count sid c"
  "co_exclusive (co_release_shared sid c) = co_exclusive c"
  "co_count sid (co_release_shared sid c) = co_count sid c - 1"
  "co_count sid co_new = 0" "co_exclusive co_new = {}"
  "co_exclusive (co_leave_exclusive sids c) = co_exclusive c - set sids"
  by (auto simp: co_count_def co_leave_exclusive_def co_release_shared_def co_new_def update_conv' delete_conv' split: option.splits)

lemma co_acquire_SomeD:
  "co_acquire_shared sid c = Some c' \<Longrightarrow> sid \<notin> co_exclusive c \<and> co_exclusive c' = co_exclusive c \<and> co_count sid c' = Suc (co_count sid c)"
  by (auto simp: co_acquire_shared_def co_count_def update_conv' split: if_splits)

lemma co_enter_SomeD:
  "co_enter_exclusive [sid] allow_shared c = Some c' \<Longrightarrow> sid \<notin> co_exclusive c \<and> co_exclusive c' = insert sid (co_exclusive c)
    \<and> co_count sid c' = co_count sid c \<and> (allow_shared \<or> co_count sid c = 0)"
  by (auto simp: co_enter_exclusive_def co_conflicts_def co_count_def split: if_splits)

section \<open>The files\<close>

text \<open>\<open>T_file\<close> is \<open>.<id>.transition\<close>, \<open>A_file\<close> is \<open>.<id>.activity\<close>.\<close>

datatype fence_file = T_file | A_file

text \<open>What an operation does to the fence. Parks and pauses of the agent are transitions without
  \<open>allow_shared\<close>; wakes and deletes allow shared activity, and a delete ends with \<open>discard\<close>.
  \<open>Agent_Activity\<close> is \<open>DirectLifecycle.acquire_shared\<close>, which takes the activity file when its flag is set.
  \<open>Noded_Exec\<close> is \<open>ExecFence::acquire\<close>, \<open>Noded_Pause\<close> is \<open>PauseFence::try_exclusive\<close> and
  \<open>Agent_Probe\<close> is \<open>activity_idle\<close>.\<close>

datatype op = Agent_Park | Agent_Wake | Agent_Delete | Agent_Activity bool | Agent_Probe | Noded_Exec | Noded_Pause

datatype phase =
    Idle | Opening fence_file | Opened fence_file nat | Locked fence_file nat
  | Section | Released_A | Unlinked_A | Unlinked_T
  | Leaving nat | Active nat | Unfenced | Exiting
  | Probing nat | Probed nat

text \<open>\<open>fn_deletes\<close> counts the deletes that have unlinked the activity file: the incarnation of the id.
  An activity carries the incarnation in which it began.\<close>

record fence =
  fn_link :: "fence_file \<Rightarrow> nat option"
  fn_next :: nat
  fn_locks :: "(nat \<times> fence_file \<times> nat \<times> bool) list"
  fn_held :: bool
  fn_co :: coordinator
  fn_deletes :: nat
  fn_phase :: "nat \<Rightarrow> phase"

definition fence_new :: fence where
  "fence_new = \<lparr>fn_link = (\<lambda>_. None), fn_next = 0, fn_locks = [], fn_held = False, fn_co = co_new, fn_deletes = 0, fn_phase = (\<lambda>_. Idle)\<rparr>"

definition id_char :: "char \<Rightarrow> bool" where
  "id_char c \<longleftrightarrow> (CHR ''A'' \<le> c \<and> c \<le> CHR ''Z'') \<or> (CHR ''a'' \<le> c \<and> c \<le> CHR ''z'') \<or> (CHR ''0'' \<le> c \<and> c \<le> CHR ''9'')"

definition safe_id :: "string \<Rightarrow> bool" where
  "safe_id sid \<longleftrightarrow> sid \<noteq> [] \<and> length sid \<le> 64 \<and> id_char (hd sid)
     \<and> list_all (\<lambda>c. id_char c \<or> c \<in> {CHR ''_'', CHR ''.'', CHR ''-''}) sid"

definition transition_op :: "op \<Rightarrow> bool" where
  "transition_op k \<longleftrightarrow> k \<in> {Agent_Park, Agent_Wake, Agent_Delete}"

definition allow_shared :: "op \<Rightarrow> bool" where
  "allow_shared k \<longleftrightarrow> k \<in> {Agent_Wake, Agent_Delete}"

definition exclusive :: "op \<Rightarrow> bool" where
  "exclusive k \<longleftrightarrow> transition_op k \<or> k = Noded_Pause \<or> k = Agent_Probe"

definition activity_op :: "op \<Rightarrow> bool" where
  "activity_op k \<longleftrightarrow> k \<in> {Agent_Activity True, Agent_Activity False}"

text \<open>\<open>LOCK_NB\<close>: the agent blocks for the transition file in a transition, and for the activity file in
  \<open>hold_activity\<close>; noded never blocks.\<close>

definition nonblocking :: "op \<Rightarrow> fence_file \<Rightarrow> bool" where
  "nonblocking k f = (if transition_op k then f = A_file else if activity_op k then f = T_file else True)"

text \<open>\<open>O_CREAT\<close>: all but the pauses of noded, which do not make an activity file.\<close>

definition open_file :: "bool \<Rightarrow> fence_file \<Rightarrow> fence \<Rightarrow> nat option \<times> fence" where
  "open_file create f s =
     (case fn_link s f of
        Some i \<Rightarrow> (Some i, s)
      | None \<Rightarrow>
          if create then (Some (fn_next s), s\<lparr>fn_link := (fn_link s)(f := Some (fn_next s)), fn_next := Suc (fn_next s)\<rparr>)
          else (None, s))"

definition creates_file :: "op \<Rightarrow> fence_file \<Rightarrow> bool" where
  "creates_file k f \<longleftrightarrow> \<not> (k = Noded_Pause \<and> f = A_file)"

definition flock_free :: "fence_file \<Rightarrow> nat \<Rightarrow> bool \<Rightarrow> fence \<Rightarrow> bool" where
  "flock_free f i ex s = list_all (\<lambda>(q, g, j, ex'). (g, j) \<noteq> (f, i) \<or> (\<not> ex \<and> \<not> ex')) (fn_locks s)"

definition flock :: "nat \<Rightarrow> fence_file \<Rightarrow> nat \<Rightarrow> bool \<Rightarrow> fence \<Rightarrow> fence" where
  "flock p f i ex s = s\<lparr>fn_locks := (p, f, i, ex) # fn_locks s\<rparr>"

definition close_fd :: "nat \<Rightarrow> fence_file \<Rightarrow> fence \<Rightarrow> fence" where
  "close_fd p f s = s\<lparr>fn_locks := filter (\<lambda>(q, g, _). \<not> (q = p \<and> g = f)) (fn_locks s)\<rparr>"

definition unlink :: "fence_file \<Rightarrow> fence \<Rightarrow> fence" where
  "unlink f s = s\<lparr>fn_link := (fn_link s)(f := None)\<rparr>"

definition goto :: "nat \<Rightarrow> phase \<Rightarrow> fence \<Rightarrow> fence" where
  "goto p h s = s\<lparr>fn_phase := (fn_phase s)(p := h)\<rparr>"

text \<open>Where an operation goes once a lock is on the inode that the path names.\<close>

definition after_lock :: "op \<Rightarrow> fence_file \<Rightarrow> nat \<Rightarrow> phase" where
  "after_lock k f incarnation =
     (if f = T_file then (if allow_shared k then Section else Opening A_file)
      else if exclusive k then Section else Leaving incarnation)"

text \<open>An operation of the agent still has to leave the coordinator.\<close>

definition ended :: "op \<Rightarrow> phase" where
  "ended k = (if transition_op k \<or> activity_op k then Exiting else Idle)"

definition leave_coordinator :: "op \<Rightarrow> string \<Rightarrow> coordinator \<Rightarrow> coordinator" where
  "leave_coordinator k sid c = (if transition_op k then co_leave_exclusive [sid] c else co_release_shared sid c)"

section \<open>Interleaved operations\<close>

inductive fence_step :: "(nat \<Rightarrow> op) \<Rightarrow> string \<Rightarrow> nat \<Rightarrow> fence \<Rightarrow> fence \<Rightarrow> bool" for kind sid where
  enter_transition: "fn_phase s p = Idle \<Longrightarrow> transition_op (kind p) \<Longrightarrow>
    co_enter_exclusive [sid] (allow_shared (kind p)) (fn_co s) = Some c \<Longrightarrow>
    fence_step kind sid p s (goto p (Opening T_file) (s\<lparr>fn_co := c\<rparr>))"
| enter_activity: "fn_phase s p = Idle \<Longrightarrow> kind p = Agent_Activity fenced \<Longrightarrow> co_acquire_shared sid (fn_co s) = Some c \<Longrightarrow>
    fence_step kind sid p s (goto p (if fenced then Opening T_file else Unfenced) (s\<lparr>fn_co := c\<rparr>))"
| enter_noded: "fn_phase s p = Idle \<Longrightarrow> kind p = Noded_Exec \<or> kind p = Noded_Pause \<Longrightarrow>
    fence_step kind sid p s (goto p (Opening T_file) s)"
| opens: "fn_phase s p = Opening f \<Longrightarrow> safe_id sid \<Longrightarrow> open_file (creates_file (kind p) f) f s = (Some i, s') \<Longrightarrow>
    fence_step kind sid p s (goto p (Opened f i) s')"
| absent: "fn_phase s p = Opening f \<Longrightarrow> safe_id sid \<Longrightarrow> open_file (creates_file (kind p) f) f s = (None, s') \<Longrightarrow>
    fence_step kind sid p s (goto p Section s')"
| locks: "fn_phase s p = Opened f i \<Longrightarrow> flock_free f i (exclusive (kind p)) s \<Longrightarrow>
    fence_step kind sid p s (goto p (Locked f i) (flock p f i (exclusive (kind p)) s))"
| busy: "fn_phase s p = Opened f i \<Longrightarrow> nonblocking (kind p) f \<Longrightarrow> \<not> flock_free f i (exclusive (kind p)) s \<Longrightarrow>
    fence_step kind sid p s (goto p (if activity_op (kind p) then Opening T_file else ended (kind p)) (close_fd p T_file s))"
| named: "fn_phase s p = Locked f i \<Longrightarrow> fn_link s f = Some i \<Longrightarrow>
    fence_step kind sid p s (goto p (after_lock (kind p) f (fn_deletes s))
      (s\<lparr>fn_held := (fn_held s \<or> transition_op (kind p) \<and> after_lock (kind p) f (fn_deletes s) = Section)\<rparr>))"
| renamed: "fn_phase s p = Locked f i \<Longrightarrow> fn_link s f \<noteq> Some i \<Longrightarrow>
    fence_step kind sid p s (goto p (Opening f) (close_fd p f s))"
| fails: "fn_phase s p = Opening f \<or> fn_phase s p = Opened f i \<or> fn_phase s p = Locked f i \<Longrightarrow>
    fence_step kind sid p s (goto p (ended (kind p)) (close_fd p T_file (close_fd p A_file s)))"
| discard_activity: "fn_phase s p = Section \<Longrightarrow> kind p = Agent_Delete \<Longrightarrow> fn_held s \<Longrightarrow>
    fence_step kind sid p s (goto p Unlinked_A ((unlink A_file s)\<lparr>fn_deletes := Suc (fn_deletes s)\<rparr>))"
| discard_transition: "fn_phase s p = Unlinked_A \<Longrightarrow> fence_step kind sid p s (goto p Unlinked_T (unlink T_file s))"
| leaves: "fn_phase s p = Section \<Longrightarrow>
    fence_step kind sid p s (goto p Released_A (close_fd p A_file (s\<lparr>fn_held := (fn_held s \<and> \<not> transition_op (kind p))\<rparr>)))"
| closes: "fn_phase s p = Released_A \<or> fn_phase s p = Unlinked_A \<or> fn_phase s p = Unlinked_T \<Longrightarrow>
    fence_step kind sid p s (goto p (ended (kind p)) (close_fd p T_file (s\<lparr>fn_held := (fn_held s \<and> \<not> transition_op (kind p))\<rparr>)))"
| drops: "fn_phase s p = Leaving b \<Longrightarrow> fence_step kind sid p s (goto p (Active b) (close_fd p T_file s))"
| releases: "fn_phase s p = Active b \<Longrightarrow> fence_step kind sid p s (goto p (ended (kind p)) (close_fd p A_file s))"
| unfenced: "fn_phase s p = Unfenced \<Longrightarrow> fence_step kind sid p s (goto p Exiting s)"
| exits: "fn_phase s p = Exiting \<Longrightarrow>
    fence_step kind sid p s (goto p Idle (s\<lparr>fn_co := leave_coordinator (kind p) sid (fn_co s)\<rparr>))"
| touches: "open_file True A_file s = (Some i, s') \<Longrightarrow> fence_step kind sid p s s'"
| probe_opens: "fn_phase s p = Idle \<Longrightarrow> kind p = Agent_Probe \<Longrightarrow> open_file False A_file s = (Some i, s') \<Longrightarrow>
    fence_step kind sid p s (goto p (Probing i) s')"
| probe_locks: "fn_phase s p = Probing i \<Longrightarrow> flock_free A_file i True s \<Longrightarrow>
    fence_step kind sid p s (goto p (Probed i) (flock p A_file i True s))"
| probe_busy: "fn_phase s p = Probing i \<Longrightarrow> \<not> flock_free A_file i True s \<Longrightarrow> fence_step kind sid p s (goto p Idle s)"
| probe_closes: "fn_phase s p = Probed i \<Longrightarrow> fence_step kind sid p s (goto p Idle (close_fd p A_file s))"

inductive fence_reachable :: "(nat \<Rightarrow> op) \<Rightarrow> string \<Rightarrow> fence \<Rightarrow> bool" for kind sid where
  start: "fence_reachable kind sid fence_new"
| step: "fence_reachable kind sid s \<Longrightarrow> fence_step kind sid p s s' \<Longrightarrow> fence_reachable kind sid s'"

text \<open>What an operation does next when no system call fails; \<open>None\<close> is waiting.\<close>

definition advance :: "(nat \<Rightarrow> op) \<Rightarrow> string \<Rightarrow> nat \<Rightarrow> fence \<Rightarrow> fence option" where
  "advance kind sid p s =
     (case fn_phase s p of
        Idle \<Rightarrow>
          if transition_op (kind p)
          then map_option (\<lambda>c. goto p (Opening T_file) (s\<lparr>fn_co := c\<rparr>)) (co_enter_exclusive [sid] (allow_shared (kind p)) (fn_co s))
          else if activity_op (kind p)
          then map_option (\<lambda>c. goto p (if kind p = Agent_Activity True then Opening T_file else Unfenced) (s\<lparr>fn_co := c\<rparr>))
            (co_acquire_shared sid (fn_co s))
          else if kind p = Agent_Probe
          then (case open_file False A_file s of (Some i, s') \<Rightarrow> Some (goto p (Probing i) s') | (None, _) \<Rightarrow> None)
          else Some (goto p (Opening T_file) s)
      | Opening f \<Rightarrow>
          if \<not> safe_id sid then Some (goto p (ended (kind p)) (close_fd p T_file (close_fd p A_file s)))
          else (case open_file (creates_file (kind p) f) f s of
                  (Some i, s') \<Rightarrow> Some (goto p (Opened f i) s')
                | (None, s') \<Rightarrow> Some (goto p Section s'))
      | Opened f i \<Rightarrow>
          if flock_free f i (exclusive (kind p)) s then Some (goto p (Locked f i) (flock p f i (exclusive (kind p)) s))
          else if nonblocking (kind p) f
          then Some (goto p (if activity_op (kind p) then Opening T_file else ended (kind p)) (close_fd p T_file s))
          else None
      | Locked f i \<Rightarrow>
          if fn_link s f = Some i
          then Some (goto p (after_lock (kind p) f (fn_deletes s))
            (s\<lparr>fn_held := (fn_held s \<or> transition_op (kind p) \<and> after_lock (kind p) f (fn_deletes s) = Section)\<rparr>))
          else Some (goto p (Opening f) (close_fd p f s))
      | Section \<Rightarrow>
          if kind p = Agent_Delete \<and> fn_held s then Some (goto p Unlinked_A ((unlink A_file s)\<lparr>fn_deletes := Suc (fn_deletes s)\<rparr>))
          else Some (goto p Released_A (close_fd p A_file (s\<lparr>fn_held := (fn_held s \<and> \<not> transition_op (kind p))\<rparr>)))
      | Unlinked_A \<Rightarrow> Some (goto p Unlinked_T (unlink T_file s))
      | Unlinked_T \<Rightarrow> Some (goto p (ended (kind p)) (close_fd p T_file (s\<lparr>fn_held := (fn_held s \<and> \<not> transition_op (kind p))\<rparr>)))
      | Released_A \<Rightarrow> Some (goto p (ended (kind p)) (close_fd p T_file (s\<lparr>fn_held := (fn_held s \<and> \<not> transition_op (kind p))\<rparr>)))
      | Leaving b \<Rightarrow> Some (goto p (Active b) (close_fd p T_file s))
      | Active b \<Rightarrow> Some (goto p (ended (kind p)) (close_fd p A_file s))
      | Unfenced \<Rightarrow> Some (goto p Exiting s)
      | Exiting \<Rightarrow> Some (goto p Idle (s\<lparr>fn_co := leave_coordinator (kind p) sid (fn_co s)\<rparr>))
      | Probing i \<Rightarrow>
          if flock_free A_file i True s then Some (goto p (Probed i) (flock p A_file i True s)) else Some (goto p Idle s)
      | Probed i \<Rightarrow> Some (goto p Idle (close_fd p A_file s)))"

lemma advance_step:
  assumes "advance kind sid p s = Some s'"
  shows "fence_step kind sid p s s'"
proof (cases "fn_phase s p = Idle")
  case True
  consider "transition_op (kind p)" | fenced where "kind p = Agent_Activity fenced" | "kind p = Agent_Probe" | "kind p = Noded_Exec \<or> kind p = Noded_Pause"
    by (cases "kind p") (auto simp: transition_op_def)
  then show ?thesis
  proof cases
    case 1
    then show ?thesis using assms True unfolding advance_def by (auto intro: fence_step.enter_transition)
  next
    case 2
    then obtain c where "co_acquire_shared sid (fn_co s) = Some c" "s' = goto p (if fenced then Opening T_file else Unfenced) (s\<lparr>fn_co := c\<rparr>)"
      using assms True unfolding advance_def by (auto simp: activity_op_def transition_op_def split: if_splits)
    then show ?thesis using fence_step.enter_activity [of s p kind fenced sid c, OF True 2] by simp
  next
    case 3
    then show ?thesis using assms True unfolding advance_def
      by (auto simp: activity_op_def transition_op_def intro: fence_step.probe_opens split: prod.splits option.splits)
  next
    case 4
    then show ?thesis using assms True unfolding advance_def
      by (auto simp: activity_op_def transition_op_def intro: fence_step.enter_noded)
  qed
next
  case False
  have busy: "fence_step kind sid p s (goto p (if activity_op (kind p) then Opening T_file else ended (kind p)) (close_fd p T_file s))"
    if "fn_phase s p = Opened f i" "\<not> flock_free f i (exclusive (kind p)) s" "nonblocking (kind p) f" for f i
    using fence_step.busy [of s p f i kind sid, OF that(1,3,2)] .
  from False assms busy show ?thesis unfolding advance_def
    by (cases "fn_phase s p") (auto intro: fence_step.intros split: if_splits option.splits prod.splits)
qed

definition waits_on :: "(nat \<Rightarrow> op) \<Rightarrow> fence \<Rightarrow> nat \<Rightarrow> nat \<Rightarrow> bool" where
  "waits_on kind s p q = (case fn_phase s p of
     Opened f i \<Rightarrow> list_ex (\<lambda>(r, g, j, ex). r = q \<and> (g, j) = (f, i) \<and> (ex \<or> exclusive (kind p))) (fn_locks s)
   | _ \<Rightarrow> False)"

section \<open>The invariant of the files\<close>

text \<open>The phases in which an operation has a checked lock on the transition file.\<close>

fun t_held :: "phase \<Rightarrow> bool" where
  "t_held (Opening f) = (f = A_file)"
| "t_held (Opened f i) = (f = A_file)"
| "t_held (Locked f i) = (f = A_file)"
| "t_held h = (h \<in> {Section, Released_A, Unlinked_A} \<or> (\<exists>b. h = Leaving b))"

fun may_hold :: "op \<Rightarrow> phase \<Rightarrow> fence_file \<Rightarrow> bool" where
  "may_hold k h T_file = (t_held h \<or> h = Unlinked_T \<or> (\<exists>i. h = Locked T_file i))"
| "may_hold k h A_file = (h = Section \<and> \<not> allow_shared k \<or> (\<exists>i. h = Locked A_file i) \<or> (\<exists>b. h = Leaving b) \<or> (\<exists>b. h = Active b) \<or> (\<exists>i. h = Probed i))"

fun phase_of :: "op \<Rightarrow> phase \<Rightarrow> bool" where
  "phase_of k Idle = True"
| "phase_of k (Opening f) = (k \<noteq> Agent_Probe \<and> (f = A_file \<longrightarrow> \<not> allow_shared k))"
| "phase_of k (Opened f i) = (k \<noteq> Agent_Probe \<and> (f = A_file \<longrightarrow> \<not> allow_shared k))"
| "phase_of k (Locked f i) = (k \<noteq> Agent_Probe \<and> (f = A_file \<longrightarrow> \<not> allow_shared k))"
| "phase_of k Section = (k \<noteq> Agent_Probe \<and> exclusive k)"
| "phase_of k Released_A = (k \<noteq> Agent_Probe \<and> exclusive k)"
| "phase_of k Unlinked_A = (k = Agent_Delete)"
| "phase_of k Unlinked_T = (k = Agent_Delete)"
| "phase_of k (Leaving b) = (\<not> exclusive k)"
| "phase_of k (Active b) = (\<not> exclusive k)"
| "phase_of k Unfenced = activity_op k"
| "phase_of k Exiting = (transition_op k \<or> activity_op k)"
| "phase_of k (Probing i) = (k = Agent_Probe)"
| "phase_of k (Probed i) = (k = Agent_Probe)"

definition inv_phase :: "(nat \<Rightarrow> op) \<Rightarrow> fence \<Rightarrow> bool" where
  "inv_phase kind s \<longleftrightarrow> (\<forall>p. phase_of (kind p) (fn_phase s p))"

definition inv_locks :: "(nat \<Rightarrow> op) \<Rightarrow> fence \<Rightarrow> bool" where
  "inv_locks kind s \<longleftrightarrow> (\<forall>p f i ex. (p, f, i, ex) \<in> set (fn_locks s) \<longrightarrow> ex = exclusive (kind p) \<and> may_hold (kind p) (fn_phase s p) f)"

definition inv_locked :: "(nat \<Rightarrow> op) \<Rightarrow> fence \<Rightarrow> bool" where
  "inv_locked kind s \<longleftrightarrow> (\<forall>p f i. fn_phase s p = Locked f i \<longrightarrow> (p, f, i, exclusive (kind p)) \<in> set (fn_locks s))"

definition inv_compat :: "fence \<Rightarrow> bool" where
  "inv_compat s \<longleftrightarrow> (\<forall>p q f i ex ex'. (p, f, i, ex) \<in> set (fn_locks s) \<longrightarrow> (q, f, i, ex') \<in> set (fn_locks s) \<longrightarrow> p \<noteq> q \<longrightarrow> \<not> ex \<and> \<not> ex')"

definition inv_t :: "(nat \<Rightarrow> op) \<Rightarrow> fence \<Rightarrow> bool" where
  "inv_t kind s \<longleftrightarrow> (\<forall>p. t_held (fn_phase s p) \<longrightarrow>
     (\<exists>i. fn_link s T_file = Some i \<and> (p, T_file, i, exclusive (kind p)) \<in> set (fn_locks s)))"

fun birth :: "phase \<Rightarrow> nat option" where
  "birth (Leaving b) = Some b"
| "birth (Active b) = Some b"
| "birth _ = None"

definition inv_a :: "(nat \<Rightarrow> op) \<Rightarrow> fence \<Rightarrow> bool" where
  "inv_a kind s \<longleftrightarrow> (\<forall>p b. birth (fn_phase s p) = Some b \<longrightarrow>
     b \<le> fn_deletes s \<and> (b = fn_deletes s \<longrightarrow> (\<exists>i. fn_link s A_file = Some i \<and> (p, A_file, i, exclusive (kind p)) \<in> set (fn_locks s))))"

definition inv_x :: "(nat \<Rightarrow> op) \<Rightarrow> fence \<Rightarrow> bool" where
  "inv_x kind s \<longleftrightarrow> (\<forall>p q b. fn_phase s p = Section \<longrightarrow> \<not> allow_shared (kind p) \<longrightarrow> birth (fn_phase s q) = Some b \<longrightarrow> b < fn_deletes s)"

lemma birth_Some: "birth h = Some b \<longleftrightarrow> h = Leaving b \<or> h = Active b"
  by (cases h) auto

lemma not_T_file [simp]: "f \<noteq> T_file \<longleftrightarrow> f = A_file" "T_file \<noteq> f \<longleftrightarrow> f = A_file"
  and not_A_file [simp]: "f \<noteq> A_file \<longleftrightarrow> f = T_file" "A_file \<noteq> f \<longleftrightarrow> f = T_file"
  by (cases f; simp)+

lemmas fence_ops = goto_def flock_def close_fd_def unlink_def

lemma open_file_fields:
  assumes "open_file create f s = (r, s')"
  shows "fn_locks s' = fn_locks s" "fn_phase s' = fn_phase s" "fn_held s' = fn_held s" "fn_co s' = fn_co s" "fn_deletes s' = fn_deletes s"
    "g \<noteq> f \<Longrightarrow> fn_link s' g = fn_link s g" "fn_link s g = Some i \<Longrightarrow> fn_link s' g = Some i"
    "r = None \<Longrightarrow> \<not> create \<and> s' = s \<and> fn_link s f = None" "r = Some j \<Longrightarrow> fn_link s' f = Some j"
  using assms by (auto simp: open_file_def split: option.splits if_splits)

lemmas open_fields = open_file_fields(1-5)

lemma other_phase: "fence_step kind sid p s s' \<Longrightarrow> q \<noteq> p \<Longrightarrow> fn_phase s' q = fn_phase s q"
  by (induction rule: fence_step.cases) (auto simp: fence_ops open_fields)

lemma own_phase: "fence_step kind sid p s s' \<Longrightarrow> phase_of (kind p) (fn_phase s p) \<Longrightarrow> phase_of (kind p) (fn_phase s' p)"
  by (induction rule: fence_step.cases)
    (auto simp: fence_ops open_fields ended_def after_lock_def creates_file_def exclusive_def transition_op_def activity_op_def allow_shared_def
      dest!: open_file_fields(8) split: if_splits)

lemma phase_step: "fence_step kind sid p s s' \<Longrightarrow> inv_phase kind s \<Longrightarrow> inv_phase kind s'"
  unfolding inv_phase_def by (metis other_phase own_phase)

lemma other_locks: "fence_step kind sid p s s' \<Longrightarrow> q \<noteq> p \<Longrightarrow> (q, f, i, ex) \<in> set (fn_locks s') \<longleftrightarrow> (q, f, i, ex) \<in> set (fn_locks s)"
  by (induction rule: fence_step.cases) (auto simp: fence_ops open_fields)

lemma own_lock: "fence_step kind sid p s s' \<Longrightarrow> (p, f, i, ex) \<in> set (fn_locks s') \<Longrightarrow> phase_of (kind p) (fn_phase s p) \<Longrightarrow>
    ((p, f, i, ex) \<in> set (fn_locks s) \<Longrightarrow> ex = exclusive (kind p) \<and> may_hold (kind p) (fn_phase s p) f) \<Longrightarrow>
    ex = exclusive (kind p) \<and> may_hold (kind p) (fn_phase s' p) f"
  apply (cases f)
  subgoal by (induction rule: fence_step.cases)
    (auto simp: fence_ops open_fields ended_def after_lock_def exclusive_def allow_shared_def split: if_splits)
  subgoal by (induction rule: fence_step.cases)
    (auto simp: fence_ops open_fields ended_def after_lock_def exclusive_def allow_shared_def split: if_splits)
  done

lemma locks_step:
  assumes "fence_step kind sid p s s'" "inv_phase kind s" "inv_locks kind s"
  shows "inv_locks kind s'"
  unfolding inv_locks_def
proof (intro allI impI)
  fix q f i ex assume l: "(q, f, i, ex) \<in> set (fn_locks s')"
  show "ex = exclusive (kind q) \<and> may_hold (kind q) (fn_phase s' q) f"
  proof (cases "q = p")
    case True
    then show ?thesis using own_lock [OF assms(1)] l assms(2,3) by (auto simp: inv_phase_def inv_locks_def)
  next
    case False
    then show ?thesis using l other_locks [OF assms(1) False] other_phase [OF assms(1) False] assms(3) by (auto simp: inv_locks_def)
  qed
qed

lemma own_locked: "fence_step kind sid p s s' \<Longrightarrow> (\<And>f i. fn_phase s p = Locked f i \<Longrightarrow> (p, f, i, exclusive (kind p)) \<in> set (fn_locks s)) \<Longrightarrow>
    fn_phase s' p = Locked f i \<Longrightarrow> (p, f, i, exclusive (kind p)) \<in> set (fn_locks s')"
  by (induction rule: fence_step.cases) (auto simp: fence_ops open_fields ended_def after_lock_def split: if_splits)

lemma locked_step:
  assumes "fence_step kind sid p s s'" "inv_locked kind s"
  shows "inv_locked kind s'"
  unfolding inv_locked_def
  using own_locked [OF assms(1)] other_phase [OF assms(1)] other_locks [OF assms(1)] assms(2) [unfolded inv_locked_def] by metis

lemma new_lock: "fence_step kind sid p s s' \<Longrightarrow> (p, f, i, ex) \<in> set (fn_locks s') \<Longrightarrow>
    (p, f, i, ex) \<in> set (fn_locks s) \<or> flock_free f i ex s"
  by (induction rule: fence_step.cases) (auto simp: fence_ops open_fields)

lemma compat_step:
  assumes "fence_step kind sid p s s'" "inv_compat s"
  shows "inv_compat s'"
  unfolding inv_compat_def
proof (intro allI impI)
  fix q r f i ex ex'
  assume l: "(q, f, i, ex) \<in> set (fn_locks s')" "(r, f, i, ex') \<in> set (fn_locks s')" "q \<noteq> r"
  have new: "\<not> ex \<and> \<not> ex'" if "(p, f, i, ex) \<in> set (fn_locks s')" "(r, f, i, ex') \<in> set (fn_locks s)" "r \<noteq> p" for r ex ex'
    using new_lock [OF assms(1) that(1)] that assms(2) by (fastforce simp: inv_compat_def flock_free_def list_all_iff)
  show "\<not> ex \<and> \<not> ex'"
    using l new assms(2) other_locks [OF assms(1)] unfolding inv_compat_def by metis
qed

lemma two_held:
  assumes "inv_t kind s" "inv_compat s" "t_held (fn_phase s p)" "t_held (fn_phase s q)" "p \<noteq> q"
  shows "\<not> exclusive (kind p)"
proof -
  obtain i j where "fn_link s T_file = Some i" "(p, T_file, i, exclusive (kind p)) \<in> set (fn_locks s)"
    "fn_link s T_file = Some j" "(q, T_file, j, exclusive (kind q)) \<in> set (fn_locks s)"
    using assms(1,3,4) unfolding inv_t_def by metis
  then show ?thesis using assms(2,5) unfolding inv_compat_def by (metis option.inject)
qed

lemma own_t: "fence_step kind sid p s s' \<Longrightarrow> (\<And>f i. fn_phase s p = Locked f i \<Longrightarrow> (p, f, i, exclusive (kind p)) \<in> set (fn_locks s)) \<Longrightarrow>
    (t_held (fn_phase s p) \<Longrightarrow> fn_link s T_file = Some j \<and> (p, T_file, j, exclusive (kind p)) \<in> set (fn_locks s)) \<Longrightarrow>
    t_held (fn_phase s' p) \<Longrightarrow> \<exists>i. fn_link s' T_file = Some i \<and> (p, T_file, i, exclusive (kind p)) \<in> set (fn_locks s')"
  by (induction rule: fence_step.cases)
    (auto simp: fence_ops open_fields open_file_fields(7) creates_file_def ended_def after_lock_def dest!: open_file_fields(8) split: if_splits)

lemma link_kept: "fence_step kind sid p s s' \<Longrightarrow> fn_link s f = Some i \<Longrightarrow>
    fn_link s' f = Some i \<or> (fn_phase s p = Unlinked_A \<and> f = T_file) \<or> (fn_phase s p = Section \<and> f = A_file \<and> fn_deletes s' = Suc (fn_deletes s))"
  by (induction rule: fence_step.cases) (auto simp: fence_ops open_file_fields(7))

lemma deletes_step: "fence_step kind sid p s s' \<Longrightarrow> fn_deletes s' = fn_deletes s \<or> fn_deletes s' = Suc (fn_deletes s)"
  by (induction rule: fence_step.cases) (auto simp: fence_ops open_fields)

lemma t_step:
  assumes "fence_step kind sid p s s'" "inv_phase kind s" "inv_locked kind s" "inv_compat s" "inv_t kind s"
  shows "inv_t kind s'"
  unfolding inv_t_def
proof (intro allI impI)
  fix q assume q: "t_held (fn_phase s' q)"
  show "\<exists>i. fn_link s' T_file = Some i \<and> (q, T_file, i, exclusive (kind q)) \<in> set (fn_locks s')"
  proof (cases "q = p")
    case True
    have "\<exists>j. t_held (fn_phase s p) \<longrightarrow> fn_link s T_file = Some j \<and> (p, T_file, j, exclusive (kind p)) \<in> set (fn_locks s)"
      using assms(5) unfolding inv_t_def by blast
    then obtain j where "t_held (fn_phase s p) \<Longrightarrow> fn_link s T_file = Some j \<and> (p, T_file, j, exclusive (kind p)) \<in> set (fn_locks s)" by blast
    then show ?thesis using own_t [OF assms(1)] assms(3) q True unfolding inv_locked_def by blast
  next
    case False
    have old: "t_held (fn_phase s q)" using q other_phase [OF assms(1) False] by simp
    then obtain i where i: "fn_link s T_file = Some i" "(q, T_file, i, exclusive (kind q)) \<in> set (fn_locks s)"
      using assms(5) unfolding inv_t_def by blast
    have "fn_phase s p \<noteq> Unlinked_A"
    proof
      assume u: "fn_phase s p = Unlinked_A"
      then have "exclusive (kind p)" using assms(2) [unfolded inv_phase_def, rule_format, of p] by (simp add: exclusive_def transition_op_def)
      then show False using two_held [OF assms(5,4) _ old] False u by auto
    qed
    then have "fn_link s' T_file = Some i" using link_kept [OF assms(1) i(1)] by auto
    then show ?thesis using i(2) other_locks [OF assms(1) False] by blast
  qed
qed

lemma own_birth:
  assumes "fence_step kind sid p s s'" "birth (fn_phase s' p) = Some b"
  obtains (new) i where "fn_phase s p = Locked A_file i" "fn_link s A_file = Some i" "b = fn_deletes s" "fn_deletes s' = fn_deletes s"
      "fn_link s' = fn_link s" "fn_locks s' = fn_locks s"
  | (old) "birth (fn_phase s p) = Some b" "fn_deletes s' = fn_deletes s" "\<And>f i. fn_link s f = Some i \<Longrightarrow> fn_link s' f = Some i"
      "\<And>i ex. (p, A_file, i, ex) \<in> set (fn_locks s) \<Longrightarrow> (p, A_file, i, ex) \<in> set (fn_locks s')"
  using assms
proof (cases rule: fence_step.cases)
  case (named f i)
  then show ?thesis using assms(2) by (intro new) (auto simp: fence_ops after_lock_def split: if_splits)
next
  case (drops b)
  then show ?thesis using assms(2) by (intro old) (auto simp: fence_ops)
next
  case (touches i)
  then show ?thesis using assms(2) by (intro old) (auto simp: open_fields open_file_fields(7))
qed (auto simp: fence_ops ended_def split: if_splits)

lemma a_step:
  assumes "fence_step kind sid p s s'" "inv_locked kind s" "inv_a kind s"
  shows "inv_a kind s'"
  unfolding inv_a_def
proof (intro allI impI)
  fix q b assume q: "birth (fn_phase s' q) = Some b"
  have old: "b \<le> fn_deletes s \<and> (b = fn_deletes s \<longrightarrow> (\<exists>i. fn_link s A_file = Some i \<and> (q, A_file, i, exclusive (kind q)) \<in> set (fn_locks s)))"
    if "birth (fn_phase s q) = Some b" using assms(3) that unfolding inv_a_def by blast
  show "b \<le> fn_deletes s' \<and> (b = fn_deletes s' \<longrightarrow> (\<exists>i. fn_link s' A_file = Some i \<and> (q, A_file, i, exclusive (kind q)) \<in> set (fn_locks s')))"
  proof (cases "q = p")
    case True
    from assms(1) q [unfolded True] show ?thesis
    proof (cases rule: own_birth)
      case (new i)
      then show ?thesis using assms(2) unfolding inv_locked_def True by auto
    next
      case old': old
      then show ?thesis using old unfolding True by auto
    qed
  next
    case False
    note o = old [unfolded other_phase [OF assms(1) False, symmetric], OF q]
    show ?thesis
    proof (intro conjI impI)
      show "b \<le> fn_deletes s'" using o deletes_step [OF assms(1)] by auto
      assume b: "b = fn_deletes s'"
      then have bs: "b = fn_deletes s" "fn_deletes s' = fn_deletes s" using o deletes_step [OF assms(1)] by auto
      then obtain i where i: "fn_link s A_file = Some i" "(q, A_file, i, exclusive (kind q)) \<in> set (fn_locks s)" using o by blast
      then show "\<exists>i. fn_link s' A_file = Some i \<and> (q, A_file, i, exclusive (kind q)) \<in> set (fn_locks s')"
        using link_kept [OF assms(1) i(1)] bs(2) other_locks [OF assms(1) False] by auto
    qed
  qed
qed

lemma own_section:
  assumes "fence_step kind sid p s s'" "fn_phase s' p = Section" "\<not> allow_shared (kind p)" "fn_phase s p \<noteq> Section"
  shows "(\<exists>i. fn_phase s p = Locked A_file i \<and> fn_link s A_file = Some i) \<or> fn_phase s p = Opening A_file \<and> fn_link s A_file = None"
  using assms
proof (cases rule: fence_step.cases)
  case (absent f s'')
  then show ?thesis using open_file_fields(8) [OF absent(4)] by (auto simp: creates_file_def)
qed (auto simp: fence_ops open_fields ended_def after_lock_def split: if_splits)

lemma x_step:
  assumes "fence_step kind sid p s s'" "inv_phase kind s" "inv_locked kind s" "inv_compat s" "inv_t kind s" "inv_a kind s" "inv_x kind s"
  shows "inv_x kind s'"
  unfolding inv_x_def
proof (intro allI impI)
  fix q r b assume q: "fn_phase s' q = Section" "\<not> allow_shared (kind q)" and r: "birth (fn_phase s' r) = Some b"
  have ex: "exclusive (kind q)" using q(1) phase_step [OF assms(1,2), unfolded inv_phase_def, rule_format, of q] by simp
  have "b < fn_deletes s"
  proof (cases "birth (fn_phase s r) = Some b")
    case True
    show ?thesis
    proof (cases "fn_phase s q = Section")
      case True': True
      then show ?thesis using assms(7) q(2) True unfolding inv_x_def by blast
    next
      case False
      then have "q = p" using other_phase [OF assms(1)] q(1) by metis
      note sec = own_section [OF assms(1) q(1,2) [unfolded this] False [unfolded this]]
      have rs: "b \<le> fn_deletes s" "b = fn_deletes s \<Longrightarrow> \<exists>i. fn_link s A_file = Some i \<and> (r, A_file, i, exclusive (kind r)) \<in> set (fn_locks s)"
        using assms(6) True unfolding inv_a_def by blast+
      have "b \<noteq> fn_deletes s"
      proof
        assume "b = fn_deletes s"
        then obtain i where i: "fn_link s A_file = Some i" "(r, A_file, i, exclusive (kind r)) \<in> set (fn_locks s)" using rs(2) by blast
        then have "fn_phase s p = Locked A_file i" using sec by auto
        then have "(p, A_file, i, exclusive (kind p)) \<in> set (fn_locks s)" "r \<noteq> p" using assms(3) True unfolding inv_locked_def by auto
        then show False using assms(4) i(2) ex \<open>q = p\<close> unfolding inv_compat_def by blast
      qed
      then show ?thesis using rs(1) by simp
    qed
  next
    case False
    then have "r = p" using other_phase [OF assms(1)] r by metis
    then have "\<exists>i. fn_phase s p = Locked A_file i" using own_birth [OF assms(1)] r False by metis
    moreover have "q \<noteq> p" using q(1) r \<open>r = p\<close> by auto
    moreover from this have "fn_phase s q = Section" using other_phase [OF assms(1)] q(1) by metis
    ultimately have False using two_held [OF assms(5,4), of q p] ex by auto
    then show ?thesis ..
  qed
  then show "b < fn_deletes s'" using deletes_step [OF assms(1)] by auto
qed

section \<open>The invariant of the coordinator\<close>

definition busy_activities :: "(nat \<Rightarrow> op) \<Rightarrow> fence \<Rightarrow> nat set" where
  "busy_activities kind s = {p. activity_op (kind p) \<and> fn_phase s p \<noteq> Idle}"

definition busy_transitions :: "(nat \<Rightarrow> op) \<Rightarrow> fence \<Rightarrow> nat set" where
  "busy_transitions kind s = {p. transition_op (kind p) \<and> fn_phase s p \<noteq> Idle}"

definition inv_co :: "(nat \<Rightarrow> op) \<Rightarrow> string \<Rightarrow> fence \<Rightarrow> bool" where
  "inv_co kind sid s \<longleftrightarrow> finite (busy_activities kind s) \<and> co_count sid (fn_co s) = card (busy_activities kind s)
     \<and> (\<forall>p \<in> busy_transitions kind s. sid \<in> co_exclusive (fn_co s) \<and> busy_transitions kind s = {p}
          \<and> (\<not> allow_shared (kind p) \<longrightarrow> busy_activities kind s = {}))"

definition inv_held :: "(nat \<Rightarrow> op) \<Rightarrow> fence \<Rightarrow> bool" where
  "inv_held kind s \<longleftrightarrow> (\<forall>p. transition_op (kind p) \<longrightarrow> fn_phase s p = Section \<longrightarrow> fn_held s)"

lemma op_kinds: "transition_op k \<Longrightarrow> \<not> activity_op k" "activity_op k \<Longrightarrow> \<not> transition_op k"
  "ended k = Idle \<Longrightarrow> \<not> transition_op k \<and> \<not> activity_op k"
  by (auto simp: transition_op_def activity_op_def ended_def split: if_splits)

lemma co_kept: "fence_step kind sid p s s' \<Longrightarrow> phase_of (kind p) (fn_phase s p) \<Longrightarrow> fn_phase s p \<noteq> Idle \<Longrightarrow> fn_phase s p \<noteq> Exiting \<Longrightarrow>
    fn_co s' = fn_co s \<and> (transition_op (kind p) \<or> activity_op (kind p) \<longrightarrow> fn_phase s' p \<noteq> Idle)"
  by (induction rule: fence_step.cases)
    (auto simp: fence_ops open_fields after_lock_def ended_def transition_op_def activity_op_def split: if_splits)

lemma busy_kept:
  assumes "fence_step kind sid p s s'"
    and "transition_op (kind p) \<or> activity_op (kind p) \<Longrightarrow> fn_phase s' p = Idle \<longleftrightarrow> fn_phase s p = Idle"
  shows "busy_activities kind s' = busy_activities kind s" "busy_transitions kind s' = busy_transitions kind s"
proof -
  have "(transition_op (kind q) \<or> activity_op (kind q)) \<and> fn_phase s' q \<noteq> Idle
      \<longleftrightarrow> (transition_op (kind q) \<or> activity_op (kind q)) \<and> fn_phase s q \<noteq> Idle" for q
    using other_phase [OF assms(1), of q] assms(2) by (cases "q = p") auto
  then show "busy_activities kind s' = busy_activities kind s" "busy_transitions kind s' = busy_transitions kind s"
    unfolding busy_activities_def busy_transitions_def by blast+
qed

lemma co_idle: "fence_step kind sid p s s' \<Longrightarrow> fn_phase s p = Idle \<Longrightarrow>
    (transition_op (kind p) \<and> fn_phase s' p \<noteq> Idle \<and> co_enter_exclusive [sid] (allow_shared (kind p)) (fn_co s) = Some (fn_co s'))
    \<or> (activity_op (kind p) \<and> fn_phase s' p \<noteq> Idle \<and> co_acquire_shared sid (fn_co s) = Some (fn_co s'))
    \<or> (fn_co s' = fn_co s \<and> (fn_phase s' p = Idle \<or> \<not> transition_op (kind p) \<and> \<not> activity_op (kind p)))"
  by (induction rule: fence_step.cases)
    (auto simp: fence_ops open_fields transition_op_def activity_op_def split: if_splits)

lemma co_exit: "fence_step kind sid p s s' \<Longrightarrow> fn_phase s p = Exiting \<Longrightarrow>
    (fn_phase s' p = Idle \<and> fn_co s' = leave_coordinator (kind p) sid (fn_co s)) \<or> (fn_co s' = fn_co s \<and> fn_phase s' p = Exiting)"
  by (induction rule: fence_step.cases) (auto simp: fence_ops open_fields)

lemma busy_changed:
  assumes "fence_step kind sid p s s'"
  shows "busy_transitions kind s' = (if transition_op (kind p) \<and> fn_phase s' p \<noteq> Idle then insert p (busy_transitions kind s) else busy_transitions kind s - {p})"
    and "busy_activities kind s' = (if activity_op (kind p) \<and> fn_phase s' p \<noteq> Idle then insert p (busy_activities kind s) else busy_activities kind s - {p})"
proof -
  have "fn_phase s' = (fn_phase s)(p := fn_phase s' p)" using other_phase [OF assms] by auto
  then obtain h where h: "fn_phase s' = (fn_phase s)(p := h)" by blast
  show "busy_transitions kind s' = (if transition_op (kind p) \<and> fn_phase s' p \<noteq> Idle then insert p (busy_transitions kind s) else busy_transitions kind s - {p})"
    and "busy_activities kind s' = (if activity_op (kind p) \<and> fn_phase s' p \<noteq> Idle then insert p (busy_activities kind s) else busy_activities kind s - {p})"
    by (auto simp: h busy_activities_def busy_transitions_def)
qed

lemma busy_iff:
  "p \<in> busy_transitions kind s \<longleftrightarrow> transition_op (kind p) \<and> fn_phase s p \<noteq> Idle"
  "p \<in> busy_activities kind s \<longleftrightarrow> activity_op (kind p) \<and> fn_phase s p \<noteq> Idle"
  by (simp_all add: busy_activities_def busy_transitions_def)

lemma co_step:
  assumes "fence_step kind sid p s s'" "inv_phase kind s" "inv_co kind sid s"
  shows "inv_co kind sid s'"
proof -
  have ph: "phase_of (kind p) (fn_phase s p)" using assms(2) by (simp add: inv_phase_def)
  have same: ?thesis if "fn_co s' = fn_co s" "transition_op (kind p) \<or> activity_op (kind p) \<Longrightarrow> fn_phase s' p = Idle \<longleftrightarrow> fn_phase s p = Idle"
    using assms(3) busy_kept [OF assms(1) that(2)] that(1) unfolding inv_co_def by metis
  consider "fn_phase s p = Idle" | "fn_phase s p = Exiting" | "fn_phase s p \<noteq> Idle" "fn_phase s p \<noteq> Exiting" by blast
  then show ?thesis
  proof cases
    case 1
    from co_idle [OF assms(1) 1] consider
        (t) "transition_op (kind p)" "fn_phase s' p \<noteq> Idle" "co_enter_exclusive [sid] (allow_shared (kind p)) (fn_co s) = Some (fn_co s')"
      | (a) "activity_op (kind p)" "fn_phase s' p \<noteq> Idle" "co_acquire_shared sid (fn_co s) = Some (fn_co s')"
      | (n) "fn_co s' = fn_co s" "fn_phase s' p = Idle \<or> \<not> transition_op (kind p) \<and> \<not> activity_op (kind p)" by blast
    then show ?thesis
    proof cases
      case t
      note e = co_enter_SomeD [OF t(3)]
      have none: "busy_transitions kind s = {}" using e assms(3) unfolding inv_co_def by blast
      have "p \<notin> busy_activities kind s" using 1 by (simp add: busy_iff)
      then have b: "busy_transitions kind s' = {p}" "busy_activities kind s' = busy_activities kind s"
        using busy_changed [OF assms(1)] t(1,2) op_kinds(1) [OF t(1)] none by auto
      show ?thesis using e b assms(3) unfolding inv_co_def by auto
    next
      case a
      note e = co_acquire_SomeD [OF a(3)]
      have none: "busy_transitions kind s = {}" using e assms(3) unfolding inv_co_def by blast
      have "p \<notin> busy_activities kind s" using 1 by (simp add: busy_iff)
      then have b: "busy_transitions kind s' = {}" "busy_activities kind s' = insert p (busy_activities kind s)" "p \<notin> busy_activities kind s"
        using busy_changed [OF assms(1)] a(1,2) op_kinds(2) [OF a(1)] none by auto
      show ?thesis using e b assms(3) unfolding inv_co_def by auto
    next
      case n
      then show ?thesis using same 1 by auto
    qed
  next
    case 2
    from co_exit [OF assms(1) 2] show ?thesis
    proof (elim disjE conjE)
      assume x: "fn_phase s' p = Idle" "fn_co s' = leave_coordinator (kind p) sid (fn_co s)"
      note b = busy_changed [OF assms(1)]
      show ?thesis
      proof (cases "transition_op (kind p)")
        case True
        then have "busy_transitions kind s = {p}" using assms(3) 2 unfolding inv_co_def by (simp add: busy_iff(1))
        moreover have "p \<notin> busy_activities kind s" using op_kinds(1) [OF True] by (simp add: busy_iff)
        ultimately have "busy_transitions kind s' = {}" "busy_activities kind s' = busy_activities kind s" using b x(1) by auto
        then show ?thesis using assms(3) x(2) True unfolding inv_co_def by (simp add: leave_coordinator_def)
      next
        case False
        then have act: "p \<in> busy_activities kind s" "activity_op (kind p)" using ph 2 by (auto simp: busy_iff)
        have bt: "busy_transitions kind s' = busy_transitions kind s" "busy_activities kind s' = busy_activities kind s - {p}"
          using b x(1) False by (auto simp: busy_iff)
        show ?thesis using assms(3) act x(2) False unfolding inv_co_def bt by (auto simp: leave_coordinator_def)
      qed
    next
      assume "fn_co s' = fn_co s" "fn_phase s' p = Exiting"
      then show ?thesis using same 2 by auto
    qed
  next
    case 3
    then show ?thesis using same co_kept [OF assms(1) ph 3] by auto
  qed
qed

lemma held_kept: "fence_step kind sid p s s' \<Longrightarrow> fn_held s \<Longrightarrow> fn_held s' \<or> transition_op (kind p) \<and> fn_phase s p \<noteq> Idle"
  by (induction rule: fence_step.cases) (auto simp: fence_ops open_fields)

lemma own_held: "fence_step kind sid p s s' \<Longrightarrow> transition_op (kind p) \<Longrightarrow> fn_phase s' p = Section \<Longrightarrow>
    (fn_phase s p = Section \<Longrightarrow> fn_held s) \<Longrightarrow> fn_held s'"
  by (induction rule: fence_step.cases)
    (auto simp: fence_ops open_fields creates_file_def transition_op_def ended_def dest!: open_file_fields(8) split: if_splits)

lemma held_step:
  assumes "fence_step kind sid p s s'" "inv_co kind sid s" "inv_held kind s"
  shows "inv_held kind s'"
  unfolding inv_held_def
proof (intro allI impI)
  fix q assume q: "transition_op (kind q)" "fn_phase s' q = Section"
  show "fn_held s'"
  proof (cases "q = p")
    case True
    then show ?thesis using own_held [OF assms(1)] q assms(3) unfolding inv_held_def by blast
  next
    case False
    then have old: "fn_phase s q = Section" using q(2) other_phase [OF assms(1)] by metis
    then have "busy_transitions kind s = {q}" using assms(2) q(1) unfolding inv_co_def by (simp add: busy_iff)
    then have "p \<notin> busy_transitions kind s" using False by simp
    then show ?thesis using held_kept [OF assms(1)] assms(3) q(1) old unfolding inv_held_def busy_iff by blast
  qed
qed

definition fence_inv :: "(nat \<Rightarrow> op) \<Rightarrow> string \<Rightarrow> fence \<Rightarrow> bool" where
  "fence_inv kind sid s \<longleftrightarrow> inv_phase kind s \<and> inv_locks kind s \<and> inv_locked kind s \<and> inv_compat s \<and> inv_t kind s \<and> inv_a kind s
     \<and> inv_x kind s \<and> inv_co kind sid s \<and> inv_held kind s"

lemma fence_new_inv: "fence_inv kind sid fence_new"
  by (simp add: fence_inv_def fence_new_def inv_phase_def inv_locks_def inv_locked_def inv_compat_def inv_t_def inv_a_def inv_x_def inv_co_def
      inv_held_def busy_activities_def busy_transitions_def)

lemma fence_step_inv: "fence_step kind sid p s s' \<Longrightarrow> fence_inv kind sid s \<Longrightarrow> fence_inv kind sid s'"
  unfolding fence_inv_def by (intro conjI; elim conjE)
    (rule phase_step locks_step locked_step compat_step t_step a_step x_step co_step held_step; assumption)+

lemma fence_reachable_inv: "fence_reachable kind sid s \<Longrightarrow> fence_inv kind sid s"
  by (induction rule: fence_reachable.induct) (auto simp: fence_new_inv intro: fence_step_inv)

lemma advance_waits:
  assumes "phase_of (kind p) (fn_phase s p)" "fn_phase s p \<noteq> Idle" "advance kind sid p s = None"
  obtains f i q where "fn_phase s p = Opened f i" "\<not> nonblocking (kind p) f" "waits_on kind s p q"
proof -
  obtain f i where o: "fn_phase s p = Opened f i" "\<not> nonblocking (kind p) f" "\<not> flock_free f i (exclusive (kind p)) s"
    using assms(2,3) unfolding advance_def by (cases "fn_phase s p") (auto split: if_splits option.splits prod.splits)
  from o(3) obtain q ex where "(q, f, i, ex) \<in> set (fn_locks s)" "ex \<or> exclusive (kind p)" by (auto simp: flock_free_def list_all_iff)
  then have "waits_on kind s p q" using o(1) by (auto simp: waits_on_def list_ex_iff)
  then show thesis using that o(1,2) by blast
qed

lemma waits_for:
  assumes "fence_inv kind sid s" "fn_phase s p = Opened f i" "\<not> nonblocking (kind p) f" "waits_on kind s p q"
  shows "f = A_file \<Longrightarrow> \<exists>j. fn_phase s q = Probed j" "f = T_file \<Longrightarrow> may_hold (kind q) (fn_phase s q) T_file"
proof -
  have inv: "inv_phase kind s" "inv_locks kind s" "inv_compat s" "inv_t kind s" using assms(1) by (simp_all add: fence_inv_def)
  obtain ex where l: "(q, f, i, ex) \<in> set (fn_locks s)" "ex \<or> exclusive (kind p)" using assms(2,4) by (auto simp: waits_on_def list_ex_iff)
  have h: "ex = exclusive (kind q)" "may_hold (kind q) (fn_phase s q) f" using inv(2) l(1) unfolding inv_locks_def by blast+
  then show "may_hold (kind q) (fn_phase s q) T_file" if "f = T_file" using that by simp
  show "\<exists>j. fn_phase s q = Probed j" if f: "f = A_file"
  proof -
    have "phase_of (kind p) (Opened f i)" using inv(1) assms(2) unfolding inv_phase_def by metis
    then have "activity_op (kind p)" using assms(3) f by (auto simp: nonblocking_def split: if_splits)
    then have "\<not> exclusive (kind p)" by (auto simp: activity_op_def exclusive_def transition_op_def)
    then have ex: "exclusive (kind q)" using l(2) h(1) by simp
    have "\<not> t_held (fn_phase s q)" using two_held [OF inv(4,3), of q p] assms(2) f ex \<open>\<not> exclusive (kind p)\<close> by auto
    moreover have "\<not> (\<exists>b. fn_phase s q = Active b)" using ex inv(1) unfolding inv_phase_def by (metis phase_of.simps(10))
    ultimately show ?thesis using h(2) f by auto
  qed
qed

section \<open>Sample runs\<close>

fun fence_run :: "(nat \<Rightarrow> op) \<Rightarrow> string \<Rightarrow> nat list \<Rightarrow> fence \<Rightarrow> fence option" where
  "fence_run kind sid [] s = Some s"
| "fence_run kind sid (p # ps) s = (case advance kind sid p s of None \<Rightarrow> None | Some s' \<Rightarrow> fence_run kind sid ps s')"

lemma fence_run_reachable: "fence_run kind sid ps s = Some s' \<Longrightarrow> fence_reachable kind sid s \<Longrightarrow> fence_reachable kind sid s'"
  by (induction ps arbitrary: s) (auto intro: fence_reachable.step advance_step split: option.splits)

text \<open>An exec of noded starts, a delete discards the files under it, and a park of the next incarnation
  is in its section while the exec is still attached.\<close>

definition sample_kind :: "nat \<Rightarrow> op" where
  "sample_kind p = (if p = 0 then Noded_Exec else if p = 1 then Agent_Delete else if p = 2 then Agent_Park else Agent_Wake)"

definition sample_order :: "nat list" where
  "sample_order = replicate 8 0 @ replicate 8 1 @ replicate 7 2"

lemma sample_park:
  obtains s where "fence_reachable sample_kind ''a'' s" "fn_phase s 2 = Section" "fn_phase s 0 = Active 0"
proof -
  have "(case fence_run sample_kind ''a'' sample_order fence_new of None \<Rightarrow> False | Some s \<Rightarrow> fn_phase s 2 = Section \<and> fn_phase s 0 = Active 0)"
    by code_simp
  then obtain s where "fence_run sample_kind ''a'' sample_order fence_new = Some s" "fn_phase s 2 = Section" "fn_phase s 0 = Active 0"
    by (auto split: option.splits)
  then show thesis using that fence_run_reachable [OF _ fence_reachable.start] by blast
qed

lemma sample_waiting:
  obtains s where "fence_reachable sample_kind ''a'' s" "fn_phase s 3 = Opened T_file 0" "advance sample_kind ''a'' 3 s = None"
proof -
  have "(case fence_run sample_kind ''a'' [0, 0, 0, 0, 3, 3] fence_new of None \<Rightarrow> False
      | Some s \<Rightarrow> fn_phase s 3 = Opened T_file 0 \<and> Option.is_none (advance sample_kind ''a'' 3 s))"
    by code_simp
  then obtain s where "fence_run sample_kind ''a'' [0, 0, 0, 0, 3, 3] fence_new = Some s" "fn_phase s 3 = Opened T_file 0"
      "advance sample_kind ''a'' 3 s = None"
    by (auto simp: Option.is_none_def split: option.splits)
  then show thesis using that fence_run_reachable [OF _ fence_reachable.start] by blast
qed

section \<open>Properties\<close>



text \<open>C39. The fence never deadlocks, and a transition never waits for a running exec: an operation that cannot
  go on waits for one that can, or for one that waits for one that can, and none of those it waits for is
  an exec or file activity that has started.\<close>

theorem fence_no_deadlock:
  assumes "fence_reachable kind sid s" and "fn_phase s p \<noteq> Idle" and "advance kind sid p s = None"
  shows "(\<exists>q. waits_on kind s p q \<and> (advance kind sid q s \<noteq> None \<or> (\<exists>r. waits_on kind s q r \<and> advance kind sid r s \<noteq> None)))
    \<and> (\<forall>q b. waits_on kind s p q \<longrightarrow> fn_phase s q \<noteq> Active b)"
proof -
  note inv = fence_reachable_inv [OF assms(1)]
  then have ph: "\<And>q. phase_of (kind q) (fn_phase s q)" by (simp add: fence_inv_def inv_phase_def)
  have probe: "advance kind sid r s \<noteq> None" if "fn_phase s r = Probed j" for r j using that by (simp add: advance_def)
  obtain f i q where p: "fn_phase s p = Opened f i" "\<not> nonblocking (kind p) f" "waits_on kind s p q" by (rule advance_waits [OF ph assms(2,3)])
  note w = waits_for [OF inv p(1,2)]
  have "advance kind sid q s \<noteq> None \<or> (\<exists>r. waits_on kind s q r \<and> advance kind sid r s \<noteq> None)"
  proof (cases f)
    case T_file
    then have h: "may_hold (kind q) (fn_phase s q) T_file" using w(2) p(3) by blast
    show ?thesis
    proof (rule disjCI, rule ccontr)
      assume n: "\<nexists>r. waits_on kind s q r \<and> advance kind sid r s \<noteq> None" and "\<not> advance kind sid q s \<noteq> None"
      then have a: "advance kind sid q s = None" by simp
      have "fn_phase s q \<noteq> Idle" using h by auto
      from ph this a obtain g j r where q: "fn_phase s q = Opened g j" "\<not> nonblocking (kind q) g" "waits_on kind s q r" by (rule advance_waits)
      have "g = A_file" using h q(1) by simp
      then show False using waits_for(1) [OF inv q] probe n q(3) by blast
    qed
  next
    case A_file
    then show ?thesis using w(1) p(3) probe by blast
  qed
  moreover have "fn_phase s q \<noteq> Active b" if "waits_on kind s p q" for q b
    using w [OF that] by (cases f) auto
  ultimately show ?thesis using p(3) by blast
qed

theorem fence_no_deadlock_witness:
  "\<exists>s. fence_reachable sample_kind ''a'' s \<and> fn_phase s 3 = Opened T_file 0 \<and> advance sample_kind ''a'' 3 s = None
    \<and> (\<exists>q. waits_on sample_kind s 3 q)"
proof -
  obtain s where s: "fence_reachable sample_kind ''a'' s" "fn_phase s 3 = Opened T_file 0" "advance sample_kind ''a'' 3 s = None"
    by (rule sample_waiting)
  then show ?thesis using fence_no_deadlock [OF s(1) _ s(3)] by auto
qed

end
