(* ===== verification/Durable_Batch.thy ===== *)
theory Durable_Batch
  imports Prelude "HOL-Library.Sublist"
begin

text \<open>
  \<open>src/ucloud_sandboxes/durable_batch.py\<close>: many short operations share one SQLite transaction, each in its
  own savepoint, and are acknowledged only after the commit. The database is a value of any type; what an
  SQL statement does to it is a parameter. The body of an operation is a tree of the calls
  it makes on its \<open>_Transaction\<close>, branching on what each call answers. The section of \<open>transaction\<close> and the pass of the flusher run under the condition, so
  each is one step of \<open>batch_step\<close>; operations wait for their turn and for their batch between the steps.
  Which of the calls outside a body fail (validation, connecting, the savepoint, the commit) is chosen by the step.
\<close>

section \<open>The view of one operation\<close>

definition upper :: "char \<Rightarrow> char" where
  "upper c = (if CHR ''a'' \<le> c \<and> c \<le> CHR ''z'' then char_of (of_char c - 32 :: nat) else c)"

definition sql_command :: "string \<Rightarrow> string" where
  "sql_command statement = map upper (rev (dropWhile (\<lambda>c. c = CHR '';'') (rev (str_strip statement))))"

record 'd view =
  vw_state :: 'd
  vw_savepoint :: 'd
  vw_explicit :: bool
  vw_committed :: bool

datatype sql_error = Nested_Transaction | Transaction_Sql | Sql_Error | Body_Error

text \<open>The engine answers a statement with its success and the database it leaves: an \<open>executemany\<close> that fails may have written some rows.\<close>

type_synonym 'd engine = "string \<Rightarrow> 'd \<Rightarrow> bool \<times> 'd"

definition view_executemany :: "'d engine \<Rightarrow> string \<Rightarrow> 'd view \<Rightarrow> sql_error option \<times> 'd view" where
  "view_executemany sql statement v =
     (case sql statement (vw_state v) of (ok, d) \<Rightarrow> (if ok then None else Some Sql_Error, v\<lparr>vw_state := d\<rparr>))"

definition begins :: "string \<Rightarrow> bool" where
  "begins statement \<longleftrightarrow> sql_command statement \<in> {''BEGIN'', ''BEGIN IMMEDIATE'', ''BEGIN TRANSACTION''}"

definition forbidden :: "string \<Rightarrow> bool" where
  "forbidden statement \<longleftrightarrow>
     list_ex (\<lambda>p. prefix p (sql_command statement)) [''COMMIT'', ''END'', ''ROLLBACK'', ''SAVEPOINT'', ''RELEASE'']"

definition view_execute :: "'d engine \<Rightarrow> string \<Rightarrow> 'd view \<Rightarrow> sql_error option \<times> 'd view" where
  "view_execute sql statement v =
     (if begins statement
      then if vw_explicit v then (Some Nested_Transaction, v) else (None, v\<lparr>vw_explicit := True\<rparr>)
      else if forbidden statement then (Some Transaction_Sql, v)
      else view_executemany sql statement v)"

definition view_commit :: "'d view \<Rightarrow> 'd view" where
  "view_commit v = v\<lparr>vw_committed := True\<rparr>"

definition view_rollback :: "'d view \<Rightarrow> 'd view" where
  "view_rollback v = v\<lparr>vw_state := vw_savepoint v, vw_explicit := True, vw_committed := False\<rparr>"

datatype call = Execute string | Executemany string | Commit | Rollback

fun view_call :: "'d engine \<Rightarrow> call \<Rightarrow> 'd view \<Rightarrow> sql_error option \<times> 'd view" where
  "view_call sql (Execute statement) v = view_execute sql statement v"
| "view_call sql (Executemany statement) v = view_executemany sql statement v"
| "view_call sql Commit v = (None, view_commit v)"
| "view_call sql Rollback v = (None, view_rollback v)"

text \<open>The body of an operation: it returns, raises, or makes a call and goes on with what it sees of it, the error (which it may
  catch) and the database (which it may read).\<close>

datatype (dead 'd) body = Return | Raise sql_error | Do call "sql_error option \<Rightarrow> 'd \<Rightarrow> 'd body"

primrec run_body :: "'d engine \<Rightarrow> 'd body \<Rightarrow> 'd view \<Rightarrow> sql_error option \<times> 'd view" where
  "run_body sql Return v = (None, v)"
| "run_body sql (Raise e) v = (Some e, v)"
| "run_body sql (Do c k) v = (case view_call sql c v of (e, v') \<Rightarrow> run_body sql (k e (vw_state v')) v')"

text \<open>The savepoint of one operation on the database \<open>d\<close>: its error, if any, and the database it leaves. Both
  \<open>ROLLBACK TO operation\<close> return to the savepoint.\<close>

definition run_operation :: "'d engine \<Rightarrow> 'd body \<Rightarrow> 'd \<Rightarrow> sql_error option \<times> 'd" where
  "run_operation sql body d =
     (case run_body sql body \<lparr>vw_state = d, vw_savepoint = d, vw_explicit = False, vw_committed = False\<rparr> of
        (Some e, v) \<Rightarrow> (Some e, vw_savepoint v)
      | (None, v) \<Rightarrow> (None, if vw_explicit v \<and> \<not> vw_committed v then vw_savepoint v else vw_state v))"

section \<open>What an operation is meant to do\<close>

text \<open>The specification knows no savepoint and no flags, only the calls that the body makes.\<close>

primrec body_path :: "'d engine \<Rightarrow> 'd body \<Rightarrow> 'd view \<Rightarrow> sql_error option \<times> call list" where
  "body_path sql Return v = (None, [])"
| "body_path sql (Raise e) v = (Some e, [])"
| "body_path sql (Do c k) v = (case view_call sql c v of (e, v') \<Rightarrow> apsnd (Cons c) (body_path sql (k e (vw_state v')) v'))"

text \<open>What counts is what follows the last rollback.\<close>

definition after_rollback :: "call list \<Rightarrow> call list" where
  "after_rollback cs = rev (takeWhile (\<lambda>c. c \<noteq> Rollback) (rev cs))"

fun writes :: "'d engine \<Rightarrow> call \<Rightarrow> 'd \<Rightarrow> 'd" where
  "writes sql (Execute statement) d = (if begins statement \<or> forbidden statement then d else snd (sql statement d))"
| "writes sql (Executemany statement) d = snd (sql statement d)"
| "writes sql _ d = d"

fun opens_transaction :: "call \<Rightarrow> bool" where
  "opens_transaction (Execute statement) = begins statement"
| "opens_transaction c = (c = Rollback)"

text \<open>An operation that raises, and one that opened a transaction (or rolled back) without a commit after its last rollback, leaves no
  trace. Any other one leaves what its statements since its last rollback write, in order.\<close>

definition outcome :: "'d engine \<Rightarrow> 'd body \<Rightarrow> 'd \<Rightarrow> sql_error option \<times> 'd" where
  "outcome sql body d =
     (case body_path sql body \<lparr>vw_state = d, vw_savepoint = d, vw_explicit = False, vw_committed = False\<rparr> of
        (Some e, cs) \<Rightarrow> (Some e, d)
      | (None, cs) \<Rightarrow>
          (None, if list_ex opens_transaction cs \<and> Commit \<notin> set (after_rollback cs) then d
                 else fold (writes sql) (after_rollback cs) d))"

text \<open>The view that calls \<open>cs\<close> on the database \<open>d\<close> lead to.\<close>

definition view_after :: "'d engine \<Rightarrow> 'd \<Rightarrow> call list \<Rightarrow> 'd view" where
  "view_after sql d cs = \<lparr>vw_state = fold (writes sql) (after_rollback cs) d, vw_savepoint = d,
     vw_explicit = list_ex opens_transaction cs, vw_committed = (Commit \<in> set (after_rollback cs))\<rparr>"

lemma after_rollback_snoc [simp]: "after_rollback (cs @ [c]) = (if c = Rollback then [] else after_rollback cs @ [c])"
  by (simp add: after_rollback_def)

lemma view_call_after: "snd (view_call sql c (view_after sql d cs)) = view_after sql d (cs @ [c])"
  by (cases c) (auto simp: view_after_def view_execute_def view_executemany_def view_commit_def view_rollback_def split: prod.split)

lemma run_body_after:
  "run_body sql body (view_after sql d cs) =
     (case body_path sql body (view_after sql d cs) of (failure, cs') \<Rightarrow> (failure, view_after sql d (cs @ cs')))"
proof (induction body arbitrary: cs)
  case (Do c k)
  obtain e v where c: "view_call sql c (view_after sql d cs) = (e, v)" by fastforce
  then have v: "v = view_after sql d (cs @ [c])" using view_call_after [of sql c d cs] by simp
  show ?case using Do.IH [OF rangeI rangeI, of e "vw_state v" "cs @ [c]"] by (simp add: c v split: prod.split)
qed simp_all

lemma run_operation_outcome: "run_operation sql body d = outcome sql body d"
proof -
  have start: "\<lparr>vw_state = d, vw_savepoint = d, vw_explicit = False, vw_committed = False\<rparr> = view_after sql d []"
    by (simp add: view_after_def after_rollback_def)
  show ?thesis unfolding run_operation_def outcome_def start run_body_after [of sql body d "[]"]
    by (auto simp: view_after_def split: prod.split option.split)
qed

lemma raised_no_effect: "fst (outcome sql body d) = Some e \<Longrightarrow> snd (outcome sql body d) = d"
  by (auto simp: outcome_def split: prod.splits option.splits)

section \<open>The batch\<close>

record Batch =
  bt_deadline :: rat
  bt_done :: bool
  bt_error :: bool
  bt_operations :: nat

datatype writer = Outside | Queued | Flushing nat "sql_error option" | Acknowledged | Raised sql_error | Batch_Failed | Refused

text \<open>\<open>jb_working\<close> is the open transaction of the connection; \<open>jb_log\<close> and \<open>jb_pending\<close> record which operations are in
  the committed database and in the open transaction, \<open>jb_arrivals\<close> which asked for a turn.\<close>

record 'd DurableSqliteBatch =
  jb_database :: 'd
  jb_connected :: bool
  jb_working :: "'d option"
  jb_batch :: "nat option"
  jb_batches :: "nat \<Rightarrow> Batch"
  jb_next :: nat
  jb_writers :: "nat list"
  jb_thread :: bool
  jb_commits :: nat
  jb_operations :: nat
  jb_log :: "nat list"
  jb_pending :: "nat list"
  jb_arrivals :: "nat list"
  jb_state :: "nat \<Rightarrow> writer"

definition new_batch :: "rat \<Rightarrow> int \<Rightarrow> 'd \<Rightarrow> 'd DurableSqliteBatch option" where
  "new_batch delay max_operations d =
     (if delay < 0 \<or> max_operations < 1 then None
      else Some \<lparr>jb_database = d, jb_connected = False, jb_working = None, jb_batch = None,
        jb_batches = (\<lambda>_. \<lparr>bt_deadline = 0, bt_done = False, bt_error = False, bt_operations = 0\<rparr>), jb_next = 0, jb_writers = [],
        jb_thread = False, jb_commits = 0, jb_operations = 0, jb_log = [], jb_pending = [], jb_arrivals = [], jb_state = (\<lambda>_. Outside)\<rparr>)"

definition set_state :: "nat \<Rightarrow> writer \<Rightarrow> 'd DurableSqliteBatch \<Rightarrow> 'd DurableSqliteBatch" where
  "set_state t w s = s\<lparr>jb_state := (jb_state s)(t := w)\<rparr>"

definition put_batch :: "nat \<Rightarrow> Batch \<Rightarrow> 'd DurableSqliteBatch \<Rightarrow> 'd DurableSqliteBatch" where
  "put_batch b x s = s\<lparr>jb_batches := (jb_batches s)(b := x)\<rparr>"

text \<open>\<open>_abort\<close>: closing the connection rolls back what is not committed.\<close>

definition abort :: "nat \<Rightarrow> 'd DurableSqliteBatch \<Rightarrow> 'd DurableSqliteBatch" where
  "abort b s =
     (put_batch b ((jb_batches s b)\<lparr>bt_error := True, bt_done := True\<rparr>) s)
       \<lparr>jb_connected := False, jb_working := None, jb_batch := None, jb_pending := []\<rparr>"

definition close_idle :: "'d DurableSqliteBatch \<Rightarrow> 'd DurableSqliteBatch" where
  "close_idle s = (if jb_batch s = None \<and> jb_connected s then s\<lparr>jb_connected := False, jb_working := None\<rparr> else s)"

text \<open>\<open>_writer_turn\<close>.\<close>

definition take_turn :: "nat \<Rightarrow> 'd DurableSqliteBatch \<Rightarrow> 'd DurableSqliteBatch" where
  "take_turn t s = set_state t Queued (s\<lparr>jb_writers := jb_writers s @ [t], jb_arrivals := jb_arrivals s @ [t]\<rparr>)"

definition leave_turn :: "nat \<Rightarrow> 'd DurableSqliteBatch \<Rightarrow> 'd DurableSqliteBatch" where
  "leave_turn t s = s\<lparr>jb_writers := remove1 t (jb_writers s)\<rparr>"

definition has_turn :: "nat \<Rightarrow> 'd DurableSqliteBatch \<Rightarrow> bool" where
  "has_turn t s = (case jb_writers s of [] \<Rightarrow> False | w # _ \<Rightarrow> w = t)"

text \<open>A closed batch accepts no more writers.\<close>

definition batch_closed :: "nat \<Rightarrow> rat \<Rightarrow> 'd DurableSqliteBatch \<Rightarrow> bool" where
  "batch_closed max_operations now s =
     (case jb_batch s of
        None \<Rightarrow> False
      | Some b \<Rightarrow> max_operations \<le> bt_operations (jb_batches s b) \<or> bt_deadline (jb_batches s b) \<le> now)"

text \<open>Opening a batch: \<open>BEGIN IMMEDIATE\<close> on the connection, whose transaction starts from the database.\<close>

definition open_batch :: "rat \<Rightarrow> rat \<Rightarrow> 'd DurableSqliteBatch \<Rightarrow> nat \<times> 'd DurableSqliteBatch" where
  "open_batch delay now s =
     (case jb_batch s of
        Some b \<Rightarrow> (b, s)
      | None \<Rightarrow>
          let b = jb_next s
          in (b, (put_batch b \<lparr>bt_deadline = now + delay, bt_done = False, bt_error = False, bt_operations = 0\<rparr> s)
               \<lparr>jb_working := Some (jb_database s), jb_batch := Some b, jb_next := Suc b\<rparr>))"

text \<open>The section of \<open>transaction\<close> once the batch is open: \<open>fault\<close> is an error of the savepoint, of its release or of
  starting the flusher.\<close>

definition transaction_section ::
  "'d engine \<Rightarrow> 'd body \<Rightarrow> rat \<Rightarrow> nat \<Rightarrow> rat \<Rightarrow> bool \<Rightarrow> nat \<Rightarrow> 'd DurableSqliteBatch \<Rightarrow> 'd DurableSqliteBatch" where
  "transaction_section sql body delay max_operations now fault t s =
     (let (b, s1) = open_batch delay now (s\<lparr>jb_connected := True\<rparr>);
          d = (case jb_working s1 of None \<Rightarrow> jb_database s1 | Some d \<Rightarrow> d);
          (failure, d') = run_operation sql body d;
          x = jb_batches s1 b;
          operations = bt_operations x + 1;
          s2 = (if fault then abort b s1
                else (put_batch b (x\<lparr>bt_operations := operations,
                         bt_deadline := (if max_operations \<le> operations then 0 else bt_deadline x)\<rparr>) s1)
                       \<lparr>jb_working := Some d', jb_thread := True, jb_pending := jb_pending s1 @ [t]\<rparr>)
      in set_state t (Flushing b failure) (leave_turn t s2))"

text \<open>A refused operation: the second validation, connecting or \<open>BEGIN IMMEDIATE\<close> raised.\<close>

definition refuse_turn :: "bool \<Rightarrow> nat \<Rightarrow> 'd DurableSqliteBatch \<Rightarrow> 'd DurableSqliteBatch" where
  "refuse_turn opened t s = set_state t Refused (leave_turn t (s\<lparr>jb_connected := (jb_connected s \<or> opened)\<rparr>))"

text \<open>What the caller sees once its batch is done; \<open>valid\<close> is the last validation.\<close>

definition finish :: "bool \<Rightarrow> nat \<Rightarrow> sql_error option \<Rightarrow> nat \<Rightarrow> 'd DurableSqliteBatch \<Rightarrow> 'd DurableSqliteBatch" where
  "finish valid b failure t s =
     set_state t
       (if bt_error (jb_batches s b) then Batch_Failed
        else if \<not> valid then Batch_Failed
        else case failure of Some e \<Rightarrow> Raised e | None \<Rightarrow> Acknowledged) s"

datatype commit_result = Commit_Ok | Commit_Failed | Commit_Unknown

text \<open>A pass of the flusher over a batch past its deadline. A validation or the commit that fails aborts the batch;
  \<open>Commit_Unknown\<close> is an error reported after the commit took effect, also that of the validation behind it.\<close>

definition flush_pass :: "commit_result \<Rightarrow> nat \<Rightarrow> 'd DurableSqliteBatch \<Rightarrow> 'd DurableSqliteBatch" where
  "flush_pass result b s =
     (let committed = s\<lparr>jb_database := (case jb_working s of None \<Rightarrow> jb_database s | Some d \<Rightarrow> d), jb_working := None,
                        jb_log := jb_log s @ jb_pending s, jb_pending := []\<rparr>;
          s1 = (case result of
                  Commit_Ok \<Rightarrow> committed\<lparr>jb_commits := jb_commits s + 1, jb_operations := jb_operations s + bt_operations (jb_batches s b)\<rparr>
                | Commit_Failed \<Rightarrow> abort b s
                | Commit_Unknown \<Rightarrow> abort b committed);
          s2 = (put_batch b ((jb_batches s1 b)\<lparr>bt_done := True\<rparr>) s1)\<lparr>jb_batch := None\<rparr>
      in if jb_connected s2 then s2 else s2\<lparr>jb_thread := False\<rparr>)"

text \<open>The flusher ends after a second without a batch.\<close>

definition flush_idle :: "'d DurableSqliteBatch \<Rightarrow> 'd DurableSqliteBatch" where
  "flush_idle s = s\<lparr>jb_connected := False, jb_working := None, jb_thread := False\<rparr>"

section \<open>Interleaved operations\<close>

inductive batch_step ::
  "'d engine \<Rightarrow> (nat \<Rightarrow> 'd body) \<Rightarrow> rat \<Rightarrow> nat \<Rightarrow> 'd DurableSqliteBatch \<Rightarrow> 'd DurableSqliteBatch \<Rightarrow> bool"
  for sql bodies delay max_operations where
  arrives: "jb_state s t = Outside \<Longrightarrow> batch_step sql bodies delay max_operations s (take_turn t s)"
| invalid: "jb_state s t = Outside \<Longrightarrow> batch_step sql bodies delay max_operations s (set_state t Refused s)"
| gives_up: "jb_state s t = Queued \<Longrightarrow> batch_step sql bodies delay max_operations s (set_state t Refused (leave_turn t s))"
| refused: "jb_state s t = Queued \<Longrightarrow> has_turn t s \<Longrightarrow> \<not> batch_closed max_operations now s \<Longrightarrow>
    batch_step sql bodies delay max_operations s (refuse_turn opened t s)"
| transacts: "jb_state s t = Queued \<Longrightarrow> has_turn t s \<Longrightarrow> \<not> batch_closed max_operations now s \<Longrightarrow>
    batch_step sql bodies delay max_operations s (transaction_section sql (bodies t) delay max_operations now fault t s)"
| finishes: "jb_state s t = Flushing b failure \<Longrightarrow> bt_done (jb_batches s b) \<Longrightarrow>
    batch_step sql bodies delay max_operations s (finish valid b failure t s)"
| flushes: "jb_thread s \<Longrightarrow> jb_batch s = Some b \<Longrightarrow> bt_deadline (jb_batches s b) \<le> now \<Longrightarrow>
    batch_step sql bodies delay max_operations s (flush_pass result b s)"
| idles: "jb_thread s \<Longrightarrow> jb_batch s = None \<Longrightarrow> batch_step sql bodies delay max_operations s (flush_idle s)"
| closes: "batch_step sql bodies delay max_operations s (close_idle s)"

inductive batch_reachable ::
  "'d engine \<Rightarrow> (nat \<Rightarrow> 'd body) \<Rightarrow> rat \<Rightarrow> nat \<Rightarrow> 'd \<Rightarrow> 'd DurableSqliteBatch \<Rightarrow> bool"
  for sql bodies delay max_operations d0 where
  start: "new_batch delay (int max_operations) d0 = Some s \<Longrightarrow> batch_reachable sql bodies delay max_operations d0 s"
| step: "batch_reachable sql bodies delay max_operations d0 s \<Longrightarrow> batch_step sql bodies delay max_operations s s' \<Longrightarrow>
    batch_reachable sql bodies delay max_operations d0 s'"

section \<open>The invariant\<close>

definition effect :: "'d engine \<Rightarrow> (nat \<Rightarrow> 'd body) \<Rightarrow> nat \<Rightarrow> 'd \<Rightarrow> 'd" where
  "effect sql bodies t d = snd (outcome sql (bodies t) d)"

text \<open>Operation \<open>t\<close> ran once, after those before it in \<open>ts\<close>, and ended with \<open>failure\<close>.\<close>

definition ran :: "'d engine \<Rightarrow> (nat \<Rightarrow> 'd body) \<Rightarrow> 'd \<Rightarrow> nat list \<Rightarrow> nat \<Rightarrow> sql_error option \<Rightarrow> bool" where
  "ran sql bodies d0 ts t failure \<longleftrightarrow>
     (\<exists>pre post. ts = pre @ t # post \<and> fst (outcome sql (bodies t) (fold (effect sql bodies) pre d0)) = failure)"

lemma ran_append: "ran sql bodies d0 ts t f \<Longrightarrow> ran sql bodies d0 (ts @ us) t f"
  unfolding ran_def by (metis append.assoc append_Cons)

lemma ran_last: "fst (outcome sql (bodies t) (fold (effect sql bodies) ts d0)) = f \<Longrightarrow> ran sql bodies d0 (ts @ [t]) t f"
  unfolding ran_def by blast

text \<open>The open transaction holds the committed operations and those of the batch.\<close>

definition working_inv :: "'d engine \<Rightarrow> (nat \<Rightarrow> 'd body) \<Rightarrow> nat \<Rightarrow> 'd \<Rightarrow> 'd DurableSqliteBatch \<Rightarrow> bool" where
  "working_inv sql bodies max_operations d0 s \<longleftrightarrow>
     jb_database s = fold (effect sql bodies) (jb_log s) d0
     \<and> (case jb_batch s of
          None \<Rightarrow> jb_pending s = []
        | Some b \<Rightarrow> b < jb_next s \<and> jb_working s = Some (fold (effect sql bodies) (jb_log s @ jb_pending s) d0)
            \<and> bt_operations (jb_batches s b) = length (jb_pending s) \<and> length (jb_pending s) \<le> max_operations)"

text \<open>Only the open batch is not done, and an operation that waits has run in its batch.\<close>

definition waiting_inv :: "'d engine \<Rightarrow> (nat \<Rightarrow> 'd body) \<Rightarrow> 'd \<Rightarrow> 'd DurableSqliteBatch \<Rightarrow> bool" where
  "waiting_inv sql bodies d0 s \<longleftrightarrow>
     (\<forall>b. b < jb_next s \<longrightarrow> bt_done (jb_batches s b) \<longleftrightarrow> jb_batch s \<noteq> Some b)
     \<and> (\<forall>t b f. jb_state s t = Flushing b f \<longrightarrow> b < jb_next s \<and>
          (\<not> bt_error (jb_batches s b) \<longrightarrow> ran sql bodies d0 (if jb_batch s = Some b then jb_log s @ jb_pending s else jb_log s) t f))"

definition answer_inv :: "'d engine \<Rightarrow> (nat \<Rightarrow> 'd body) \<Rightarrow> 'd \<Rightarrow> 'd DurableSqliteBatch \<Rightarrow> bool" where
  "answer_inv sql bodies d0 s \<longleftrightarrow>
     (\<forall>t. jb_state s t = Acknowledged \<longrightarrow> ran sql bodies d0 (jb_log s) t None)
     \<and> (\<forall>t e. jb_state s t = Raised e \<longrightarrow> ran sql bodies d0 (jb_log s) t (Some e))"

definition order_inv :: "'d DurableSqliteBatch \<Rightarrow> bool" where
  "order_inv s \<longleftrightarrow> distinct (jb_arrivals s) \<and> (\<forall>t \<in> set (jb_arrivals s). jb_state s t \<noteq> Outside)
     \<and> subseq (jb_log s @ jb_pending s @ jb_writers s) (jb_arrivals s)"

lemmas batch_ops = set_state_def put_batch_def abort_def close_idle_def take_turn_def leave_turn_def refuse_turn_def finish_def flush_pass_def
  flush_idle_def Let_def

definition batch_of :: "'d DurableSqliteBatch \<Rightarrow> nat" where
  "batch_of s = (case jb_batch s of None \<Rightarrow> jb_next s | Some b \<Rightarrow> b)"

lemma section_common:
  fixes sql bodies delay m now fault t s
  defines "s' \<equiv> transaction_section sql (bodies t) delay m now fault t s"
  assumes "working_inv sql bodies m d0 s"
  shows "jb_state s' = (jb_state s)(t := Flushing (batch_of s) (fst (outcome sql (bodies t) (fold (effect sql bodies) (jb_log s @ jb_pending s) d0))))"
    "jb_writers s' = remove1 t (jb_writers s)" "jb_log s' = jb_log s" "jb_arrivals s' = jb_arrivals s" "jb_database s' = jb_database s"
    "jb_next s' = (if jb_batch s = None then Suc (jb_next s) else jb_next s)"
    "b \<noteq> batch_of s \<Longrightarrow> jb_batches s' b = jb_batches s b"
  using assms(2)
  by (auto simp: s'_def run_operation_outcome transaction_section_def open_batch_def batch_ops batch_of_def working_inv_def split: option.splits prod.splits if_splits)

lemma section_fault:
  fixes sql bodies delay m now t s
  defines "s' \<equiv> transaction_section sql (bodies t) delay m now True t s"
  shows "jb_batch s' = None" "jb_pending s' = []" "bt_error (jb_batches s' (batch_of s))" "bt_done (jb_batches s' (batch_of s))"
  by (auto simp: s'_def run_operation_outcome transaction_section_def open_batch_def batch_ops batch_of_def split: option.splits prod.splits)

lemma section_ok:
  fixes sql bodies delay m now t s
  defines "s' \<equiv> transaction_section sql (bodies t) delay m now False t s"
  assumes "working_inv sql bodies m d0 s"
  shows "jb_batch s' = Some (batch_of s)" "jb_pending s' = jb_pending s @ [t]"
    "jb_working s' = Some (fold (effect sql bodies) (jb_log s @ jb_pending s @ [t]) d0)"
    "bt_operations (jb_batches s' (batch_of s)) = Suc (length (jb_pending s))"
    "bt_done (jb_batches s' (batch_of s)) = (jb_batch s \<noteq> None \<and> bt_done (jb_batches s (batch_of s)))"
    "bt_error (jb_batches s' (batch_of s)) = (jb_batch s \<noteq> None \<and> bt_error (jb_batches s (batch_of s)))"
  using assms(2)
  by (auto simp: s'_def run_operation_outcome transaction_section_def open_batch_def batch_ops batch_of_def working_inv_def effect_def split: option.splits prod.splits)

lemma working_section:
  assumes "working_inv sql bodies m d0 s" "\<not> batch_closed m now s" "1 \<le> m"
  shows "working_inv sql bodies m d0 (transaction_section sql (bodies t) delay m now fault t s)"
proof (cases fault)
  case True
  then have f: "fault = True" by simp
  show ?thesis using assms(1) unfolding f working_inv_def section_common [OF assms(1)] section_fault by simp
next
  case False
  have "length (jb_pending s) < m" using assms by (auto simp: batch_closed_def working_inv_def split: option.splits)
  moreover have "batch_of s < (if jb_batch s = None then Suc (jb_next s) else jb_next s)"
    using assms(1) by (auto simp: batch_of_def working_inv_def split: option.splits)
  moreover have f: "fault = False" using False by simp
  ultimately show ?thesis using assms(1) unfolding f working_inv_def section_common [OF assms(1)] section_ok [OF assms(1)]
    by (simp add: section_ok(4) [OF assms(1)])
qed

lemma working_flush: "working_inv sql bodies m d0 s \<Longrightarrow> jb_batch s = Some b \<Longrightarrow> working_inv sql bodies m d0 (flush_pass result b s)"
  by (cases result) (auto simp: working_inv_def batch_ops)

lemma working_step:
  assumes "batch_step sql bodies delay m s s'" "working_inv sql bodies m d0 s" "1 \<le> m"
  shows "working_inv sql bodies m d0 s'"
  using assms(1)
proof (cases rule: batch_step.cases)
  case (transacts t now fault)
  show ?thesis unfolding transacts(1) by (rule working_section [OF assms(2) transacts(4) assms(3)])
next
  case (flushes b now result)
  show ?thesis unfolding flushes(1) by (rule working_flush [OF assms(2) flushes(3)])
qed (use assms(2) in \<open>auto simp: working_inv_def batch_ops split: option.splits\<close>)

lemma waiting_section:
  assumes w: "working_inv sql bodies m d0 s" and v: "waiting_inv sql bodies d0 s" and q: "jb_state s t = Queued"
  shows "waiting_inv sql bodies d0 (transaction_section sql (bodies t) delay m now fault t s)" (is "waiting_inv sql bodies d0 ?s'")
proof -
  note c = section_common [OF w, where t = t and delay = delay and now = now and fault = fault]
  have dn: "bt_done (jb_batches ?s' b) \<longleftrightarrow> jb_batch ?s' \<noteq> Some b" if "b < jb_next ?s'" for b
  proof (cases "b = batch_of s")
    case True
    show ?thesis
    proof (cases fault)
      case True': True
      then show ?thesis using True section_fault [of sql bodies t delay m now s] by simp
    next
      case False
      moreover have "jb_batch s = Some b \<Longrightarrow> \<not> bt_done (jb_batches s b)" using v w unfolding waiting_inv_def working_inv_def by auto
      ultimately show ?thesis using True section_ok(1,5) [OF w, where t = t and delay = delay and now = now] by (auto simp: batch_of_def split: option.splits)
    qed
  next
    case False
    then have "b < jb_next s" "jb_batch s \<noteq> Some b" using that c(6) by (auto simp: batch_of_def split: option.splits if_splits)
    then have "bt_done (jb_batches s b)" using v unfolding waiting_inv_def by blast
    moreover have "jb_batch ?s' \<noteq> Some b"
      using False section_fault(1) [of sql bodies t delay m now s] section_ok(1) [OF w, where t = t and delay = delay and now = now] by (cases fault) auto
    ultimately show ?thesis using c(7) [OF False] by simp
  qed
  have run: "b < jb_next ?s' \<and> (\<not> bt_error (jb_batches ?s' b) \<longrightarrow>
      ran sql bodies d0 (if jb_batch ?s' = Some b then jb_log ?s' @ jb_pending ?s' else jb_log ?s') u f)"
    if u: "jb_state ?s' u = Flushing b f" for u b f
  proof (cases "u = t")
    case True
    then have bf: "b = batch_of s" "f = fst (outcome sql (bodies t) (fold (effect sql bodies) (jb_log s @ jb_pending s) d0))"
      using u c(1) by auto
    have "b < jb_next ?s'" using bf(1) c(6) w by (auto simp: batch_of_def working_inv_def split: option.splits)
    moreover have "ran sql bodies d0 ((jb_log s @ jb_pending s) @ [t]) t f" using bf(2) by (intro ran_last) simp
    ultimately show ?thesis
      using True bf(1) c(3) section_fault(3) [of sql bodies t delay m now s] section_ok(1,2) [OF w, where t = t and delay = delay and now = now]
      by (cases fault) auto
  next
    case False
    then have old: "jb_state s u = Flushing b f" using u c(1) by simp
    then have o: "b < jb_next s" "\<not> bt_error (jb_batches s b) \<Longrightarrow> ran sql bodies d0 (if jb_batch s = Some b then jb_log s @ jb_pending s else jb_log s) u f"
      using v unfolding waiting_inv_def by blast+
    show ?thesis
    proof (cases "b = batch_of s")
      case True
      then have "jb_batch s = Some b" using o(1) by (auto simp: batch_of_def split: option.splits)
      then show ?thesis using o True c(3,6) section_fault(3) [of sql bodies t delay m now s]
          section_ok(1,2,6) [OF w, where t = t and delay = delay and now = now] ran_append [of sql bodies d0 "jb_log s @ jb_pending s" u f "[t]"]
        by (cases fault) auto
    next
      case other: False
      then have nb: "jb_batch s \<noteq> Some b" by (auto simp: batch_of_def)
      moreover have "jb_batch ?s' \<noteq> Some b"
        using other section_fault(1) [of sql bodies t delay m now s] section_ok(1) [OF w, where t = t and delay = delay and now = now] by (cases fault) auto
      ultimately show ?thesis using o c(3,6) c(7) [OF other] by simp
    qed
  qed
  show ?thesis unfolding waiting_inv_def using dn run by blast
qed

lemma flush_fields:
  assumes "jb_batch s = Some b"
  shows "jb_state (flush_pass r b s) = jb_state s" "jb_next (flush_pass r b s) = jb_next s" "jb_batch (flush_pass r b s) = None"
    "jb_log (flush_pass r b s) = (if r = Commit_Failed then jb_log s else jb_log s @ jb_pending s)" "jb_pending (flush_pass r b s) = []"
    "jb_writers (flush_pass r b s) = jb_writers s" "jb_arrivals (flush_pass r b s) = jb_arrivals s"
    "bt_done (jb_batches (flush_pass r b s) b)" "bt_error (jb_batches (flush_pass r b s) b) \<longleftrightarrow> r \<noteq> Commit_Ok \<or> bt_error (jb_batches s b)"
    "c \<noteq> b \<Longrightarrow> jb_batches (flush_pass r b s) c = jb_batches s c" "r = Commit_Ok \<Longrightarrow> jb_pending (flush_pass r b s) = []"
  by (cases r; auto simp: batch_ops)+

lemma waiting_flush:
  assumes "working_inv sql bodies m d0 s" "waiting_inv sql bodies d0 s" "jb_batch s = Some b"
  shows "waiting_inv sql bodies d0 (flush_pass r b s)"
proof -
  note f = flush_fields [OF assms(3)]
  have "bt_done (jb_batches (flush_pass r b s) c)" if "c < jb_next s" for c
    using assms(2,3) that f(8,10) unfolding waiting_inv_def by (cases "c = b") auto
  moreover have "ran sql bodies d0 (jb_log (flush_pass r b s)) t g"
    if t: "jb_state s t = Flushing c g" "\<not> bt_error (jb_batches (flush_pass r b s) c)" for t c g
  proof -
    have ne: "\<not> bt_error (jb_batches s c)" "c = b \<Longrightarrow> r = Commit_Ok" using t(2) f(9,10) by (cases "c = b"; auto)+
    then have "ran sql bodies d0 (if jb_batch s = Some c then jb_log s @ jb_pending s else jb_log s) t g"
      using assms(2) t(1) unfolding waiting_inv_def by blast
    then show ?thesis using f(4) [of r] assms(3) ne(2) ran_append by (auto split: if_splits)
  qed
  moreover have "c < jb_next s" if "jb_state s t = Flushing c g" for t c g using assms(2) that unfolding waiting_inv_def by blast
  ultimately show ?thesis unfolding waiting_inv_def f(1-3) by simp
qed

lemma finish_cases:
  obtains w where "finish valid b f t s = set_state t w s" "\<And>c g. w \<noteq> Flushing c g" "w \<noteq> Outside"
    "w = Acknowledged \<Longrightarrow> f = None \<and> \<not> bt_error (jb_batches s b)" "\<And>e. w = Raised e \<Longrightarrow> f = Some e \<and> \<not> bt_error (jb_batches s b)"
  by (rule that [of "if bt_error (jb_batches s b) then Batch_Failed else if \<not> valid then Batch_Failed else case f of Some e \<Rightarrow> Raised e | None \<Rightarrow> Acknowledged"])
    (auto simp: finish_def split: option.splits if_splits)

lemma waiting_mono:
  assumes "waiting_inv sql bodies d0 s" "jb_next s' = jb_next s" "jb_batches s' = jb_batches s" "jb_batch s' = jb_batch s" "jb_log s' = jb_log s"
    "jb_pending s' = jb_pending s" "\<And>t b f. jb_state s' t = Flushing b f \<Longrightarrow> jb_state s t = Flushing b f"
  shows "waiting_inv sql bodies d0 s'"
  using assms(1,7) unfolding waiting_inv_def assms(2-6) by blast

lemma waiting_step:
  assumes "batch_step sql bodies delay m s s'" "working_inv sql bodies m d0 s" "waiting_inv sql bodies d0 s"
  shows "waiting_inv sql bodies d0 s'"
  using assms(1)
proof (cases rule: batch_step.cases)
  case (transacts t now fault)
  show ?thesis unfolding transacts(1) by (rule waiting_section [OF assms(2,3) transacts(2)])
next
  case (flushes b now result)
  show ?thesis unfolding flushes(1) by (rule waiting_flush [OF assms(2,3) flushes(3)])
next
  case (finishes t b f valid)
  obtain w where w: "s' = set_state t w s" "\<And>c g. w \<noteq> Flushing c g" using finishes(1) finish_cases by metis
  show ?thesis by (rule waiting_mono [OF assms(3)]) (use w in \<open>auto simp: set_state_def split: if_splits\<close>)
qed (rule waiting_mono [OF assms(3)]; auto simp: batch_ops split: if_splits)+

lemma answer_step:
  assumes "batch_step sql bodies delay m s s'" "working_inv sql bodies m d0 s" "waiting_inv sql bodies d0 s" "answer_inv sql bodies d0 s"
  shows "answer_inv sql bodies d0 s'"
  using assms(1)
proof (cases rule: batch_step.cases)
  case (transacts t now fault)
  show ?thesis using assms(4) unfolding transacts(1) answer_inv_def section_common [OF assms(2)] by simp
next
  case (flushes b now result)
  show ?thesis using assms(4) unfolding flushes(1) answer_inv_def flush_fields [OF flushes(3)] by (auto intro: ran_append)
next
  case (finishes t b f valid)
  have "b < jb_next s" using assms(3) finishes(2) unfolding waiting_inv_def by blast
  then have "jb_batch s \<noteq> Some b" using assms(3) finishes(3) unfolding waiting_inv_def by blast
  moreover have "\<not> bt_error (jb_batches s b) \<longrightarrow> ran sql bodies d0 (if jb_batch s = Some b then jb_log s @ jb_pending s else jb_log s) t f"
    using assms(3) finishes(2) unfolding waiting_inv_def by blast
  ultimately have "ran sql bodies d0 (jb_log s) t f" if "\<not> bt_error (jb_batches s b)" using that by simp
  moreover obtain w where w: "s' = set_state t w s" "w = Acknowledged \<Longrightarrow> f = None \<and> \<not> bt_error (jb_batches s b)"
      "\<And>e. w = Raised e \<Longrightarrow> f = Some e \<and> \<not> bt_error (jb_batches s b)" using finishes(1) finish_cases by metis
  ultimately show ?thesis using assms(4) unfolding answer_inv_def w(1) by (auto simp: set_state_def)
qed (use assms(4) in \<open>auto simp: answer_inv_def batch_ops\<close>)

lemma order_mono:
  assumes "order_inv s" "jb_arrivals s' = jb_arrivals s" "\<And>t. jb_state s' t = Outside \<Longrightarrow> jb_state s t = Outside"
    "subseq (jb_log s' @ jb_pending s' @ jb_writers s') (jb_log s @ jb_pending s @ jb_writers s)"
  shows "order_inv s'"
  using assms(1,3) subseq_order.order_trans [OF assms(4)] unfolding order_inv_def assms(2) by auto

lemma subseq_distinct: "subseq xs ys \<Longrightarrow> distinct ys \<Longrightarrow> distinct xs"
  by (induction rule: list_emb.induct) (auto dest: list_emb_set)

lemma subseq_remove1: "subseq (xs @ ys @ remove1 t zs) (xs @ ys @ zs)"
  by (intro list_emb_append_mono subseq_order.order_refl) (induction zs; auto)

lemma order_step:
  assumes "batch_step sql bodies delay m s s'" "working_inv sql bodies m d0 s" "order_inv s"
  shows "order_inv s'"
  using assms(1)
proof (cases rule: batch_step.cases)
  case (arrives t)
  then have "t \<notin> set (jb_arrivals s)" using assms(3) unfolding order_inv_def by blast
  moreover have "subseq ((jb_log s @ jb_pending s @ jb_writers s) @ [t]) (jb_arrivals s @ [t])"
    using assms(3) unfolding order_inv_def by (intro list_emb_append_mono) auto
  ultimately show ?thesis using assms(3) unfolding arrives(1) order_inv_def by (auto simp: batch_ops)
next
  case (transacts t now fault)
  obtain ws where ws: "jb_writers s = t # ws" using transacts(3) by (auto simp: has_turn_def split: list.splits)
  have "subseq (jb_log s' @ jb_pending s' @ jb_writers s') (jb_log s @ jb_pending s @ t # ws)"
  proof (cases fault)
    case True
    have "subseq ([] @ ws) (jb_pending s @ t # ws)" by (intro list_emb_append_mono) auto
    then show ?thesis using True ws section_fault(2) [of sql bodies t delay m now s] section_common(2,3) [OF assms(2)] unfolding transacts(1) by (auto intro: list_emb_append_mono)
  next
    case False
    then show ?thesis using ws section_ok(2) [OF assms(2)] section_common(2,3) [OF assms(2)] unfolding transacts(1) by simp
  qed
  then show ?thesis by (intro order_mono [OF assms(3)]) (use ws section_common(1,4) [OF assms(2)] transacts(1) in \<open>auto split: if_splits\<close>)
next
  case (flushes b now result)
  have "subseq (jb_log s @ jb_writers s) (jb_log s @ jb_pending s @ jb_writers s)" by (auto intro: list_emb_append_mono)
  then show ?thesis by (intro order_mono [OF assms(3)]) (use flush_fields [OF flushes(3)] flushes(1) in \<open>auto split: if_splits\<close>)
next
  case (finishes t b f valid)
  obtain w where w: "s' = set_state t w s" "w \<noteq> Outside" using finishes(1) finish_cases by metis
  show ?thesis by (rule order_mono [OF assms(3)]) (use w in \<open>auto simp: set_state_def split: if_splits\<close>)
qed (rule order_mono [OF assms(3)]; auto simp: batch_ops subseq_remove1 split: if_splits)+

definition batch_inv :: "'d engine \<Rightarrow> (nat \<Rightarrow> 'd body) \<Rightarrow> nat \<Rightarrow> 'd \<Rightarrow> 'd DurableSqliteBatch \<Rightarrow> bool" where
  "batch_inv sql bodies m d0 s \<longleftrightarrow> 1 \<le> m \<and> working_inv sql bodies m d0 s \<and> waiting_inv sql bodies d0 s \<and> answer_inv sql bodies d0 s \<and> order_inv s"

lemma batch_reachable_inv: "batch_reachable sql bodies delay m d0 s \<Longrightarrow> batch_inv sql bodies m d0 s"
proof (induction rule: batch_reachable.induct)
  case (start s)
  then show ?case
    by (auto simp: new_batch_def batch_inv_def working_inv_def waiting_inv_def answer_inv_def order_inv_def split: if_splits)
next
  case (step s s')
  then have i: "1 \<le> m" "working_inv sql bodies m d0 s" "waiting_inv sql bodies d0 s" "answer_inv sql bodies d0 s" "order_inv s"
    by (simp_all add: batch_inv_def)
  show ?case unfolding batch_inv_def
    using i(1) working_step [OF step.hyps(2) i(2,1)] waiting_step [OF step.hyps(2) i(2,3)] answer_step [OF step.hyps(2) i(2-4)]
      order_step [OF step.hyps(2) i(2,5)] by simp
qed

section \<open>A sample run\<close>

text \<open>Two operations share a batch: the first adds one to the database, the second does so and raises.\<close>

definition sample_sql :: "int engine" where
  "sample_sql statement d = (True, d + 1)"

definition sample_bodies :: "nat \<Rightarrow> int body" where
  "sample_bodies t =
     (if t = 0 then Do (Execute '' begin;'') (\<lambda>_ _. Do (Execute ''INSERT'') (\<lambda>_ _. Do Commit (\<lambda>_ _. Return)))
      else Do (Execute ''INSERT'') (\<lambda>_ _. Raise Body_Error))"

fun sample_batch :: "nat \<Rightarrow> int DurableSqliteBatch" where
  "sample_batch 0 = the (new_batch 1 2 0)"
| "sample_batch (Suc 0) = take_turn 0 (sample_batch 0)"
| "sample_batch (Suc (Suc 0)) = take_turn 1 (sample_batch 1)"
| "sample_batch (Suc (Suc (Suc 0))) = transaction_section sample_sql (sample_bodies 0) 1 2 0 False 0 (sample_batch 2)"
| "sample_batch (Suc (Suc (Suc (Suc 0)))) = transaction_section sample_sql (sample_bodies 1) 1 2 0 False 1 (sample_batch 3)"
| "sample_batch (Suc (Suc (Suc (Suc (Suc 0))))) = flush_pass Commit_Ok 0 (sample_batch 4)"
| "sample_batch (Suc (Suc (Suc (Suc (Suc (Suc 0)))))) = finish True 0 None 0 (sample_batch 5)"
| "sample_batch _ = finish True 0 (Some Body_Error) 1 (sample_batch 6)"

abbreviation sample_reachable :: "int DurableSqliteBatch \<Rightarrow> bool" where
  "sample_reachable \<equiv> batch_reachable sample_sql sample_bodies 1 2 0"

lemma sample_guards:
  "jb_state (sample_batch 0) 0 = Outside" "jb_state (sample_batch 1) 1 = Outside"
  "jb_state (sample_batch 2) 0 = Queued" "has_turn 0 (sample_batch 2)" "\<not> batch_closed 2 0 (sample_batch 2)"
  "jb_state (sample_batch 3) 1 = Queued" "has_turn 1 (sample_batch 3)" "\<not> batch_closed 2 0 (sample_batch 3)"
  "jb_thread (sample_batch 4)" "jb_batch (sample_batch 4) = Some 0" "bt_deadline (jb_batches (sample_batch 4) 0) \<le> 0"
  "jb_state (sample_batch 5) 0 = Flushing 0 None" "bt_done (jb_batches (sample_batch 5) 0)"
  "jb_state (sample_batch 6) 1 = Flushing 0 (Some Body_Error)" "bt_done (jb_batches (sample_batch 6) 0)"
  by code_simp+

lemma sample_start: "new_batch 1 (int 2) (0 :: int) = Some (sample_batch 0)"
  by (simp add: new_batch_def)

lemma sample_run: "sample_reachable (sample_batch 7)"
proof -
  have "sample_reachable (sample_batch 0)" by (rule batch_reachable.start [OF sample_start])
  then have "sample_reachable (take_turn 0 (sample_batch 0))" by (rule batch_reachable.step [OF _ batch_step.arrives [OF sample_guards(1)]])
  then have "sample_reachable (take_turn 1 (sample_batch 1))" using batch_reachable.step [OF _ batch_step.arrives [OF sample_guards(2)]] by simp
  then have "sample_reachable (sample_batch 2)" by (simp add: numeral_2_eq_2)
  then have "sample_reachable (sample_batch 3)"
    using batch_reachable.step [OF _ batch_step.transacts [OF sample_guards(3-5)]] by (simp add: numeral_3_eq_3 numeral_2_eq_2)
  then have "sample_reachable (sample_batch 4)"
    using batch_reachable.step [OF _ batch_step.transacts [OF sample_guards(6-8)]] by (simp add: eval_nat_numeral)
  then have "sample_reachable (sample_batch 5)"
    using batch_reachable.step [OF _ batch_step.flushes [OF sample_guards(9-11)]] by (simp add: eval_nat_numeral)
  then have "sample_reachable (sample_batch 6)"
    using batch_reachable.step [OF _ batch_step.finishes [OF sample_guards(12,13)]] by (simp add: eval_nat_numeral)
  then show ?thesis
    using batch_reachable.step [OF _ batch_step.finishes [OF sample_guards(14,15)]] by (simp add: eval_nat_numeral)
qed

section \<open>Properties\<close>

text \<open>C13. The committed database is the one that the operations of the log give when each runs alone and in
  turn, in the order in which they asked for it, each at most once. What one of them does there is what \<open>outcome\<close> says: what its
  statements since its last rollback write, or nothing when it raised or opened a transaction and did not commit it. An acknowledged
  operation is in the log and ended without an error there; one that was answered with its own error is in the log,
  raised that error there and left the database as it was; and no batch holds more operations than configured.
  Whatever savepoints, commits, validations and connections fail.\<close>

theorem acknowledged_is_durable:
  assumes "batch_reachable sql bodies delay m d0 s"
  shows "jb_database s = fold (\<lambda>t d. snd (outcome sql (bodies t) d)) (jb_log s) d0
    \<and> subseq (jb_log s) (jb_arrivals s) \<and> distinct (jb_log s)
    \<and> (\<forall>t. jb_state s t = Acknowledged \<longrightarrow> ran sql bodies d0 (jb_log s) t None)
    \<and> (\<forall>t e. jb_state s t = Raised e \<longrightarrow> (\<exists>pre post. jb_log s = pre @ t # post
         \<and> outcome sql (bodies t) (fold (effect sql bodies) pre d0) = (Some e, fold (effect sql bodies) pre d0)))
    \<and> (\<forall>b. jb_batch s = Some b \<longrightarrow> bt_operations (jb_batches s b) \<le> m)"
proof -
  have inv: "working_inv sql bodies m d0 s" "answer_inv sql bodies d0 s" "order_inv s"
    using batch_reachable_inv [OF assms] by (simp_all add: batch_inv_def)
  have eff: "effect sql bodies = (\<lambda>t d. snd (outcome sql (bodies t) d))" by (intro ext) (simp add: effect_def)
  have "subseq (jb_log s @ []) (jb_log s @ jb_pending s @ jb_writers s)" by (intro list_emb_append_mono) auto
  then have sub: "subseq (jb_log s) (jb_arrivals s)" using inv(3) subseq_order.order_trans unfolding order_inv_def by fastforce
  then have dist: "distinct (jb_log s)" using inv(3) subseq_distinct unfolding order_inv_def by blast
  have raised: "\<exists>pre post. jb_log s = pre @ t # post
      \<and> outcome sql (bodies t) (fold (effect sql bodies) pre d0) = (Some e, fold (effect sql bodies) pre d0)" if "jb_state s t = Raised e" for t e
    using inv(2) that raised_no_effect unfolding answer_inv_def ran_def by (metis prod.collapse)
  show ?thesis using inv(1,2) sub dist raised unfolding working_inv_def answer_inv_def eff by auto
qed

theorem acknowledged_is_durable_witness:
  "sample_reachable (sample_batch 7) \<and> jb_state (sample_batch 7) 0 = Acknowledged \<and> ran sample_sql sample_bodies 0 (jb_log (sample_batch 7)) 0 None
    \<and> jb_database (sample_batch 7) = 1 \<and> jb_state (sample_batch 7) 1 = Raised Body_Error
    \<and> (\<exists>pre post. jb_log (sample_batch 7) = pre @ 1 # post)"
proof -
  have "jb_state (sample_batch 7) 0 = Acknowledged" "jb_database (sample_batch 7) = 1" "jb_state (sample_batch 7) 1 = Raised Body_Error" by code_simp+
  then show ?thesis using sample_run acknowledged_is_durable [OF sample_run] by blast
qed

end
