(* ===== verification/Noded_Ledger.thy ===== *)
theory Noded_Ledger
  imports Transition_Ledger "HOL-Library.Word"
begin

text \<open>
  \<open>src/runtime/noded/src/admission/ledger.rs\<close>: the node daemon's port of the transition ledger. Quantities are
  \<open>u64\<close>, so sums wrap at \<open>2 ^ 64\<close> (a release build does not check them); claims and waiting entries are
  \<open>BTreeMap\<close>s keyed by token, which iterate in key order. The \<open>HashMap\<close> of forecasts is an association list,
  whose order nothing observes.

  \<open>abs_ledger\<close> reads the port's state as a state of the agent's ledger (\<open>Transition_Ledger\<close>). The lemmas show that
  each operation commutes with it while the sums stay below \<open>2 ^ 64\<close>; in particular that iterating in token order
  is iterating in insertion order.
\<close>

section \<open>Data\<close>

type_synonym u64 = "64 word"
type_synonym Owner = "string \<times> u64"

datatype Kind = Startup | Restore | Capture | Publication

definition Kind_ALL :: "Kind list" where
  "Kind_ALL = [Startup, Restore, Capture, Publication]"

fun as_str :: "Kind \<Rightarrow> string" where
  "as_str Startup = ''startup''"
| "as_str Restore = ''restore''"
| "as_str Capture = ''capture''"
| "as_str Publication = ''publication''"

definition parse_kind :: "string \<Rightarrow> Kind option" where
  "parse_kind text = find (\<lambda>kind. as_str kind = text) Kind_ALL"

lemma parse_as_str: "parse_kind (as_str k) = Some k"
  by (cases k) (simp_all add: parse_kind_def Kind_ALL_def)

datatype NResource = NMemory | NRamBacking

record Cost =
  nc_kind :: Kind
  nc_memory_bytes :: "u64 option"
  nc_read_bytes :: "u64 option"
  nc_write_bytes :: "u64 option"
  nc_provenance :: string
  nc_ram_backing_bytes :: "u64 option"

definition Cost_new :: "Kind \<Rightarrow> u64 option \<Rightarrow> Cost" where
  "Cost_new kind memory = \<lparr>nc_kind = kind, nc_memory_bytes = memory, nc_read_bytes = None, nc_write_bytes = None,
     nc_provenance = ''unknown'', nc_ram_backing_bytes = None\<rparr>"

fun nc_get :: "NResource \<Rightarrow> Cost \<Rightarrow> u64 option" where
  "nc_get NMemory c = nc_memory_bytes c"
| "nc_get NRamBacking c = nc_ram_backing_bytes c"

record Shape =
  sh_vcpu :: rat
  sh_memory_mb :: u64
  sh_disk_mb :: u64

record Claim =
  nk_token :: u64
  nk_owner :: Owner
  nk_cost :: Cost
  nk_requested :: "Shape option"

section \<open>The map of the standard library\<close>

fun bt_insert :: "'k::linorder \<Rightarrow> 'v \<Rightarrow> ('k \<times> 'v) list \<Rightarrow> ('k \<times> 'v) list" where
  "bt_insert k v [] = [(k, v)]"
| "bt_insert k v ((k', v') # m) =
     (if k < k' then (k, v) # (k', v') # m else if k = k' then (k, v) # m else (k', v') # bt_insert k v m)"

lemma bt_insert_last: "(\<And>k' v'. (k', v') \<in> set m \<Longrightarrow> k' < k) \<Longrightarrow> bt_insert k v m = m @ [(k, v)]"
  by (induction m) (fastforce simp: not_less)+

section \<open>The ledger\<close>

record Ledger =
  nl_next :: u64
  nl_claims :: "(u64 \<times> Claim) list"
  nl_waiting :: "(u64 \<times> Claim) list"
  nl_growth :: "(Owner, Cost) dict"
  nl_growth_totals :: "NResource \<Rightarrow> u64"
  nl_growth_unknown :: u64

definition Ledger_new :: Ledger where
  "Ledger_new = \<lparr>nl_next = 0, nl_claims = [], nl_waiting = [], nl_growth = [], nl_growth_totals = (\<lambda>_. 0), nl_growth_unknown = 0\<rparr>"

definition nl_wait :: "Ledger \<Rightarrow> Owner \<Rightarrow> Cost \<Rightarrow> u64 \<times> Ledger" where
  "nl_wait l owner cost =
     (let n = nl_next l + 1
      in (n, l\<lparr>nl_next := n, nl_waiting := bt_insert n \<lparr>nk_token = n, nk_owner = owner, nk_cost = cost, nk_requested = None\<rparr> (nl_waiting l)\<rparr>))"

definition nl_unwait :: "Ledger \<Rightarrow> u64 \<Rightarrow> Ledger" where
  "nl_unwait l token = l\<lparr>nl_waiting := AList.delete token (nl_waiting l)\<rparr>"

definition nl_refresh_wait_cost :: "Ledger \<Rightarrow> Owner \<Rightarrow> Cost \<Rightarrow> Ledger" where
  "nl_refresh_wait_cost l owner cost =
     l\<lparr>nl_waiting := map (\<lambda>(token, item).
        if nk_owner item = owner \<and> nc_kind (nk_cost item) = nc_kind cost then (token, item\<lparr>nk_cost := cost\<rparr>) else (token, item)) (nl_waiting l)\<rparr>"

definition nl_claim :: "Ledger \<Rightarrow> Owner \<Rightarrow> Cost \<Rightarrow> Shape option \<Rightarrow> Claim \<times> Ledger" where
  "nl_claim l owner cost requested =
     (let n = nl_next l + 1;
          claim = \<lparr>nk_token = n, nk_owner = owner, nk_cost = cost, nk_requested = requested\<rparr>
      in (claim, l\<lparr>nl_next := n, nl_claims := bt_insert n claim (nl_claims l)\<rparr>))"

definition nl_active_count :: "Ledger \<Rightarrow> Kind \<Rightarrow> nat" where
  "nl_active_count l kind = length (filter (\<lambda>item. nc_kind (nk_cost item) = kind) (map snd (nl_claims l)))"

definition nl_release :: "Ledger \<Rightarrow> Claim \<Rightarrow> ledger_error + Ledger" where
  "nl_release l claim =
     (if map_of (nl_claims l) (nk_token claim) \<noteq> Some claim then Inl ClaimNotOwned
      else Inr (l\<lparr>nl_claims := AList.delete (nk_token claim) (nl_claims l)\<rparr>))"

definition nl_resource_reservations :: "Ledger \<Rightarrow> (Owner \<times> Shape) list" where
  "nl_resource_reservations l =
     fold (\<lambda>item result. case nk_requested item of None \<Rightarrow> result | Some r \<Rightarrow> AList.update (nk_owner item) r result)
       (map snd (nl_claims l)) []"

definition word_or_zero :: "u64 option \<Rightarrow> u64" where
  "word_or_zero v = (case v of None \<Rightarrow> 0 | Some x \<Rightarrow> x)"

definition nl_forget :: "Ledger \<Rightarrow> Owner \<Rightarrow> Ledger" where
  "nl_forget l owner =
     (case map_of (nl_growth l) owner of
        None \<Rightarrow> l
      | Some previous \<Rightarrow>
          l\<lparr>nl_growth := AList.delete owner (nl_growth l),
            nl_growth_totals := (\<lambda>r. nl_growth_totals l r - word_or_zero (nc_get r previous)),
            nl_growth_unknown := nl_growth_unknown l - (if nc_memory_bytes previous = None then 1 else 0)\<rparr>)"

definition nl_set_growth_forecast :: "Ledger \<Rightarrow> Owner \<Rightarrow> Cost option \<Rightarrow> Ledger" where
  "nl_set_growth_forecast l owner cost =
     (let l1 = nl_forget l owner
      in case cost of
           None \<Rightarrow> l1
         | Some c \<Rightarrow>
             l1\<lparr>nl_growth_totals := (\<lambda>r. nl_growth_totals l1 r + word_or_zero (nc_get r c)),
                nl_growth_unknown := nl_growth_unknown l1 + (if nc_memory_bytes c = None then 1 else 0),
                nl_growth := AList.update owner c (nl_growth l1)\<rparr>)"

definition nl_set_growth_forecasts :: "Ledger \<Rightarrow> (Owner \<times> Cost) list \<Rightarrow> Ledger" where
  "nl_set_growth_forecasts l forecasts =
     fold (\<lambda>(owner, cost) l. nl_set_growth_forecast l owner (Some cost)) forecasts
       (fold (\<lambda>owner l. nl_set_growth_forecast l owner None) (map fst (nl_growth l)) l)"

section \<open>Projections\<close>

text \<open>One demand against the peaks: an owner that has one takes the larger, one that has none is added when the value is
  positive.\<close>

definition nl_peak :: "Owner \<times> u64 option \<Rightarrow> (Owner \<times> u64) list \<Rightarrow> (Owner \<times> u64) list" where
  "nl_peak = (\<lambda>(owner, value) peaks.
     case value of
       None \<Rightarrow> peaks
     | Some v \<Rightarrow>
         (case map_of peaks owner of
            Some w \<Rightarrow> AList.update owner (max w v) peaks
          | None \<Rightarrow> if 0 < v then peaks @ [(owner, v)] else peaks))"

definition saturating_sub :: "u64 \<Rightarrow> u64 \<Rightarrow> u64" where
  "saturating_sub a b = (if a < b then 0 else a - b)"

definition nl_total :: "Ledger \<Rightarrow> NResource \<Rightarrow> (Owner \<times> u64 option) list \<Rightarrow> u64" where
  "nl_total l resource extra =
     (let peaks = fold nl_peak (map (\<lambda>item. (nk_owner item, nc_get resource (nk_cost item))) (map snd (nl_claims l)) @ extra) []
      in fold (\<lambda>(owner, value) total.
            total + saturating_sub value
              (word_or_zero (case map_of (nl_growth l) owner of None \<Rightarrow> None | Some cost \<Rightarrow> nc_get resource cost)))
          peaks (nl_growth_totals l resource))"

definition nl_known_memory_bytes :: "Ledger \<Rightarrow> u64" where
  "nl_known_memory_bytes l = nl_total l NMemory []"

definition nl_pending :: "Ledger \<Rightarrow> Kind \<Rightarrow> Claim list" where
  "nl_pending l kind =
     (let active = map nk_owner (filter (\<lambda>item. nc_kind (nk_cost item) = kind) (map snd (nl_claims l)))
      in fold (\<lambda>item owners.
           if nc_kind (nk_cost item) = kind \<and> nk_owner item \<notin> set active \<and> \<not> list_ex (\<lambda>seen. nk_owner seen = nk_owner item) owners
           then owners @ [item] else owners)
         (map snd (nl_waiting l)) [])"

definition nl_projected_memory_bytes :: "Ledger \<Rightarrow> Owner \<Rightarrow> Cost \<Rightarrow> NResource \<Rightarrow> u64" where
  "nl_projected_memory_bytes l owner cost resource =
     nl_total l resource
       ((owner, nc_get resource cost)
        # (if nc_kind cost = Startup
           then map (\<lambda>item. (nk_owner item, nc_get resource (nk_cost item))) (nl_pending l Restore) else []))"

definition nl_foreground_waiting :: "Ledger \<Rightarrow> bool" where
  "nl_foreground_waiting l = list_ex (\<lambda>kind. nl_pending l kind \<noteq> []) [Startup, Restore]"

definition nl_next_pending :: "Ledger \<Rightarrow> Kind \<Rightarrow> nat \<Rightarrow> Claim option" where
  "nl_next_pending l kind capacity =
     (if capacity \<le> nl_active_count l kind then None else case nl_pending l kind of [] \<Rightarrow> None | item # _ \<Rightarrow> Some item)"

definition nl_limit :: "(Kind \<times> nat) list \<Rightarrow> Kind \<Rightarrow> nat" where
  "nl_limit limits kind = (case find (\<lambda>(k, _). k = kind) limits of None \<Rightarrow> 0 | Some (_, value) \<Rightarrow> value)"

definition nl_next_memory_demands :: "Ledger \<Rightarrow> (Kind \<times> nat) list \<Rightarrow> NResource \<Rightarrow> u64" where
  "nl_next_memory_demands l limits resource =
     (let charge = (\<lambda>item. nl_total l resource [(nk_owner item, nc_get resource (nk_cost item))])
      in case nl_next_pending l Restore (nl_limit limits Restore) of
           Some item \<Rightarrow> charge item
         | None \<Rightarrow>
             (case nl_next_pending l Startup (nl_limit limits Startup) of
                Some item \<Rightarrow> charge item
              | None \<Rightarrow> nl_total l resource []))"

section \<open>Snapshots\<close>

record NDemandSnapshot =
  nd_admitted_demand_bytes :: u64
  nd_pending_demand_bytes :: u64
  nd_unknown_transition_memory_costs :: u64
  nd_admitted_ram_backing_bytes :: u64
  nd_pending_ram_backing_bytes :: u64

definition nl_unknown :: "Claim list \<Rightarrow> u64" where
  "nl_unknown items = of_nat (length (filter (\<lambda>item. nc_memory_bytes (nk_cost item) = None) items))"

definition nl_demand_snapshot :: "Ledger \<Rightarrow> (Kind \<times> nat) list \<Rightarrow> NDemandSnapshot" where
  "nl_demand_snapshot l limits =
     (let admitted = nl_known_memory_bytes l;
          unknown = fold (\<lambda>(kind, _) unknown. unknown + nl_unknown (nl_pending l kind)) limits
            (nl_unknown (map snd (nl_claims l)) + nl_growth_unknown l);
          admitted_ram = nl_total l NRamBacking []
      in \<lparr>nd_admitted_demand_bytes = admitted,
          nd_pending_demand_bytes = saturating_sub (nl_next_memory_demands l limits NMemory) admitted,
          nd_unknown_transition_memory_costs = unknown,
          nd_admitted_ram_backing_bytes = admitted_ram,
          nd_pending_ram_backing_bytes = saturating_sub (nl_next_memory_demands l limits NRamBacking) admitted_ram\<rparr>)"

section \<open>Calls\<close>

datatype nl_call =
    Wait_Call Owner Cost | Unwait_Call u64 | Refresh_Call Owner Cost | Claim_Call Owner Cost "Shape option" | Release_Call Claim
  | Forecast_Call Owner "Cost option" | Forecasts_Call "(Owner \<times> Cost) list"

datatype nl_answer = Token u64 | Claimed Claim | Released bool | Done

fun nl_apply :: "nl_call \<Rightarrow> Ledger \<Rightarrow> nl_answer \<times> Ledger" where
  "nl_apply (Wait_Call owner cost) l = (case nl_wait l owner cost of (t, l') \<Rightarrow> (Token t, l'))"
| "nl_apply (Unwait_Call token) l = (Done, nl_unwait l token)"
| "nl_apply (Refresh_Call owner cost) l = (Done, nl_refresh_wait_cost l owner cost)"
| "nl_apply (Claim_Call owner cost requested) l = (case nl_claim l owner cost requested of (c, l') \<Rightarrow> (Claimed c, l'))"
| "nl_apply (Release_Call claim) l = (case nl_release l claim of Inl _ \<Rightarrow> (Released False, l) | Inr l' \<Rightarrow> (Released True, l'))"
| "nl_apply (Forecast_Call owner cost) l = (Done, nl_set_growth_forecast l owner cost)"
| "nl_apply (Forecasts_Call forecasts) l = (Done, nl_set_growth_forecasts l forecasts)"

fun nl_run :: "nl_call list \<Rightarrow> Ledger \<Rightarrow> nl_answer list \<times> Ledger" where
  "nl_run [] l = ([], l)"
| "nl_run (c # cs) l = (case nl_apply c l of (a, l') \<Rightarrow> case nl_run cs l' of (as, l'') \<Rightarrow> (a # as, l''))"

section \<open>Reading the port as the agent's ledger\<close>

fun abs_kind :: "Kind \<Rightarrow> TransitionKind" where
  "abs_kind Startup = STARTUP"
| "abs_kind Restore = RESTORE"
| "abs_kind Capture = CAPTURE"
| "abs_kind Publication = PUBLICATION"

fun abs_resource :: "NResource \<Rightarrow> Resource" where
  "abs_resource NMemory = Memory"
| "abs_resource NRamBacking = Ram_Backing"

fun rep_resource :: "Resource \<Rightarrow> NResource" where
  "rep_resource Memory = NMemory"
| "rep_resource Ram_Backing = NRamBacking"

definition abs_owner :: "Owner \<Rightarrow> owner" where
  "abs_owner = (\<lambda>(sandbox_id, generation). Some (sandbox_id, uint generation))"

definition abs_cost :: "Cost \<Rightarrow> TransitionCost" where
  "abs_cost c = \<lparr>tc_kind = abs_kind (nc_kind c), tc_memory_bytes = map_option uint (nc_memory_bytes c),
     tc_read_bytes = map_option uint (nc_read_bytes c), tc_write_bytes = map_option uint (nc_write_bytes c),
     tc_provenance = nc_provenance c, tc_ram_backing_bytes = map_option uint (nc_ram_backing_bytes c)\<rparr>"

definition abs_shape :: "Shape \<Rightarrow> ResourceQuantity" where
  "abs_shape s = ResourceQuantity (sh_vcpu s) (uint (sh_memory_mb s)) (uint (sh_disk_mb s))"

definition abs_claim :: "Claim \<Rightarrow> TransitionClaim" where
  "abs_claim c = \<lparr>cl_token = unat (nk_token c), cl_owner = abs_owner (nk_owner c), cl_cost = abs_cost (nk_cost c),
     cl_requested = map_option abs_shape (nk_requested c)\<rparr>"

abbreviation abs_claims :: "(u64 \<times> Claim) list \<Rightarrow> (nat, TransitionClaim) dict" where
  "abs_claims \<equiv> map (map_prod unat abs_claim)"

abbreviation abs_demand :: "Owner \<times> u64 option \<Rightarrow> demand" where
  "abs_demand \<equiv> map_prod abs_owner (map_option uint)"

text \<open>Claims, queue and forecasts agree; the running sums agree modulo \<open>2 ^ 64\<close>.\<close>

definition implements :: "Ledger \<Rightarrow> TransitionLedger \<Rightarrow> bool" where
  "implements l pl \<longleftrightarrow> lg_next pl = unat (nl_next l) \<and> lg_claims pl = abs_claims (nl_claims l) \<and> lg_waiting pl = abs_claims (nl_waiting l)
     \<and> lg_growth pl = map (map_prod abs_owner abs_cost) (nl_growth l)
     \<and> (\<forall>r. nl_growth_totals l r = word_of_int (lg_growth_totals pl (abs_resource r)))
     \<and> nl_growth_unknown l = word_of_int (lg_growth_unknown pl)"

lemma abs_kind_eq [simp]: "abs_kind a = abs_kind b \<longleftrightarrow> a = b"
  by (cases a; cases b) simp_all

lemma rep_abs [simp]: "rep_resource (abs_resource r) = r"
  by (cases r) simp_all

lemma uint_eq [simp]: "uint a = uint b \<longleftrightarrow> a = b" and unat_eq [simp]: "unat a = unat b \<longleftrightarrow> a = b" for a b :: u64
  using word_uint_eq_iff [of a b] word_unat_eq_iff [of a b] by simp_all

lemma abs_owner_eq [simp]: "abs_owner a = abs_owner b \<longleftrightarrow> a = b"
  by (auto simp: abs_owner_def split: prod.splits)

lemma map_uint_eq [simp]: "map_option uint a = map_option uint b \<longleftrightarrow> a = b" for a b :: "u64 option"
  by (cases a; cases b) simp_all

lemma abs_cost_eq [simp]: "abs_cost a = abs_cost b \<longleftrightarrow> a = b"
  by (auto simp: abs_cost_def)

lemma abs_shape_eq [simp]: "abs_shape a = abs_shape b \<longleftrightarrow> a = b"
  by (auto simp: abs_shape_def)

lemma map_shape_eq [simp]: "map_option abs_shape a = map_option abs_shape b \<longleftrightarrow> a = b"
  by (cases a; cases b) simp_all

lemma abs_claim_eq [simp]: "abs_claim a = abs_claim b \<longleftrightarrow> a = b"
  by (auto simp: abs_claim_def)

lemma abs_get [simp]:
  "cost_get (abs_resource r) (abs_cost c) = map_option uint (nc_get r c)" "cost_get r' (abs_cost c) = map_option uint (nc_get (rep_resource r') c)"
  "tc_kind (abs_cost c) = abs_kind (nc_kind c)" "cl_cost (abs_claim k) = abs_cost (nk_cost k)" "cl_owner (abs_claim k) = abs_owner (nk_owner k)"
  "cl_token (abs_claim k) = unat (nk_token k)" "tc_memory_bytes (abs_cost c) = map_option uint (nc_memory_bytes c)"
  by (cases r; simp add: abs_cost_def abs_claim_def; fail | cases r'; simp add: abs_cost_def abs_claim_def; fail | simp add: abs_cost_def abs_claim_def)+

lemma abs_cost_valid: "cost_valid (abs_cost c)"
  by (auto simp: cost_valid_def nonneg_opt_def abs_cost_def split: option.splits)

lemma or_zero_uint [simp]: "or_zero (map_option uint v) = uint (word_or_zero v)" for v :: "u64 option"
  by (cases v) (simp_all add: word_or_zero_def)

text \<open>Association lists under an injective renaming of their keys.\<close>

lemma map_of_rename: "inj f \<Longrightarrow> map_of (map (map_prod f g) xs) (f k) = map_option g (map_of xs k)"
  by (induction xs) (auto simp: inj_eq)

lemma delete_rename: "inj f \<Longrightarrow> AList.delete (f k) (map (map_prod f g) xs) = map (map_prod f g) (AList.delete k xs)"
  by (induction xs) (auto simp: inj_eq)

lemma update_rename: "inj f \<Longrightarrow> AList.update (f k) (g v) (map (map_prod f g) xs) = map (map_prod f g) (AList.update k v xs)"
  by (induction xs) (auto simp: inj_eq)

lemma inj_unat: "inj (unat :: u64 \<Rightarrow> nat)"
  by (simp add: inj_def)

lemma inj_abs_owner: "inj abs_owner"
  by (simp add: inj_def)

lemmas rename_claims = map_of_rename [OF inj_unat] delete_rename [OF inj_unat] update_rename [OF inj_unat]
lemmas rename_owners = map_of_rename [OF inj_abs_owner] delete_rename [OF inj_abs_owner] update_rename [OF inj_abs_owner]

section \<open>Every operation commutes\<close>

definition next_fits :: "Ledger \<Rightarrow> bool" where
  "next_fits l \<longleftrightarrow> unat (nl_next l) + 1 < 2 ^ 64"

lemma unat_next: "next_fits l \<Longrightarrow> unat (nl_next l + 1) = Suc (unat (nl_next l))"
  by (simp add: next_fits_def unat_word_ariths)

lemma insert_token:
  assumes "claims_ok (unat n) (abs_claims m)" "unat (n + 1) = Suc (unat n)"
  shows "abs_claims (bt_insert (n + 1) c m) = AList.update (Suc (unat n)) (abs_claim c) (abs_claims m)"
proof -
  have le: "unat k \<le> unat n" if "(k, v) \<in> set m" for k v
    using assms(1) that by (force simp: claims_ok_def)
  then have "k < n + 1" if "(k, v) \<in> set m" for k v using that assms(2) by (metis le_imp_less_Suc word_less_nat_alt)
  then have "bt_insert (n + 1) c m = m @ [(n + 1, c)]" by (rule bt_insert_last)
  moreover have "Suc (unat n) \<notin> fst ` set (abs_claims m)" using le by force
  ultimately show ?thesis using assms(2) by (simp add: dict_update_new)
qed

lemma implements_new: "implements Ledger_new new_ledger"
  by (simp add: implements_def Ledger_new_def new_ledger_def)

lemma implements_wait:
  assumes "implements l pl" "ledger_inv pl" "next_fits l"
  shows "implements (snd (nl_wait l owner cost)) (snd (ledger_wait pl (abs_owner owner) (abs_cost cost)))"
    and "fst (ledger_wait pl (abs_owner owner) (abs_cost cost)) = unat (fst (nl_wait l owner cost))"
  using insert_token [of "nl_next l" "nl_waiting l"] assms
  by (auto simp: nl_wait_def ledger_wait_def Let_def implements_def unat_next ledger_inv_def abs_claim_def)

lemma implements_unwait: "implements l pl \<Longrightarrow> implements (nl_unwait l token) (ledger_unwait pl (unat token))"
  by (simp add: implements_def nl_unwait_def ledger_unwait_def rename_claims)

lemma implements_refresh: "implements l pl \<Longrightarrow> implements (nl_refresh_wait_cost l owner cost) (refresh_wait_cost pl (abs_owner owner) (abs_cost cost))"
  by (auto simp: implements_def nl_refresh_wait_cost_def refresh_wait_cost_def abs_claim_def abs_cost_def)

lemma implements_claim:
  assumes "implements l pl" "ledger_inv pl" "next_fits l"
  shows "implements (snd (nl_claim l owner cost requested)) (snd (ledger_claim pl (abs_owner owner) (abs_cost cost) (map_option abs_shape requested)))"
    and "fst (ledger_claim pl (abs_owner owner) (abs_cost cost) (map_option abs_shape requested)) = abs_claim (fst (nl_claim l owner cost requested))"
  using insert_token [of "nl_next l" "nl_claims l"] assms
  by (auto simp: nl_claim_def ledger_claim_def Let_def implements_def unat_next ledger_inv_def abs_claim_def)

lemma implements_release:
  assumes "implements l pl"
  shows "rel_sum (=) implements (nl_release l claim) (ledger_release pl (abs_claim claim))"
proof -
  have get: "dict_get (lg_claims pl) (cl_token (abs_claim claim)) = map_option abs_claim (map_of (nl_claims l) (nk_token claim))"
    using assms by (simp add: implements_def rename_claims)
  show ?thesis
  proof (cases "map_of (nl_claims l) (nk_token claim) = Some claim")
    case True
    then show ?thesis using assms get by (simp add: nl_release_def ledger_release_def implements_def rename_claims)
  next
    case False
    then have "dict_get (lg_claims pl) (cl_token (abs_claim claim)) \<noteq> Some (abs_claim claim)" using get by auto
    then show ?thesis using False by (simp add: nl_release_def ledger_release_def)
  qed
qed

lemma delete_missing: "dict_get d k = None \<Longrightarrow> AList.delete k d = d"
  by (rule dict_delete_absent) (simp only: dict_get_None_iff not_False_eq_True)

lemma implements_forecast:
  assumes "implements l pl"
  shows "implements (nl_set_growth_forecast l owner cost) (set_growth_forecast pl (abs_owner owner) (map_option abs_cost cost))"
  using assms
  by (cases cost; cases "map_of (nl_growth l) owner")
    (auto simp: implements_def nl_set_growth_forecast_def nl_forget_def set_growth_forecast_def apply_growth_def Let_def rename_owners
      delete_missing)

lemma implements_forecasts:
  assumes "implements l pl"
  shows "implements (nl_set_growth_forecasts l forecasts) (set_growth_forecasts pl (map (map_prod abs_owner abs_cost) forecasts))"
proof -
  have forget: "implements (fold (\<lambda>owner l. nl_set_growth_forecast l owner None) os l)
      (fold (\<lambda>owner l. set_growth_forecast l owner None) (map abs_owner os) pl)" if "implements l pl" for os l pl
    using that by (induction os arbitrary: l pl) (auto simp: implements_forecast [where cost = None, simplified])
  have add: "implements (fold (\<lambda>(owner, cost) l. nl_set_growth_forecast l owner (Some cost)) fs l)
      (fold (\<lambda>(owner, cost) l. set_growth_forecast l owner (Some cost)) (map (map_prod abs_owner abs_cost) fs) pl)"
    if "implements l pl" for fs l pl
    using that by (induction fs arbitrary: l pl) (auto simp: implements_forecast [where cost = "Some c" for c, simplified])
  have keys: "map fst (lg_growth pl) = map abs_owner (map fst (nl_growth l))" using assms by (simp add: implements_def)
  show ?thesis unfolding nl_set_growth_forecasts_def set_growth_forecasts_def keys by (intro add forget assms)
qed

section \<open>Every projection agrees\<close>

lemma max_word_eq: "uint (max a b) = max (uint a) (uint b)" for a b :: u64
  by (simp add: max_def word_le_def)

lemma implements_peak:
  "map (map_prod abs_owner uint) (nl_peak d peaks) = bump_peak (abs_demand d) (map (map_prod abs_owner uint) peaks)"
proof -
  obtain owner v where d: "d = (owner, v)" by (cases d)
  show ?thesis
  proof (cases v)
    case None
    then show ?thesis by (simp add: d nl_peak_def bump_peak_def)
  next
    case (Some x)
    have get: "map_of (map (map_prod abs_owner uint) peaks) (abs_owner owner) = map_option uint (map_of peaks owner)"
      by (rule rename_owners(1))
    show ?thesis
    proof (cases "map_of peaks owner")
      case None
      then have "abs_owner owner \<notin> fst ` set (map (map_prod abs_owner uint) peaks)" by (force simp: map_of_eq_None_iff)
      then show ?thesis using None get Some by (auto simp: d nl_peak_def bump_peak_def dict_update_new word_less_def)
    next
      case (Some w)
      have same: "AList.update owner w peaks = peaks" using Some by (simp add: update_triv)
      show ?thesis using Some get \<open>v = Some x\<close> same rename_owners(3) [of owner uint "max w x" peaks]
        by (auto simp: d nl_peak_def bump_peak_def word_less_def word_le_def max_def)
    qed
  qed
qed

lemma implements_peaks:
  "map (map_prod abs_owner uint) (fold nl_peak ds peaks) = fold bump_peak (map abs_demand ds) (map (map_prod abs_owner uint) peaks)"
  by (induction ds arbitrary: peaks) (simp_all add: implements_peak)

lemma saturating_sub_int: "uint (saturating_sub a b) = max 0 (uint a - uint b)"
  by (auto simp: saturating_sub_def word_less_def uint_sub_lem [THEN iffD1] word_le_def not_less max_def)

lemma word_of_int_sum: "fold (\<lambda>x total. total + word_of_int (f x)) xs (word_of_int a) = (word_of_int (a + sum_list (map f xs)) :: u64)"
proof (induction xs arbitrary: a)
  case (Cons x xs)
  show ?case using Cons.IH [of "a + f x"] by (simp add: algebra_simps)
qed simp

text \<open>The port's total is the agent's modulo \<open>2 ^ 64\<close>, so it is the agent's whenever that is below \<open>2 ^ 64\<close>.\<close>

lemma implements_total:
  assumes "implements l pl"
  shows "nl_total l r extra = word_of_int (ledger_total pl (abs_resource r) (map abs_demand extra))"
proof -
  define peaks where "peaks = fold nl_peak (map (\<lambda>item. (nk_owner item, nc_get r (nk_cost item))) (map snd (nl_claims l)) @ extra) []"
  have demands: "claim_demands pl (abs_resource r) = map abs_demand (map (\<lambda>item. (nk_owner item, nc_get r (nk_cost item))) (map snd (nl_claims l)))"
    using assms by (simp add: claim_demands_def implements_def case_prod_beta)
  have peaks: "fold bump_peak (claim_demands pl (abs_resource r) @ map abs_demand extra) [] = map (map_prod abs_owner uint) peaks"
    unfolding peaks_def demands by (simp add: implements_peaks)
  let ?f = "\<lambda>x. max 0 (uint (snd x) - uint (word_or_zero (case map_of (nl_growth l) (fst x) of None \<Rightarrow> None | Some cost \<Rightarrow> nc_get r cost)))"
  have fcast: "(case dict_get (lg_growth pl) (abs_owner owner) of None \<Rightarrow> 0 | Some fc \<Rightarrow> or_zero (cost_get (abs_resource r) fc))
      = uint (word_or_zero (case map_of (nl_growth l) owner of None \<Rightarrow> None | Some cost \<Rightarrow> nc_get r cost))" for owner
    using assms by (simp add: implements_def rename_owners word_or_zero_def split: option.split)
  have "ledger_total pl (abs_resource r) (map abs_demand extra) = lg_growth_totals pl (abs_resource r) + sum_list (map ?f peaks)"
    unfolding ledger_total_def Let_def peaks by (simp add: fcast case_prod_beta o_def)
  moreover have "nl_total l r extra = fold (\<lambda>x total. total + word_of_int (?f x)) peaks (word_of_int (lg_growth_totals pl (abs_resource r)))"
    using assms unfolding nl_total_def Let_def peaks_def [symmetric] implements_def
    by (simp add: split_def saturating_sub_int [symmetric])
  ultimately show ?thesis by (simp only: word_of_int_sum)
qed

lemma implements_pending:
  assumes "implements l pl"
  shows "map abs_claim (nl_pending l kind) = pending pl (abs_kind kind)"
proof -
  define active where "active = map nk_owner (filter (\<lambda>item. nc_kind (nk_cost item) = kind) (map snd (nl_claims l)))"
  have act: "map cl_owner (filter (\<lambda>c. tc_kind (cl_cost c) = abs_kind kind) (map snd (lg_claims pl))) = map abs_owner active"
    using assms by (simp add: active_def implements_def filter_map o_def)
  let ?rs = "\<lambda>item owners. if nc_kind (nk_cost item) = kind \<and> nk_owner item \<notin> set active \<and> \<not> list_ex (\<lambda>seen. nk_owner seen = nk_owner item) owners
      then owners @ [item] else owners"
  let ?py = "\<lambda>item owners. if tc_kind (cl_cost item) = abs_kind kind \<and> cl_owner item \<notin> set (map abs_owner active) \<and> dict_get owners (cl_owner item) = None
      then AList.update (cl_owner item) item owners else owners"
  let ?d = "map (\<lambda>c. (abs_owner (nk_owner c), abs_claim c))"
  have step: "?py (abs_claim c) (?d os) = ?d (?rs c os)" for c os
  proof -
    have "dict_get (?d os) (abs_owner (nk_owner c)) = None \<longleftrightarrow> \<not> list_ex (\<lambda>seen. nk_owner seen = nk_owner c) os"
      by (induction os) auto
    moreover have "AList.update (abs_owner (nk_owner c)) (abs_claim c) (?d os) = ?d (os @ [c])"
      if "dict_get (?d os) (abs_owner (nk_owner c)) = None" using that by (simp add: dict_update_new dict_get_None_iff)
    moreover have "abs_owner (nk_owner c) \<in> set (map abs_owner active) \<longleftrightarrow> nk_owner c \<in> set active" by auto
    ultimately show ?thesis by simp
  qed
  have loop: "fold ?py (map abs_claim cs) (?d os) = ?d (fold ?rs cs os)" for cs os
    by (induction cs arbitrary: os) (simp_all only: list.map fold_simps step)
  have wait: "map snd (lg_waiting pl) = map abs_claim (map snd (nl_waiting l))" using assms by (simp add: implements_def)
  have "pending pl (abs_kind kind) = map snd (fold ?py (map abs_claim (map snd (nl_waiting l))) (?d []))"
    unfolding pending_def Let_def act wait by simp
  also have "\<dots> = map abs_claim (nl_pending l kind)" unfolding loop nl_pending_def Let_def active_def [symmetric] by (simp add: o_def)
  finally show ?thesis by simp
qed

lemma implements_active_count: "implements l pl \<Longrightarrow> active_count pl (abs_kind kind) = int (nl_active_count l kind)"
  by (simp add: active_count_def nl_active_count_def implements_def filter_map o_def split_def)

lemma implements_projected:
  "implements l pl \<Longrightarrow> nl_projected_memory_bytes l owner cost r
     = word_of_int (projected_memory_bytes pl (abs_owner owner) (abs_cost cost) (abs_resource r))"
proof -
  assume i: "implements l pl"
  have "map (\<lambda>item. (cl_owner item, cost_get (abs_resource r) (cl_cost item))) (pending pl RESTORE)
      = map abs_demand (map (\<lambda>item. (nk_owner item, nc_get r (nk_cost item))) (nl_pending l Restore))"
    using implements_pending [OF i, of Restore, symmetric] by simp
  moreover have "tc_kind (abs_cost cost) = STARTUP \<longleftrightarrow> nc_kind cost = Startup" by (cases "nc_kind cost") simp_all
  ultimately show ?thesis unfolding nl_projected_memory_bytes_def projected_memory_bytes_def implements_total [OF i] by simp
qed

lemma implements_foreground:
  assumes "implements l pl"
  shows "nl_foreground_waiting l \<longleftrightarrow> foreground_waiting pl"
proof -
  have "pending pl STARTUP = [] \<longleftrightarrow> nl_pending l Startup = []" "pending pl RESTORE = [] \<longleftrightarrow> nl_pending l Restore = []"
    using implements_pending [OF assms, of Startup, symmetric] implements_pending [OF assms, of Restore, symmetric] by simp_all
  then show ?thesis by (simp add: nl_foreground_waiting_def foreground_waiting_def)
qed

lemma implements_next_pending:
  "implements l pl \<Longrightarrow> next_pending pl (abs_kind kind) (int capacity) = map_option abs_claim (nl_next_pending l kind capacity)"
  unfolding next_pending_def nl_next_pending_def implements_active_count
  by (simp add: implements_pending [symmetric] split: list.split)

abbreviation abs_limits :: "(Kind \<times> nat) list \<Rightarrow> (TransitionKind, int) dict" where
  "abs_limits \<equiv> map (map_prod abs_kind int)"

lemma abs_limit: "or_zero (dict_get (abs_limits limits) (abs_kind kind)) = int (nl_limit limits kind)"
  unfolding nl_limit_def by (induction limits) auto

lemma implements_next_demands:
  assumes "implements l pl"
  shows "nl_next_memory_demands l limits r = word_of_int (next_memory_demands pl (abs_limits limits) (abs_resource r))"
proof -
  have n: "next_pending pl RESTORE (or_zero (dict_get (abs_limits limits) RESTORE)) = map_option abs_claim (nl_next_pending l Restore (nl_limit limits Restore))"
    "next_pending pl STARTUP (or_zero (dict_get (abs_limits limits) STARTUP)) = map_option abs_claim (nl_next_pending l Startup (nl_limit limits Startup))"
    using implements_next_pending [OF assms, of Restore] implements_next_pending [OF assms, of Startup] abs_limit [of limits Restore] abs_limit [of limits Startup]
    by simp_all
  show ?thesis unfolding nl_next_memory_demands_def next_memory_demands_def Let_def n implements_total [OF assms]
    by (simp split: option.split)
qed

section \<open>Runs\<close>

fun abs_call :: "nl_call \<Rightarrow> ledger_op" where
  "abs_call (Wait_Call owner cost) = Op_wait (abs_owner owner) (abs_cost cost)"
| "abs_call (Unwait_Call token) = Op_unwait (unat token)"
| "abs_call (Refresh_Call owner cost) = Op_refresh (abs_owner owner) (abs_cost cost)"
| "abs_call (Claim_Call owner cost requested) = Op_claim (abs_owner owner) (abs_cost cost) (map_option abs_shape requested)"
| "abs_call (Release_Call claim) = Op_release (abs_claim claim)"
| "abs_call (Forecast_Call owner cost) = Op_growth (abs_owner owner) (map_option abs_cost cost)"
| "abs_call (Forecasts_Call forecasts) = Op_growths (map (map_prod abs_owner abs_cost) forecasts)"

text \<open>What the agent's ledger answers to the same call.\<close>

fun agent_answers :: "nl_call \<Rightarrow> nl_answer \<Rightarrow> TransitionLedger \<Rightarrow> bool" where
  "agent_answers (Wait_Call owner cost) a pl = (\<exists>t. a = Token t \<and> fst (ledger_wait pl (abs_owner owner) (abs_cost cost)) = unat t)"
| "agent_answers (Claim_Call owner cost requested) a pl =
     (\<exists>c. a = Claimed c \<and> fst (ledger_claim pl (abs_owner owner) (abs_cost cost) (map_option abs_shape requested)) = abs_claim c)"
| "agent_answers (Release_Call claim) a pl = (a = Released (ledger_release pl (abs_claim claim) \<noteq> Inl ClaimNotOwned))"
| "agent_answers _ a pl = (a = Done)"

fun agent_run :: "nl_call list \<Rightarrow> nl_answer list \<Rightarrow> TransitionLedger \<Rightarrow> bool" where
  "agent_run [] [] pl = True"
| "agent_run (c # cs) (a # as) pl = (agent_answers c a pl \<and> agent_run cs as (ledger_apply (abs_call c) pl))"
| "agent_run _ _ _ = False"

lemma abs_call_valid: "op_valid (abs_call c)"
  by (cases c) (auto simp: abs_cost_valid list_all_iff split: option.splits)

lemma apply_refines:
  assumes "implements l pl" "ledger_inv pl" "next_fits l"
  shows "implements (snd (nl_apply c l)) (ledger_apply (abs_call c) pl) \<and> agent_answers c (fst (nl_apply c l)) pl"
proof (cases c)
  case (Release_Call claim)
  have "rel_sum (=) implements (nl_release l claim) (ledger_release pl (abs_claim claim))" by (rule implements_release [OF assms(1)])
  then show ?thesis using assms(1) by (cases "nl_release l claim"; cases "ledger_release pl (abs_claim claim)") (auto simp: Release_Call ledger_release_def split: if_splits)
next
  case (Wait_Call owner cost)
  then show ?thesis using implements_wait [OF assms, of owner cost] by (simp add: split_def)
next
  case (Claim_Call owner cost requested)
  then show ?thesis using implements_claim [OF assms, of owner cost requested] by (simp add: split_def)
qed (use assms(1) in \<open>simp_all add: implements_unwait implements_refresh implements_forecast implements_forecasts\<close>)

lemma next_apply: "lg_next (ledger_apply op pl) \<le> Suc (lg_next pl)"
proof -
  have growth: "lg_next (set_growth_forecast pl ow c) = lg_next pl" for pl ow c
    by (simp add: set_growth_forecast_def apply_growth_def Let_def split: option.split)
  have "lg_next (fold (\<lambda>ow l. set_growth_forecast l ow None) os l) = lg_next l" for os l
    by (induction os arbitrary: l) (simp_all add: growth)
  moreover have "lg_next (fold (\<lambda>(ow, c) l. set_growth_forecast l ow (Some c)) fs l) = lg_next l" for fs l
    by (induction fs arbitrary: l) (auto simp: growth)
  ultimately show ?thesis
    by (cases op) (auto simp: growth ledger_wait_def ledger_unwait_def refresh_wait_cost_def ledger_claim_def ledger_release_def set_growth_forecasts_def Let_def
        split: sum.split)
qed

lemma next_run: "lg_next (ledger_run ops pl) \<le> lg_next pl + length ops"
proof (induction ops arbitrary: pl)
  case (Cons op ops)
  from Cons [of "ledger_apply op pl"] next_apply [of op pl] show ?case by (simp add: ledger_run_def)
qed (simp add: ledger_run_def)

lemma run_refines:
  assumes "implements l pl" "ledger_inv pl" "unat (nl_next l) + length cs < 2 ^ 64"
  shows "implements (snd (nl_run cs l)) (ledger_run (map abs_call cs) pl) \<and> agent_run cs (fst (nl_run cs l)) pl"
  using assms
proof (induction cs arbitrary: l pl)
  case Nil
  then show ?case by (simp add: ledger_run_def)
next
  case (Cons c cs)
  have step: "implements (snd (nl_apply c l)) (ledger_apply (abs_call c) pl) \<and> agent_answers c (fst (nl_apply c l)) pl"
    by (rule apply_refines) (use Cons.prems in \<open>simp_all add: next_fits_def\<close>)
  moreover have "ledger_inv (ledger_apply (abs_call c) pl)" by (rule ledger_apply_inv [OF Cons.prems(2) abs_call_valid])
  moreover have "unat (nl_next (snd (nl_apply c l))) + length cs < 2 ^ 64"
    using next_apply [of "abs_call c" pl] step Cons.prems(1,3) by (simp add: implements_def)
  ultimately show ?case using Cons.IH [of "snd (nl_apply c l)" "ledger_apply (abs_call c) pl"]
    by (simp add: split_def ledger_run_def)
qed

lemma uint_in_range: "0 \<le> x \<Longrightarrow> x < 2 ^ 64 \<Longrightarrow> uint (word_of_int x :: u64) = x"
  by (simp add: unsigned_of_int take_bit_int_eq_self)

lemma ledger_total_nonneg:
  assumes "ledger_inv pl"
  shows "0 \<le> ledger_total pl r extra"
proof -
  have "0 \<le> growth_sum r (lg_growth pl)"
    using assms unfolding growth_sum_def ledger_inv_def by (intro sum_list_nonneg) (auto intro: cost_get_nonneg)
  then show ?thesis using assms unfolding ledger_total_def Let_def ledger_inv_def
    by (intro add_nonneg_nonneg sum_list_nonneg) auto
qed

lemma implements_unknown: "nl_unknown items = word_of_int (unknown_memory (map abs_claim items))"
  by (simp add: nl_unknown_def unknown_memory_def filter_map o_def)

text \<open>The demand metrics agree while they are below \<open>2 ^ 64\<close>.\<close>

lemma implements_demand_snapshot:
  assumes "implements l pl" "ledger_inv pl"
    and "\<And>r. ledger_total pl r [] < 2 ^ 64" "\<And>r. next_memory_demands pl (abs_limits limits) r < 2 ^ 64"
    and "unknown_transition_memory_costs (demand_snapshot pl (abs_limits limits)) < 2 ^ 64"
  shows "demand_snapshot pl (abs_limits limits) = (let d = nl_demand_snapshot l limits in
    \<lparr>admitted_demand_bytes = uint (nd_admitted_demand_bytes d), pending_demand_bytes = uint (nd_pending_demand_bytes d),
     unknown_transition_memory_costs = uint (nd_unknown_transition_memory_costs d),
     admitted_ram_backing_bytes = uint (nd_admitted_ram_backing_bytes d), pending_ram_backing_bytes = uint (nd_pending_ram_backing_bytes d)\<rparr>)"
proof -
  have total: "uint (nl_total l r []) = ledger_total pl (abs_resource r) []" for r
    using implements_total [OF assms(1), of r "[]"] uint_in_range [OF ledger_total_nonneg [OF assms(2)] assms(3)] by simp
  have "0 \<le> next_memory_demands pl (abs_limits limits) r" for r
    unfolding next_memory_demands_def Let_def using ledger_total_nonneg [OF assms(2)] by (auto split: option.split)
  then have nxt: "uint (nl_next_memory_demands l limits r) = next_memory_demands pl (abs_limits limits) (abs_resource r)" for r
    using implements_next_demands [OF assms(1)] uint_in_range [OF _ assms(4)] by simp
  let ?u = "unknown_memory (map snd (lg_claims pl)) + lg_growth_unknown pl"
  let ?f = "\<lambda>x. unknown_memory (pending pl (abs_kind (fst x)))"
  have "nl_growth_unknown l = word_of_int (lg_growth_unknown pl)" "map snd (lg_claims pl) = map abs_claim (map snd (nl_claims l))"
    using assms(1) by (simp_all add: implements_def)
  then have "nd_unknown_transition_memory_costs (nl_demand_snapshot l limits) = fold (\<lambda>x total. total + word_of_int (?f x)) limits (word_of_int ?u)"
    by (simp add: nl_demand_snapshot_def Let_def implements_unknown implements_pending [OF assms(1)] split_def)
  also have "\<dots> = word_of_int (unknown_transition_memory_costs (demand_snapshot pl (abs_limits limits)))"
    unfolding word_of_int_sum by (simp add: demand_snapshot_def Let_def o_def)
  finally have unknown: "nd_unknown_transition_memory_costs (nl_demand_snapshot l limits)
      = word_of_int (unknown_transition_memory_costs (demand_snapshot pl (abs_limits limits)))" .
  have "0 \<le> growth_none (lg_growth pl)" unfolding growth_none_def by (intro sum_list_nonneg) auto
  then have "0 \<le> unknown_transition_memory_costs (demand_snapshot pl (abs_limits limits))"
    using assms(2) by (auto simp: demand_snapshot_def Let_def ledger_inv_def unknown_memory_def intro!: add_nonneg_nonneg sum_list_nonneg)
  then have "uint (nd_unknown_transition_memory_costs (nl_demand_snapshot l limits)) = unknown_transition_memory_costs (demand_snapshot pl (abs_limits limits))"
    unfolding unknown by (rule uint_in_range [OF _ assms(5)])
  then show ?thesis
    using total [of NMemory] total [of NRamBacking] nxt [of NMemory] nxt [of NRamBacking]
    by (simp add: demand_snapshot_def nl_demand_snapshot_def Let_def known_memory_bytes_def nl_known_memory_bytes_def saturating_sub_int)
qed

section \<open>Properties\<close>

text \<open>C14. The daemon's port of the ledger implements the agent's: for every sequence of fewer than \<open>2 ^ 64\<close> calls it gives the
  agent's answers (tokens, claims, refused releases), queues the same pending owners in the same order, and each total and
  projection is the agent's whenever that is below \<open>2 ^ 64\<close>, however the running sums wrapped in between.\<close>

theorem noded_ledger_refines:
  assumes "length calls < 2 ^ 64"
  defines "l \<equiv> snd (nl_run calls Ledger_new)" and "pl \<equiv> ledger_run (map abs_call calls) new_ledger"
  shows "agent_run calls (fst (nl_run calls Ledger_new)) new_ledger
    \<and> (\<forall>kind. map abs_claim (nl_pending l kind) = pending pl (abs_kind kind))
    \<and> (\<forall>r extra. ledger_total pl (abs_resource r) (map abs_demand extra) < 2 ^ 64 \<longrightarrow>
         uint (nl_total l r extra) = ledger_total pl (abs_resource r) (map abs_demand extra))
    \<and> (\<forall>owner cost r. projected_memory_bytes pl (abs_owner owner) (abs_cost cost) (abs_resource r) < 2 ^ 64 \<longrightarrow>
         uint (nl_projected_memory_bytes l owner cost r) = projected_memory_bytes pl (abs_owner owner) (abs_cost cost) (abs_resource r))"
proof -
  have run: "implements l pl" "agent_run calls (fst (nl_run calls Ledger_new)) new_ledger"
    using run_refines [OF implements_new new_ledger_inv, of calls] assms(1) unfolding l_def pl_def by (simp_all add: Ledger_new_def)
  have inv: "ledger_inv pl" unfolding pl_def by (rule ledger_run_inv [OF new_ledger_inv]) (simp add: list_all_iff abs_call_valid)
  show ?thesis
    using run implements_pending [OF run(1)] implements_total [OF run(1)] implements_projected [OF run(1)] ledger_total_nonneg [OF inv]
    by (simp add: uint_in_range projected_memory_bytes_def)
qed

definition sample_calls :: "nl_call list" where
  "sample_calls = [Forecast_Call (''a'', 1) (Some (Cost_new Startup (Some 5))), Wait_Call (''b'', 1) (Cost_new Restore (Some 3)),
     Claim_Call (''a'', 1) (Cost_new Restore (Some 7)) None, Release_Call \<lparr>nk_token = 1, nk_owner = (''a'', 1), nk_cost = Cost_new Restore (Some 7), nk_requested = None\<rparr>]"

theorem noded_ledger_refines_witness:
  "length sample_calls < 2 ^ 64
    \<and> uint (nl_projected_memory_bytes (snd (nl_run sample_calls Ledger_new)) (''c'', 1) (Cost_new Startup (Some 2)) NMemory) = 12"
proof -
  have len: "length sample_calls < 2 ^ 64" by (simp add: sample_calls_def)
  have "projected_memory_bytes (ledger_run (map abs_call sample_calls) new_ledger) (abs_owner (''c'', 1)) (abs_cost (Cost_new Startup (Some 2))) (abs_resource NMemory) = 12"
    by code_simp
  then show ?thesis using len noded_ledger_refines [OF len] by simp
qed

end
