(* ===== verification/Noded_Decide.thy ===== *)
theory Noded_Decide
  imports Noded_Ledger Admission_Decision
begin

text \<open>
  \<open>src/runtime/noded/src/admission/decide.rs\<close>: the node daemon's port of the admission decision, over \<open>u64\<close>
  metrics and the ported ledger. The theorem compares it with the agent's \<open>gate\<close> and \<open>decide\<close>
  (\<open>Admission_Decision\<close>); the reasons are compared as texts.
\<close>

section \<open>Requests and decisions\<close>

definition N_PHYSICAL_MEMORY_FLOOR_MB :: u64 where
  "N_PHYSICAL_MEMORY_FLOOR_MB = 2048"

definition N_RETRY_SECONDS :: rat where
  "N_RETRY_SECONDS = 21 / 100"

definition N_MEMORY_PSI_FULL_LIMIT :: rat where
  "N_MEMORY_PSI_FULL_LIMIT = 10"

definition N_MIB :: u64 where
  "N_MIB = 1024 * 1024"

definition N_CLOSED :: string where
  "N_CLOSED = ''direct node admission is closed''"

definition N_SHAPE :: string where
  "N_SHAPE = ''sandbox CPU or memory request exceeds the physical node shape''"

definition N_NO_METRICS :: string where
  "N_NO_METRICS = ''direct node has no fresh runtime metrics for dynamic admission''"

definition N_MEMORY_PRESSURE :: string where
  "N_MEMORY_PRESSURE = ''direct node memory pressure blocks active admission''"

definition N_PHYSICAL_HEADROOM :: string where
  "N_PHYSICAL_HEADROOM = ''direct node has insufficient physical live memory headroom''"

definition N_LIVE_HEADROOM :: string where
  "N_LIVE_HEADROOM = ''direct node has insufficient live memory headroom''"

definition N_PROJECTED :: string where
  "N_PROJECTED = ''node memory headroom is reserved by in-flight transitions''"

definition N_PROJECTED_RAM :: string where
  "N_PROJECTED_RAM = ''node RAM backing headroom is reserved by in-flight transitions''"

lemmas n_texts = N_CLOSED_def N_SHAPE_def N_NO_METRICS_def N_MEMORY_PRESSURE_def N_PHYSICAL_HEADROOM_def N_LIVE_HEADROOM_def
  N_PROJECTED_def N_PROJECTED_RAM_def
lemmas py_texts = CLOSED_def SHAPE_def NO_METRICS_def MEMORY_PRESSURE_def PHYSICAL_HEADROOM_def LIVE_HEADROOM_def PROJECTED_def PROJECTED_RAM_def

record NBacking =
  nb_total_bytes :: "u64 option"
  nb_available_bytes :: "u64 option"
  nb_identity :: "string option"

record NMetrics =
  nm_memory_total_mb :: u64
  nm_memory_available_mb :: u64
  nm_swap_total_mb :: u64
  nm_swap_free_mb :: u64
  nm_memory_psi_full_avg10 :: "rat option"
  nm_memory_backing :: "NBacking option"

record NNode =
  nn_admission_open :: bool
  nn_capacity :: "Shape option"
  nn_ram_backing_configured :: bool

record NRequest =
  nr_node :: NNode
  nr_owner :: Owner
  nr_requested :: Shape
  nr_cost :: "Cost option"
  nr_check_shape :: bool
  nr_check_memory_psi :: bool
  nr_deadline :: rat
  nr_now :: rat
  nr_previous_error :: "string option"

datatype NRefusal = Closed string | Capacity string

datatype NDecision = NGrant | NWait string rat | NRefuse NRefusal

text \<open>\<open>is_finite\<close> holds of every rational.\<close>

definition n_fits :: "Shape \<Rightarrow> Shape \<Rightarrow> bool" where
  "n_fits requested capacity \<longleftrightarrow> 0 \<le> sh_vcpu requested
     \<and> (0 < sh_vcpu requested \<or> 0 < sh_memory_mb requested \<or> 0 < sh_disk_mb requested)
     \<and> sh_vcpu requested \<le> sh_vcpu capacity \<and> sh_memory_mb requested \<le> sh_memory_mb capacity \<and> sh_disk_mb requested = 0"

definition n_memory_pressure_error :: "NMetrics \<Rightarrow> u64 \<Rightarrow> bool \<Rightarrow> string option" where
  "n_memory_pressure_error m requested_memory_mb check_psi =
     (if check_psi \<and> (case nm_memory_psi_full_avg10 m of None \<Rightarrow> False | Some v \<Rightarrow> N_MEMORY_PSI_FULL_LIMIT \<le> v) then Some N_MEMORY_PRESSURE
      else if 0 < nm_memory_total_mb m \<and> nm_memory_available_mb m < N_PHYSICAL_MEMORY_FLOOR_MB then Some N_PHYSICAL_HEADROOM
      else
        let minimum = max N_PHYSICAL_MEMORY_FLOOR_MB requested_memory_mb;
            (available, known) =
              (if 0 < nm_swap_total_mb m then (nm_memory_available_mb m + nm_swap_free_mb m, True)
               else (nm_memory_available_mb m, 0 < nm_memory_total_mb m))
        in if known \<and> available < minimum then Some N_LIVE_HEADROOM else None)"

definition n_pressure_error :: "NMetrics option \<Rightarrow> u64 \<Rightarrow> bool \<Rightarrow> string option" where
  "n_pressure_error metrics requested_memory_mb check_psi =
     (case metrics of None \<Rightarrow> Some N_NO_METRICS | Some m \<Rightarrow> n_memory_pressure_error m requested_memory_mb check_psi)"

definition n_late :: "NRequest \<Rightarrow> NRefusal option" where
  "n_late request =
     (case nr_previous_error request of
        Some e \<Rightarrow> if nr_deadline request \<le> nr_now request then Some (Capacity e) else None
      | None \<Rightarrow> None)"

definition n_gate :: "NRequest \<Rightarrow> NRefusal option" where
  "n_gate request =
     (if \<not> nn_admission_open (nr_node request) then Some (Closed N_CLOSED)
      else if (case nn_capacity (nr_node request) of None \<Rightarrow> False
               | Some capacity \<Rightarrow> nr_check_shape request \<and> \<not> n_fits (nr_requested request) capacity) then Some (Capacity N_SHAPE)
      else n_late request)"

text \<open>\<open>div_ceil\<close> of \<open>u64\<close>.\<close>

definition div_ceil :: "u64 \<Rightarrow> u64 \<Rightarrow> u64" where
  "div_ceil a b = a div b + (if a mod b = 0 then 0 else 1)"

definition n_requested_memory_mb :: "NRequest \<Rightarrow> u64" where
  "n_requested_memory_mb request =
     (case nr_cost request of
        None \<Rightarrow> sh_memory_mb (nr_requested request)
      | Some cost \<Rightarrow> (case nc_memory_bytes cost of Some b \<Rightarrow> div_ceil b N_MIB | None \<Rightarrow> sh_memory_mb (nr_requested request)))"

definition n_headroom :: "NMetrics \<Rightarrow> u64" where
  "n_headroom m =
     (if 0 < nm_memory_total_mb m then saturating_sub (nm_memory_available_mb m) N_PHYSICAL_MEMORY_FLOOR_MB * N_MIB else 0)"

definition n_ram_available :: "NMetrics \<Rightarrow> NRequest \<Rightarrow> u64 option" where
  "n_ram_available m request =
     (case nm_memory_backing m of
        Some backing \<Rightarrow> Some (word_or_zero (nb_available_bytes backing))
      | None \<Rightarrow> if nn_ram_backing_configured (nr_node request) then Some 0 else None)"

text \<open>The projections: the error that replaces the live one, if any.\<close>

definition n_projection_error :: "NMetrics option \<Rightarrow> Ledger \<Rightarrow> NRequest \<Rightarrow> string option" where
  "n_projection_error metrics ledger request =
     (case (nr_cost request, metrics) of
        (Some cost, Some m) \<Rightarrow>
          let projected = nl_projected_memory_bytes ledger (nr_owner request) cost NMemory;
              error = (if nm_memory_total_mb m = 0 \<or> n_headroom m < projected then Some N_PROJECTED else None);
              projected_ram = nl_projected_memory_bytes ledger (nr_owner request) cost NRamBacking
          in if (case n_ram_available m request of None \<Rightarrow> False | Some available \<Rightarrow> available < projected_ram) then Some N_PROJECTED_RAM else error
      | _ \<Rightarrow> None)"

definition n_decide :: "NMetrics option \<Rightarrow> Ledger \<Rightarrow> NRequest \<Rightarrow> NDecision" where
  "n_decide metrics ledger request =
     (if \<not> nn_admission_open (nr_node request) then NRefuse (Closed N_CLOSED)
      else case nn_capacity (nr_node request) of
        None \<Rightarrow> (case n_late request of Some r \<Rightarrow> NRefuse r | None \<Rightarrow> NGrant)
      | Some capacity \<Rightarrow>
          if nr_check_shape request \<and> \<not> n_fits (nr_requested request) capacity then NRefuse (Capacity N_SHAPE)
          else
            let requested_memory_mb = n_requested_memory_mb request;
                live = n_pressure_error metrics requested_memory_mb (nr_check_memory_psi request);
                projection = n_projection_error metrics ledger request;
                error = (case projection of Some e \<Rightarrow> Some e | None \<Rightarrow> live)
            in case n_late request of
                 Some r \<Rightarrow> NRefuse r
               | None \<Rightarrow>
                   (case error of
                      None \<Rightarrow> NGrant
                    | Some e \<Rightarrow>
                        let memory_wait =
                              (case nr_cost request of None \<Rightarrow> False | Some cost \<Rightarrow> nc_kind cost \<in> {Startup, Restore})
                              \<and> (case metrics of None \<Rightarrow> False
                                 | Some m \<Rightarrow> 0 < nm_memory_total_mb m
                                     \<and> n_memory_pressure_error m requested_memory_mb (nr_check_memory_psi request) \<noteq> None)
                        in if \<not> (projection \<noteq> None \<or> memory_wait) then NRefuse (Capacity e)
                           else if nr_deadline request \<le> nr_now request + N_RETRY_SECONDS then NRefuse (Capacity e)
                           else NWait e (min N_RETRY_SECONDS (nr_deadline request - nr_now request))))"

section \<open>Reading the port as the agent's decision\<close>

definition abs_node :: "NNode \<Rightarrow> AdmissionNode" where
  "abs_node n = \<lparr>an_admission_open = nn_admission_open n, an_capacity = map_option abs_shape (nn_capacity n),
     an_ram_backing_configured = nn_ram_backing_configured n\<rparr>"

definition abs_request :: "NRequest \<Rightarrow> AdmissionRequest" where
  "abs_request r = \<lparr>ar_node = abs_node (nr_node r), ar_owner = abs_owner (nr_owner r), ar_requested = abs_shape (nr_requested r),
     ar_cost = map_option abs_cost (nr_cost r), ar_check_shape = nr_check_shape r, ar_check_memory_pressure = nr_check_memory_psi r,
     ar_deadline = nr_deadline r, ar_now = nr_now r, ar_previous_error = nr_previous_error r\<rparr>"

fun abs_refusal :: "NRefusal \<Rightarrow> string \<times> bool" where
  "abs_refusal (Closed reason) = (reason, True)"
| "abs_refusal (Capacity reason) = (reason, False)"

fun abs_decision :: "NDecision \<Rightarrow> Decision" where
  "abs_decision NGrant = Grant"
| "abs_decision (NWait reason seconds) = Wait reason seconds"
| "abs_decision (NRefuse r) = (case abs_refusal r of (reason, is_closed) \<Rightarrow> Refuse reason is_closed)"

text \<open>The agent's sample has more fields; these are the ones that admission reads.\<close>

definition same_metrics :: "NMetrics \<Rightarrow> NodeRuntimeMetrics \<Rightarrow> bool" where
  "same_metrics nm m \<longleftrightarrow> memory_total_mb m = uint (nm_memory_total_mb nm) \<and> memory_available_mb m = uint (nm_memory_available_mb nm)
     \<and> swap_total_mb m = uint (nm_swap_total_mb nm) \<and> swap_free_mb m = uint (nm_swap_free_mb nm)
     \<and> memory_psi_full_avg10 m = nm_memory_psi_full_avg10 nm
     \<and> map_option available_bytes (memory_backing m) = map_option (map_option uint \<circ> nb_available_bytes) (nm_memory_backing nm)"

text \<open>Below these bounds no sum or product over a sample wraps: 16 EiB of memory.\<close>

definition metrics_fit :: "NMetrics \<Rightarrow> bool" where
  "metrics_fit m \<longleftrightarrow> nm_memory_available_mb m < 2 ^ 44 \<and> nm_swap_free_mb m < 2 ^ 44"

section \<open>Agreement\<close>

lemma word_pos: "0 < w \<longleftrightarrow> 0 < uint w" and word_zero: "w = 0 \<longleftrightarrow> uint w = 0" for w :: u64
  by (simp_all add: word_less_def unsigned_eq_0_iff)

lemma abs_shape_sel [simp]: "vcpu (abs_shape s) = sh_vcpu s" "memory_mb (abs_shape s) = uint (sh_memory_mb s)" "disk_mb (abs_shape s) = uint (sh_disk_mb s)"
  by (simp_all add: abs_shape_def)

lemma fits_agree: "dynamic_request_fits (abs_shape r) (ResourceQuantity 0 0 0) (abs_shape c) \<longleftrightarrow> n_fits r c"
  by (auto simp: dynamic_request_fits_def n_fits_def rq_is_valid_def word_pos word_zero word_le_def)

lemma late_agree: "late (abs_request r) = map_option abs_refusal (n_late r)"
  by (simp add: late_def n_late_def abs_request_def split: option.split)

lemma fences_agree:
  "fences (abs_request r) =
     (if \<not> nn_admission_open (nr_node r) then Some (N_CLOSED, True)
      else case nn_capacity (nr_node r) of None \<Rightarrow> None
           | Some capacity \<Rightarrow> if nr_check_shape r \<and> \<not> n_fits (nr_requested r) capacity then Some (N_SHAPE, False) else None)"
  by (simp add: fences_def abs_request_def abs_node_def fits_agree n_texts py_texts split: option.split)

lemma gate_agree: "gate (abs_request r) = map_option abs_refusal (n_gate r)"
  by (simp add: gate_def fences_agree late_agree n_gate_def split: option.split)

lemma MIB_agree: "uint N_MIB = MIB"
  by (simp add: N_MIB_def MIB_def)

lemma ceiling_division:
  assumes "0 < (n :: int)"
  shows "(a + n - 1) div n = a div n + (if a mod n = 0 then 0 else 1)"
proof -
  define q r where "q = a div n" and "r = a mod n"
  have a: "a = n * q + r" "0 \<le> r" "r < n" using assms by (simp_all add: q_def r_def)
  have "(a + n - 1) div n = (n * q + (r + n - 1)) div n" unfolding a(1) by (simp add: algebra_simps)
  also have "\<dots> = q + (r + n - 1) div n" using assms by simp
  also have "(r + n - 1) div n = (if r = 0 then 0 else 1)"
  proof (cases "r = 0")
    case False
    have "(r + n - 1) div n = (n * 1 + (r - 1)) div n" by (simp add: algebra_simps)
    also have "\<dots> = 1 + (r - 1) div n" using assms by (subst div_mult_self4) auto
    also have "(r - 1) div n = 0" using a False by (intro div_pos_pos_trivial) auto
    finally show ?thesis using False by simp
  qed (use assms in \<open>simp add: div_pos_pos_trivial\<close>)
  finally show ?thesis by (simp add: q_def r_def)
qed

lemma div_ceil_agree: "uint (div_ceil b N_MIB) = (uint b + MIB - 1) div MIB"
proof -
  have m: "uint N_MIB = 1048576" by (simp add: N_MIB_def)
  have d: "uint (b div N_MIB) = uint b div 1048576" "uint (b mod N_MIB) = uint b mod 1048576" by (simp_all add: uint_div uint_mod m)
  have b: "uint b < 2 ^ 64" by (rule lt2p_lem) simp
  have "0 \<le> uint b div 1048576 + 1" "uint b div 1048576 + 1 < 18446744073709551616" using b zdiv_mono1 [of "uint b" "2 ^ 64" 1048576]
    by (simp_all add: pos_imp_zdiv_nonneg_iff)
  then have "uint (b div N_MIB + 1) = uint b div 1048576 + 1" using d by (simp add: uint_word_ariths)
  moreover have "(uint b + MIB - 1) div MIB = uint b div 1048576 + (if uint b mod 1048576 = 0 then 0 else 1)"
    using ceiling_division [of 1048576 "uint b"] by (simp add: MIB_def)
  ultimately show ?thesis unfolding div_ceil_def word_zero d using d by simp
qed

lemma requested_agree: "memory_mb (pressure_request (abs_request r)) = uint (n_requested_memory_mb r)"
  by (simp add: pressure_request_def abs_request_def n_requested_memory_mb_def div_ceil_agree split: option.split)

lemma floor_agree: "uint N_PHYSICAL_MEMORY_FLOOR_MB = PHYSICAL_MEMORY_FLOOR_MB"
  by (simp add: N_PHYSICAL_MEMORY_FLOOR_MB_def PHYSICAL_MEMORY_FLOOR_MB_def)

lemma sum_fits: "metrics_fit m \<Longrightarrow> uint (nm_memory_available_mb m + nm_swap_free_mb m) = uint (nm_memory_available_mb m) + uint (nm_swap_free_mb m)"
  by (simp add: metrics_fit_def uint_plus_simple word_le_def uint_word_ariths word_less_def)

lemma pressure_agree:
  assumes "same_metrics nm m" "metrics_fit nm" "memory_mb rq = uint mb"
  shows "memory_pressure_error m rq psi = n_memory_pressure_error nm mb psi"
  using assms sum_fits [OF assms(2)] unfolding same_metrics_def memory_pressure_error_def n_memory_pressure_error_def Let_def
  by (simp add: word_less_def floor_agree max_word_eq n_texts py_texts N_MEMORY_PSI_FULL_LIMIT_def cong: if_cong option.case_cong)

lemma headroom_agree:
  assumes "same_metrics nm m" "metrics_fit nm"
  shows "uint (n_headroom nm) = headroom_bytes m"
proof -
  have a: "uint (nm_memory_available_mb nm) < 2 ^ 44" using assms(2) by (simp add: metrics_fit_def word_less_def)
  have s: "uint (saturating_sub (nm_memory_available_mb nm) N_PHYSICAL_MEMORY_FLOOR_MB) = max 0 (uint (nm_memory_available_mb nm) - PHYSICAL_MEMORY_FLOOR_MB)"
    by (simp add: saturating_sub_int floor_agree)
  have "max 0 (uint (nm_memory_available_mb nm) - PHYSICAL_MEMORY_FLOOR_MB) * MIB < 2 ^ 64" using a by (simp add: MIB_def PHYSICAL_MEMORY_FLOOR_MB_def max_def)
  moreover have "0 \<le> max 0 (uint (nm_memory_available_mb nm) - PHYSICAL_MEMORY_FLOOR_MB) * MIB" by (simp add: MIB_def)
  ultimately have "uint (saturating_sub (nm_memory_available_mb nm) N_PHYSICAL_MEMORY_FLOOR_MB * N_MIB)
      = max 0 (uint (nm_memory_available_mb nm) - PHYSICAL_MEMORY_FLOOR_MB) * MIB"
    by (simp add: uint_word_ariths s MIB_agree)
  then show ?thesis using assms(1) by (simp add: n_headroom_def headroom_bytes_def same_metrics_def word_pos)
qed

lemma ram_agree:
  assumes "same_metrics nm m"
  shows "ram_available m (ar_node (abs_request r)) = map_option uint (n_ram_available nm r)"
  using assms unfolding same_metrics_def ram_available_def n_ram_available_def
  by (cases "memory_backing m"; cases "nm_memory_backing nm") (auto simp: abs_request_def abs_node_def)

definition projections_fit :: "TransitionLedger \<Rightarrow> NRequest \<Rightarrow> bool" where
  "projections_fit pl r \<longleftrightarrow> (case nr_cost r of None \<Rightarrow> True
     | Some cost \<Rightarrow> \<forall>x. projected_memory_bytes pl (abs_owner (nr_owner r)) (abs_cost cost) x < 2 ^ 64)"

lemma projection_agree:
  assumes "rel_option same_metrics nm m" "\<And>x. nm = Some x \<Longrightarrow> metrics_fit x" "implements l pl" "ledger_inv pl" "projections_fit pl r"
    and "nn_capacity (nr_node r) \<noteq> None"
  shows "projection_error m pl (abs_request r) = n_projection_error nm l r"
proof (cases "nr_cost r")
  case None
  then show ?thesis by (simp add: projection_error_def n_projection_error_def abs_request_def)
next
  case cost: (Some cost)
  obtain capacity where cap: "an_capacity (ar_node (abs_request r)) = Some capacity" using assms(6) by (auto simp: abs_request_def abs_node_def)
  show ?thesis
  proof (cases nm)
    case None
    then have "m = None" using assms(1) by (cases m) auto
    then show ?thesis using None cost by (auto simp: projection_error_def n_projection_error_def split: option.split)
  next
    case (Some x)
    obtain y where y: "m = Some y" "same_metrics x y" using assms(1) Some by (cases m) auto
    have p: "uint (nl_projected_memory_bytes l (nr_owner r) cost z)
        = projected_memory_bytes pl (ar_owner (abs_request r)) (abs_cost cost) (abs_resource z)" for z
    proof -
      have o': "ar_owner (abs_request r) = abs_owner (nr_owner r)" by (simp add: abs_request_def)
      have "projected_memory_bytes pl (abs_owner (nr_owner r)) (abs_cost cost) (abs_resource z) < 2 ^ 64" using assms(5) cost by (simp add: projections_fit_def)
      moreover have "0 \<le> projected_memory_bytes pl (abs_owner (nr_owner r)) (abs_cost cost) (abs_resource z)"
        unfolding projected_memory_bytes_def by (rule ledger_total_nonneg [OF assms(4)])
      ultimately show ?thesis unfolding implements_projected [OF assms(3)] o' by (intro uint_in_range)
    qed
    have t: "memory_total_mb y \<le> 0 \<longleftrightarrow> nm_memory_total_mb x = 0" using y(2) uint_ge_0 [of "nm_memory_total_mb x"] by (auto simp: same_metrics_def word_zero simp del: uint_ge_0)
    note h = headroom_agree [OF y(2) assms(2) [OF Some]] and ram = ram_agree [OF y(2), of r]
    have c: "ar_cost (abs_request r) = Some (abs_cost cost)" using cost by (simp add: abs_request_def)
    show ?thesis
      unfolding projection_error_def n_projection_error_def c cap cost y(1) Some prod.case option.case Let_def ram t
        h [symmetric] p [of NMemory, simplified, symmetric] p [of NRamBacking, simplified, symmetric] word_less_def [symmetric]
      by (simp add: n_texts py_texts word_less_def split: option.split)
  qed
qed

lemma live_agree:
  assumes "rel_option same_metrics nm m" "\<And>x. nm = Some x \<Longrightarrow> metrics_fit x"
  shows "dynamic_pressure_error m (pressure_request (abs_request r)) False psi = n_pressure_error nm (n_requested_memory_mb r) psi"
  using assms pressure_agree [OF _ _ requested_agree] unfolding dynamic_pressure_error_def n_pressure_error_def
  by (cases nm; cases m) (auto simp: n_texts py_texts)

lemma decide_agree:
  assumes "rel_option same_metrics nm m" "\<And>x. nm = Some x \<Longrightarrow> metrics_fit x" "implements l pl" "ledger_inv pl" "projections_fit pl r"
  shows "abs_decision (n_decide nm l r) = decide m pl (abs_request r)"
proof -
  note late = late_agree [of r] and fences = fences_agree [of r]
  have live: "dynamic_pressure_error m (pressure_request (abs_request r)) False psi = n_pressure_error nm (n_requested_memory_mb r) psi" for psi
    by (rule live_agree) (use assms in auto)
  have total: "0 < memory_total_mb y \<longleftrightarrow> 0 < nm_memory_total_mb x" if "nm = Some x" "m = Some y" for x y
    using assms(1) that by (simp add: same_metrics_def word_pos)
  show ?thesis
  proof (cases "nn_capacity (nr_node r)")
    case None
    then have "projection_error m pl (abs_request r) = None" "an_capacity (ar_node (abs_request r)) = None"
      by (simp_all add: projection_error_def abs_request_def abs_node_def split: option.split)
    then show ?thesis using None unfolding decide_def fences late n_decide_def by (auto split: option.split)
  next
    case (Some capacity)
    have proj: "projection_error m pl (abs_request r) = n_projection_error nm l r" by (rule projection_agree) (use assms Some in auto)
    have cap: "an_capacity (ar_node (abs_request r)) \<noteq> None" using Some by (simp add: abs_request_def abs_node_def)
    have wait: "(case (ar_cost (abs_request r), m) of
          (Some cost, Some y) \<Rightarrow> tc_kind cost \<in> {STARTUP, RESTORE} \<and> 0 < memory_total_mb y
            \<and> n_pressure_error nm (n_requested_memory_mb r) (nr_check_memory_psi r) \<noteq> None
        | _ \<Rightarrow> False)
      \<longleftrightarrow> (case nr_cost r of None \<Rightarrow> False | Some cost \<Rightarrow> nc_kind cost \<in> {Startup, Restore})
        \<and> (case nm of None \<Rightarrow> False
           | Some x \<Rightarrow> 0 < nm_memory_total_mb x \<and> n_memory_pressure_error x (n_requested_memory_mb r) (nr_check_memory_psi r) \<noteq> None)"
    proof -
      have "tc_kind (abs_cost cost) \<in> {STARTUP, RESTORE} \<longleftrightarrow> nc_kind cost \<in> {Startup, Restore}" for cost by (cases "nc_kind cost") simp_all
      then show ?thesis using total assms(1) by (cases "nr_cost r"; cases nm; cases m) (auto simp: abs_request_def n_pressure_error_def)
    qed
    have sel: "ar_check_memory_pressure (abs_request r) = nr_check_memory_psi r" "ar_deadline (abs_request r) = nr_deadline r" "ar_now (abs_request r) = nr_now r"
      "RETRY_SECONDS = N_RETRY_SECONDS" by (simp_all add: abs_request_def RETRY_SECONDS_def N_RETRY_SECONDS_def)
    define w where "w \<longleftrightarrow> (case nr_cost r of None \<Rightarrow> False | Some cost \<Rightarrow> nc_kind cost \<in> {Startup, Restore})
        \<and> (case nm of None \<Rightarrow> False
           | Some x \<Rightarrow> 0 < nm_memory_total_mb x \<and> n_memory_pressure_error x (n_requested_memory_mb r) (nr_check_memory_psi r) \<noteq> None)"
    show ?thesis unfolding decide_def fences n_decide_def Some Let_def live proj late sel wait option.case w_def [symmetric]
      using cap by (cases "n_late r"; cases "n_projection_error nm l r"; cases "n_pressure_error nm (n_requested_memory_mb r) (nr_check_memory_psi r)")
        (simp_all split: prod.split)
  qed
qed

section \<open>A grant and its claim\<close>

lemma n_decide_grantD:
  assumes "n_decide nm l request = NGrant" "nn_capacity (nr_node request) \<noteq> None"
  shows "nn_admission_open (nr_node request)" "n_projection_error nm l request = None" "nm \<noteq> None"
  using assms by (auto simp: n_decide_def n_pressure_error_def Let_def split: if_splits option.splits)

lemma n_headroom_le: "uint (n_headroom m) \<le> max 0 (uint (nm_memory_available_mb m) - 2048) * 1048576"
proof -
  have "uint (saturating_sub (nm_memory_available_mb m) N_PHYSICAL_MEMORY_FLOOR_MB * N_MIB)
      \<le> uint (saturating_sub (nm_memory_available_mb m) N_PHYSICAL_MEMORY_FLOOR_MB) * uint N_MIB"
    by (simp add: uint_word_ariths zmod_le_nonneg_dividend)
  then show ?thesis by (simp add: n_headroom_def saturating_sub_int floor_agree PHYSICAL_MEMORY_FLOOR_MB_def N_MIB_def)
qed

lemma n_total_after_claim:
  assumes "Suc (length calls) < 2 ^ 64" "projections_fit (ledger_run (map abs_call calls) new_ledger) request" "nr_cost request = Some cost"
  defines "l \<equiv> snd (nl_run calls Ledger_new)"
  shows "nl_total (snd (nl_claim l (nr_owner request) cost shape)) r [] \<le> nl_projected_memory_bytes l (nr_owner request) cost r"
proof -
  define pl where "pl = ledger_run (map abs_call calls) new_ledger"
  have i: "implements l pl" using run_refines [OF implements_new new_ledger_inv, of calls] assms(1) unfolding l_def pl_def by (simp add: Ledger_new_def)
  have inv: "ledger_inv pl" unfolding pl_def by (rule ledger_run_inv [OF new_ledger_inv]) (simp add: list_all_iff abs_call_valid)
  have "unat (nl_next l) \<le> length calls"
    using next_run [of "map abs_call calls" new_ledger] i by (simp add: pl_def implements_def new_ledger_def)
  then have "next_fits l" using assms(1) by (simp add: next_fits_def)
  note claimed = implements_claim(1) [OF i inv this, of "nr_owner request" cost shape]
  let ?pl = "snd (ledger_claim pl (abs_owner (nr_owner request)) (abs_cost cost) (map_option abs_shape shape))"
  let ?p = "projected_memory_bytes pl (abs_owner (nr_owner request)) (abs_cost cost) (abs_resource r)"
  have "ledger_inv ?pl"
    using ledger_apply_inv [OF inv abs_call_valid, of "Claim_Call (nr_owner request) cost shape"] by simp
  then have nonneg: "0 \<le> ledger_total ?pl (abs_resource r) []" by (rule ledger_total_nonneg)
  have le: "ledger_total ?pl (abs_resource r) [] \<le> ?p" by (rule total_after_claim_le_projected [OF inv])
  have fits: "?p < 2 ^ 64" using assms(2,3) by (simp add: projections_fit_def pl_def)
  have "uint (nl_total (snd (nl_claim l (nr_owner request) cost shape)) r []) = ledger_total ?pl (abs_resource r) []"
    using nonneg le fits by (simp add: implements_total [OF claimed] uint_in_range)
  moreover have "uint (nl_projected_memory_bytes l (nr_owner request) cost r) = ?p"
    using nonneg le fits by (simp add: implements_projected [OF i] uint_in_range)
  ultimately show ?thesis using le by (simp add: word_le_def)
qed

section \<open>Properties\<close>

text \<open>C15. The daemon's port of the admission decision decides as the agent does: whatever calls built the two ledgers, for
  samples that agree on what admission reads, the first section refuses alike, and the second grants, waits (for the
  same time) or refuses alike with the same reason, as long as no sum over the sample or the projections reaches
  \<open>2 ^ 64\<close>.\<close>

theorem noded_decide_refines:
  assumes "length calls < 2 ^ 64" and "rel_option same_metrics nm m" and "pred_option metrics_fit nm"
    and "projections_fit (ledger_run (map abs_call calls) new_ledger) request"
  shows "gate (abs_request request) = map_option abs_refusal (n_gate request)
    \<and> decide m (ledger_run (map abs_call calls) new_ledger) (abs_request request)
        = abs_decision (n_decide nm (snd (nl_run calls Ledger_new)) request)"
proof -
  have i: "implements (snd (nl_run calls Ledger_new)) (ledger_run (map abs_call calls) new_ledger)"
    using run_refines [OF implements_new new_ledger_inv, of calls] assms(1) by (simp add: Ledger_new_def)
  have inv: "ledger_inv (ledger_run (map abs_call calls) new_ledger)"
    by (rule ledger_run_inv [OF new_ledger_inv]) (simp add: list_all_iff abs_call_valid)
  have "abs_decision (n_decide nm (snd (nl_run calls Ledger_new)) request) = decide m (ledger_run (map abs_call calls) new_ledger) (abs_request request)"
    by (rule decide_agree [OF assms(2) _ i inv assms(4)]) (use assms(3) in simp)
  then show ?thesis by (simp add: gate_agree)
qed

definition sample_nmetrics :: NMetrics where
  "sample_nmetrics = \<lparr>nm_memory_total_mb = 8192, nm_memory_available_mb = 4096, nm_swap_total_mb = 0, nm_swap_free_mb = 0,
     nm_memory_psi_full_avg10 = None, nm_memory_backing = None\<rparr>"

definition sample_request :: NRequest where
  "sample_request = \<lparr>nr_node = \<lparr>nn_admission_open = True, nn_capacity = Some \<lparr>sh_vcpu = 8, sh_memory_mb = 8192, sh_disk_mb = 0\<rparr>,
     nn_ram_backing_configured = False\<rparr>, nr_owner = (''c'', 1), nr_requested = \<lparr>sh_vcpu = 1, sh_memory_mb = 1024, sh_disk_mb = 0\<rparr>,
     nr_cost = Some (Cost_new Startup (Some 2)), nr_check_shape = True, nr_check_memory_psi = True, nr_deadline = 10, nr_now = 0,
     nr_previous_error = None\<rparr>"

theorem noded_decide_refines_witness:
  "same_metrics sample_nmetrics example_sample
    \<and> abs_decision (n_decide (Some sample_nmetrics) (snd (nl_run sample_calls Ledger_new)) sample_request) = Grant"
proof -
  have m: "rel_option same_metrics (Some sample_nmetrics) (Some example_sample)"
    by (simp add: same_metrics_def sample_nmetrics_def example_sample_def new_metrics_def)
  have f: "pred_option metrics_fit (Some sample_nmetrics)" by (simp add: metrics_fit_def sample_nmetrics_def)
  have len: "length sample_calls < 2 ^ 64" by (simp add: sample_calls_def)
  let ?l = "ledger_run (map abs_call sample_calls) new_ledger" and ?c = "abs_cost (Cost_new Startup (Some 2))"
  have "projected_memory_bytes ?l (abs_owner (''c'', 1)) ?c Memory = 12" "projected_memory_bytes ?l (abs_owner (''c'', 1)) ?c Ram_Backing = 0"
    by code_simp+
  then have "projected_memory_bytes ?l (abs_owner (''c'', 1)) ?c x < 2 ^ 64" for x by (cases x) simp_all
  then have p: "projections_fit ?l sample_request" by (simp add: projections_fit_def sample_request_def)
  have "decide (Some example_sample) ?l (abs_request sample_request) = Grant" by code_simp
  then show ?thesis using noded_decide_refines [OF len m f p] m by simp
qed

end
