(* ===== verification/Noded_Fair.thy ===== *)
theory Noded_Fair
  imports Fair_Capacity "HOL-Library.Word"
begin

text \<open>
  \<open>src/runtime/noded/src/admission/fair.rs\<close>: the node daemon's port of \<open>FairCapacity\<close>. Capacities and weights are
  \<open>usize\<close>, of 64 bits; every method is one section under the queue's mutex. \<open>Waiter::finish\<close> is the normal end of a
  wait, dropping a \<open>Waiter\<close> is giving it up. Tickets are shared objects, so they live in a store, as in
  \<open>Fair_Capacity\<close>. Every step of the port is a step of the agent's queue, so what is proved of the one holds of the other.
\<close>

section \<open>The queue\<close>

type_synonym usize = "64 word"

record NTicket =
  nt_weight :: usize
  nt_owner :: "nat option"
  nt_granted :: bool
  nt_cancelled :: bool
  nt_ready :: bool

record NFair =
  nf_capacity :: usize
  nf_available :: usize
  nf_waiters :: "nat list"
  nf_tickets :: "nat \<Rightarrow> NTicket"
  nf_next :: nat

datatype FairError = FE_Capacity | FE_Weight | FE_Release

definition nt_new :: "usize \<Rightarrow> nat option \<Rightarrow> NTicket" where
  "nt_new weight owner = \<lparr>nt_weight = weight, nt_owner = owner, nt_granted = False, nt_cancelled = False, nt_ready = False\<rparr>"

definition nf_new :: "usize \<Rightarrow> FairError + NFair" where
  "nf_new capacity =
     (if capacity < 1 then Inl FE_Capacity
      else Inr \<lparr>nf_capacity = capacity, nf_available = capacity, nf_waiters = [], nf_tickets = (\<lambda>_. nt_new 1 None), nf_next = 0\<rparr>)"

fun nf_grant_loop :: "usize \<Rightarrow> nat list \<Rightarrow> (nat \<Rightarrow> NTicket) \<Rightarrow> usize \<times> nat list \<times> (nat \<Rightarrow> NTicket)" where
  "nf_grant_loop available [] tickets = (available, [], tickets)"
| "nf_grant_loop available (t # q) tickets =
     (if nt_weight (tickets t) \<le> available
      then nf_grant_loop (available - nt_weight (tickets t)) q (tickets(t := (tickets t)\<lparr>nt_granted := True, nt_ready := True\<rparr>))
      else (available, t # q, tickets))"

definition nf_grant_waiters :: "NFair \<Rightarrow> NFair" where
  "nf_grant_waiters f =
     (case nf_grant_loop (nf_available f) (nf_waiters f) (nf_tickets f) of
        (available, waiters, tickets) \<Rightarrow> f\<lparr>nf_available := available, nf_waiters := waiters, nf_tickets := tickets\<rparr>)"

text \<open>\<open>remove\<close> drops the first entry that is this ticket; both callers ignore the flag it returns.\<close>

definition nf_remove :: "nat \<Rightarrow> NFair \<Rightarrow> NFair" where
  "nf_remove t f = f\<lparr>nf_waiters := remove1 t (nf_waiters f)\<rparr>"

definition nf_enter :: "NFair \<Rightarrow> usize \<Rightarrow> nat option \<Rightarrow> bool \<Rightarrow> FairError + enter_result \<times> NFair" where
  "nf_enter f weight owner blocking =
     (if \<not> (0 < weight \<and> weight \<le> nf_capacity f) then Inl FE_Weight
      else if nf_waiters f = [] \<and> weight \<le> nf_available f then Inr (Granted, f\<lparr>nf_available := nf_available f - weight\<rparr>)
      else if \<not> blocking then Inr (Refused, f)
      else Inr (Queued (nf_next f),
                f\<lparr>nf_waiters := nf_waiters f @ [nf_next f], nf_tickets := (nf_tickets f)(nf_next f := nt_new weight owner),
                  nf_next := Suc (nf_next f)\<rparr>))"

definition nf_finish :: "NFair \<Rightarrow> nat \<Rightarrow> bool \<times> NFair" where
  "nf_finish f t =
     (if nt_granted (nf_tickets f t) then (True, f)
      else (False, nf_grant_waiters (if \<not> nt_cancelled (nf_tickets f t) then nf_remove t f else f)))"

definition nf_drop :: "NFair \<Rightarrow> nat \<Rightarrow> NFair" where
  "nf_drop f t =
     nf_grant_waiters
       (if nt_granted (nf_tickets f t) then f\<lparr>nf_available := nf_available f + nt_weight (nf_tickets f t)\<rparr> else nf_remove t f)"

text \<open>The sum in the guard is at machine width: it wraps where it is too large.\<close>

definition nf_release :: "NFair \<Rightarrow> usize \<Rightarrow> FairError + NFair" where
  "nf_release f weight =
     (if weight = 0 \<or> nf_capacity f < nf_available f + weight then Inl FE_Release
      else Inr (nf_grant_waiters (f\<lparr>nf_available := nf_available f + weight\<rparr>)))"

text \<open>\<open>retain\<close>: the selected tickets are marked and leave the queue.\<close>

definition nf_cancel_waiters :: "NFair \<Rightarrow> nat option \<Rightarrow> nat \<times> NFair" where
  "nf_cancel_waiters f owner =
     (let selected = (\<lambda>t. owner = None \<or> nt_owner (nf_tickets f t) = owner);
          gone = filter selected (nf_waiters f)
      in (length gone,
          nf_grant_waiters
            (f\<lparr>nf_waiters := filter (\<lambda>t. \<not> selected t) (nf_waiters f),
               nf_tickets := (\<lambda>t. if t \<in> set gone then (nf_tickets f t)\<lparr>nt_cancelled := True, nt_ready := True\<rparr> else nf_tickets f t)\<rparr>)))"

section \<open>Any number of callers\<close>

record nf_sys =
  ns_fair :: NFair
  ns_pending :: "nat list"
  ns_holds :: "usize list"

inductive nf_step :: "nf_sys \<Rightarrow> fc_label \<Rightarrow> nf_sys \<Rightarrow> bool" where
  enter_granted: "nf_enter (ns_fair s) w owner blocking = Inr (Granted, f) \<Longrightarrow>
     nf_step s Hand_Out (s\<lparr>ns_fair := f, ns_holds := w # ns_holds s\<rparr>)"
| enter_refused: "nf_enter (ns_fair s) w owner blocking = Inr (Refused, f) \<Longrightarrow> nf_step s Internal (s\<lparr>ns_fair := f\<rparr>)"
| enter_queued: "nf_enter (ns_fair s) w owner blocking = Inr (Queued t, f) \<Longrightarrow>
     nf_step s Internal (s\<lparr>ns_fair := f, ns_pending := t # ns_pending s\<rparr>)"
| finish_granted: "t \<in> set (ns_pending s) \<Longrightarrow> nf_finish (ns_fair s) t = (True, f) \<Longrightarrow>
     nf_step s Hand_Out (s\<lparr>ns_fair := f, ns_pending := remove1 t (ns_pending s), ns_holds := nt_weight (nf_tickets (ns_fair s) t) # ns_holds s\<rparr>)"
| finish_failed: "t \<in> set (ns_pending s) \<Longrightarrow> nf_finish (ns_fair s) t = (False, f) \<Longrightarrow>
     nf_step s Internal (s\<lparr>ns_fair := f, ns_pending := remove1 t (ns_pending s)\<rparr>)"
| dropped: "t \<in> set (ns_pending s) \<Longrightarrow>
     nf_step s Internal (s\<lparr>ns_fair := nf_drop (ns_fair s) t, ns_pending := remove1 t (ns_pending s)\<rparr>)"
| released: "w \<in> set (ns_holds s) \<Longrightarrow> nf_release (ns_fair s) w = Inr f \<Longrightarrow>
     nf_step s Take_Back (s\<lparr>ns_fair := f, ns_holds := remove1 w (ns_holds s)\<rparr>)"
| cancelled: "nf_cancel_waiters (ns_fair s) owner = (n, f) \<Longrightarrow> nf_step s Internal (s\<lparr>ns_fair := f\<rparr>)"

inductive nf_reachable :: "usize \<Rightarrow> nf_sys \<Rightarrow> bool" for capacity where
  start: "nf_new capacity = Inr f \<Longrightarrow> nf_reachable capacity \<lparr>ns_fair = f, ns_pending = [], ns_holds = []\<rparr>"
| step: "nf_reachable capacity s \<Longrightarrow> nf_step s l s' \<Longrightarrow> nf_reachable capacity s'"

section \<open>Reading the port as the agent's queue\<close>

definition abs_ticket :: "NTicket \<Rightarrow> Waiter" where
  "abs_ticket t = \<lparr>w_weight = uint (nt_weight t), w_owner = nt_owner t, w_ready = nt_ready t, w_granted = nt_granted t, w_cancelled = nt_cancelled t\<rparr>"

definition abs_fair :: "NFair \<Rightarrow> FairCapacity" where
  "abs_fair f = \<lparr>fc_capacity = uint (nf_capacity f), fc_available = uint (nf_available f), fc_waiters = nf_waiters f,
     fc_tickets = abs_ticket \<circ> nf_tickets f, fc_next = nf_next f\<rparr>"

definition abs_sys :: "nf_sys \<Rightarrow> fc_sys" where
  "abs_sys s = \<lparr>sys_fc = abs_fair (ns_fair s), sys_pending = ns_pending s, sys_holds = map uint (ns_holds s)\<rparr>"

lemma abs_ticket_sel [simp]:
  "w_weight (abs_ticket t) = uint (nt_weight t)" "w_owner (abs_ticket t) = nt_owner t" "w_granted (abs_ticket t) = nt_granted t"
  "w_cancelled (abs_ticket t) = nt_cancelled t" "abs_ticket (nt_new w ow) = new_ticket (uint w) ow"
  "abs_ticket (t\<lparr>nt_granted := True, nt_ready := True\<rparr>) = (abs_ticket t)\<lparr>w_granted := True, w_ready := True\<rparr>"
  "abs_ticket (t\<lparr>nt_cancelled := True, nt_ready := True\<rparr>) = (abs_ticket t)\<lparr>w_cancelled := True, w_ready := True\<rparr>"
  by (simp_all add: abs_ticket_def nt_new_def new_ticket_def)

lemma abs_fair_sel [simp]:
  "fc_capacity (abs_fair f) = uint (nf_capacity f)" "fc_available (abs_fair f) = uint (nf_available f)" "fc_waiters (abs_fair f) = nf_waiters f"
  "fc_tickets (abs_fair f) t = abs_ticket (nf_tickets f t)" "fc_next (abs_fair f) = nf_next f"
  by (simp_all add: abs_fair_def)

lemma uint_minus: "b \<le> a \<Longrightarrow> uint (a - b) = uint a - uint b" for a b :: usize
  by (simp add: uint_sub_lem [THEN iffD1] word_le_def)

lemma uint_plus: "uint a + uint b < 2 ^ 64 \<Longrightarrow> uint (a + b) = uint a + uint b" for a b :: usize
  by (simp add: uint_word_ariths)

lemma abs_grant_loop:
  "grant_loop (uint a) q (abs_ticket \<circ> f) = (case nf_grant_loop a q f of (a', q', f') \<Rightarrow> (uint a', q', abs_ticket \<circ> f'))"
proof (induction a q f rule: nf_grant_loop.induct)
  case (2 a t q f)
  let ?f = "f(t := (f t)\<lparr>nt_granted := True, nt_ready := True\<rparr>)"
  have e: "(abs_ticket \<circ> f)(t := (abs_ticket (f t))\<lparr>w_granted := True, w_ready := True\<rparr>) = abs_ticket \<circ> ?f" by auto
  show ?case
  proof (cases "nt_weight (f t) \<le> a")
    case True
    then have "uint (nt_weight (f t)) \<le> uint a" by (simp add: word_le_def)
    then have "grant_loop (uint a) (t # q) (abs_ticket \<circ> f) = grant_loop (uint (a - nt_weight (f t))) q (abs_ticket \<circ> ?f)"
      using True by (simp only: grant_loop.simps o_apply abs_ticket_sel e uint_minus if_True)
    then show ?thesis using 2 [OF True] True by (simp only: nf_grant_loop.simps if_True)
  qed (simp add: word_le_def)
qed simp

lemma abs_grant: "grant_waiters (abs_fair f) = abs_fair (nf_grant_waiters f)"
  by (simp add: grant_waiters_def nf_grant_waiters_def abs_fair_def abs_grant_loop split: prod.split)

lemma abs_enter:
  "acquire_enter (abs_fair f) blocking (uint w) owner
     = (case nf_enter f w owner blocking of Inl _ \<Rightarrow> Inl WeightExceedsCapacity | Inr (r, f') \<Rightarrow> Inr (r, abs_fair f'))"
proof -
  have "(abs_ticket \<circ> nf_tickets f)(n := new_ticket (uint w) owner) = abs_ticket \<circ> (nf_tickets f)(n := nt_new w owner)" for n by auto
  then show ?thesis
    by (auto simp: acquire_enter_def nf_enter_def abs_fair_def word_le_def word_less_def uint_minus)
qed

lemma abs_finish: "acquire_resume (abs_fair f) t = (case nf_finish f t of (r, f') \<Rightarrow> (r, abs_fair f'))"
proof -
  have "abs_fair (nf_remove t f) = (abs_fair f)\<lparr>fc_waiters := remove1 t (nf_waiters f)\<rparr>" by (simp add: abs_fair_def nf_remove_def)
  then show ?thesis by (auto simp: acquire_resume_def nf_finish_def abs_grant [symmetric])
qed

lemma abs_drop:
  assumes "nt_granted (nf_tickets f t) \<Longrightarrow> uint (nf_available f) + uint (nt_weight (nf_tickets f t)) < 2 ^ 64"
  shows "acquire_abort (abs_fair f) t = abs_fair (nf_drop f t)"
proof -
  have r: "abs_fair (nf_remove t f) = (abs_fair f)\<lparr>fc_waiters := remove1 t (nf_waiters f)\<rparr>" by (simp add: abs_fair_def nf_remove_def)
  have "abs_fair (nf_remove t f) = abs_fair f" if "t \<notin> set (nf_waiters f)" using that by (simp add: nf_remove_def remove1_idem)
  moreover have "abs_fair (f\<lparr>nf_available := nf_available f + nt_weight (nf_tickets f t)\<rparr>)
      = (abs_fair f)\<lparr>fc_available := uint (nf_available f) + uint (nt_weight (nf_tickets f t))\<rparr>" if "nt_granted (nf_tickets f t)"
    using assms [OF that] by (simp add: abs_fair_def uint_plus)
  ultimately show ?thesis using r by (auto simp: acquire_abort_def nf_drop_def abs_grant [symmetric])
qed

lemma abs_release:
  assumes "uint (nf_available f) + uint w < 2 ^ 64"
  shows "release (abs_fair f) (uint w) = map_sum (\<lambda>_. ReleasedWithoutReservation) abs_fair (nf_release f w)"
proof -
  have "abs_fair (f\<lparr>nf_available := nf_available f + w\<rparr>) = (abs_fair f)\<lparr>fc_available := uint (nf_available f) + uint w\<rparr>"
    using assms by (simp add: abs_fair_def uint_plus)
  moreover have "uint w \<le> 0 \<longleftrightarrow> w = 0" using uint_ge_0 [of w] by (auto simp: word_uint_eq_iff simp del: uint_ge_0)
  ultimately show ?thesis using assms by (simp add: release_def nf_release_def word_less_def uint_plus abs_grant [symmetric])
qed

lemma abs_cancel:
  assumes "distinct (nf_waiters f)"
  shows "cancel_waiters (abs_fair f) owner = (case nf_cancel_waiters f owner of (n, f') \<Rightarrow> (int n, abs_fair f'))"
proof -
  let ?sel = "\<lambda>t. owner = None \<or> nt_owner (nf_tickets f t) = owner"
  have "cancel_loop (filter ?sel (nf_waiters f)) (abs_fair f) = abs_fair (f\<lparr>nf_waiters := filter (\<lambda>t. \<not> ?sel t) (nf_waiters f),
      nf_tickets := (\<lambda>t. if t \<in> set (filter ?sel (nf_waiters f)) then (nf_tickets f t)\<lparr>nt_cancelled := True, nt_ready := True\<rparr> else nf_tickets f t)\<rparr>)"
    using assms fold_remove1_filter [OF assms, of ?sel] by (simp add: cancel_loop_eq) (auto simp: abs_fair_def fun_eq_iff)
  then show ?thesis by (simp add: cancel_waiters_def nf_cancel_waiters_def Let_def abs_grant [symmetric])
qed

section \<open>The two queues take the same steps\<close>

lemma abs_sys_sel [simp]:
  "sys_fc (abs_sys s) = abs_fair (ns_fair s)" "sys_pending (abs_sys s) = ns_pending s" "sys_holds (abs_sys s) = map uint (ns_holds s)"
  by (simp_all add: abs_sys_def)

lemma abs_sys_update:
  "abs_sys (s\<lparr>ns_fair := f\<rparr>) = (abs_sys s)\<lparr>sys_fc := abs_fair f\<rparr>"
  "abs_sys (s\<lparr>ns_fair := f, ns_pending := p\<rparr>) = (abs_sys s)\<lparr>sys_fc := abs_fair f, sys_pending := p\<rparr>"
  "abs_sys (s\<lparr>ns_fair := f, ns_holds := h\<rparr>) = (abs_sys s)\<lparr>sys_fc := abs_fair f, sys_holds := map uint h\<rparr>"
  "abs_sys (s\<lparr>ns_fair := f, ns_pending := p, ns_holds := h\<rparr>) = (abs_sys s)\<lparr>sys_fc := abs_fair f, sys_pending := p, sys_holds := map uint h\<rparr>"
  by (simp_all add: abs_sys_def)

lemma map_uint_remove1: "map uint (remove1 w ws) = remove1 (uint w) (map uint ws)" for w :: usize
  by (induction ws) (auto simp: word_uint_eq_iff)

lemma granted_le_capacity:
  assumes "fc_core s" "t \<in> set (sys_pending s)" "w_granted (fc_tickets (sys_fc s) t)"
  shows "fc_available (sys_fc s) + w_weight (fc_tickets (sys_fc s) t) \<le> fc_capacity (sys_fc s)"
proof -
  have "0 \<le> granted_sum (fc_tickets (sys_fc s)) (remove1 t (sys_pending s))"
    using assms(1) set_remove1_subset [of t "sys_pending s"] by (intro granted_sum_nonneg) (auto simp: fc_core_def Let_def)
  moreover have "0 \<le> sum_list (sys_holds s)"
    using assms(1) by (intro sum_list_nonneg) (auto simp: fc_core_def Let_def less_imp_le)
  ultimately show ?thesis using assms granted_sum_remove [OF assms(2), of "fc_tickets (sys_fc s)"] by (simp add: fc_core_def Let_def)
qed

text \<open>In a state the invariant holds of, no sum of the port leaves the machine width.\<close>

lemma no_overflow:
  assumes "fc_inv (abs_sys s)"
  shows "w \<in> set (ns_holds s) \<Longrightarrow> uint (nf_available (ns_fair s)) + uint w < 2 ^ 64"
    and "t \<in> set (ns_pending s) \<Longrightarrow> nt_granted (nf_tickets (ns_fair s) t) \<Longrightarrow>
      uint (nf_available (ns_fair s)) + uint (nt_weight (nf_tickets (ns_fair s) t)) < 2 ^ 64"
proof -
  have c: "fc_core (abs_sys s)" using assms by (simp add: fc_inv_def)
  have b: "uint (nf_capacity (ns_fair s)) < 2 ^ 64" using lt2p_lem [of 64 "nf_capacity (ns_fair s)"] by simp
  show "w \<in> set (ns_holds s) \<Longrightarrow> uint (nf_available (ns_fair s)) + uint w < 2 ^ 64"
    using held_le_capacity(2) [OF c, of "uint w"] b by simp
  show "t \<in> set (ns_pending s) \<Longrightarrow> nt_granted (nf_tickets (ns_fair s) t) \<Longrightarrow>
      uint (nf_available (ns_fair s)) + uint (nt_weight (nf_tickets (ns_fair s) t)) < 2 ^ 64"
    using granted_le_capacity [OF c, of t] b by simp
qed

lemma nf_step_forward:
  assumes "nf_step s l s'" "fc_inv (abs_sys s)"
  shows "fc_step (abs_sys s) l (abs_sys s')"
  using assms(1)
proof cases
  case (enter_granted w owner blocking f)
  then show ?thesis using fc_step.enter_granted [of "abs_sys s" blocking "uint w" owner "abs_fair f"] by (simp add: abs_enter abs_sys_update)
next
  case (enter_refused w owner blocking f)
  then show ?thesis using fc_step.enter_refused [of "abs_sys s" blocking "uint w" owner "abs_fair f"] by (simp add: abs_enter abs_sys_update)
next
  case (enter_queued w owner blocking t f)
  then show ?thesis using fc_step.enter_queued [of "abs_sys s" blocking "uint w" owner t "abs_fair f"] by (simp add: abs_enter abs_sys_update)
next
  case (finish_granted t f)
  then show ?thesis using fc_step.resume_granted [of t "abs_sys s" "abs_fair f"] by (simp add: abs_finish abs_sys_update)
next
  case (finish_failed t f)
  then show ?thesis using fc_step.resume_failed [of t "abs_sys s" "abs_fair f"] by (simp add: abs_finish abs_sys_update)
next
  case (dropped t)
  then show ?thesis using fc_step.abort [of t "abs_sys s"] no_overflow(2) [OF assms(2), of t] by (simp add: abs_drop abs_sys_update)
next
  case (released w f)
  then show ?thesis using fc_step.released [of "uint w" "abs_sys s" "abs_fair f"] no_overflow(1) [OF assms(2), of w]
    by (simp add: abs_release abs_sys_update map_uint_remove1)
next
  case (cancelled owner n f)
  have "distinct (nf_waiters (ns_fair s))" using assms(2) by (simp add: fc_inv_def fc_core_def Let_def)
  then show ?thesis using cancelled fc_step.cancelled [of "abs_sys s" owner "int n" "abs_fair f"] by (simp add: abs_cancel abs_sys_update)
qed

text \<open>Every weight the agent's queue lets in is at most the capacity, so it is a machine word.\<close>

lemma enter_weight_word:
  assumes "acquire_enter (abs_fair f) blocking w owner = Inr (r, fc)"
  obtains v f' where "w = uint v" "nf_enter f v owner blocking = Inr (r, f')" "fc = abs_fair f'"
proof -
  have "0 < w" "w \<le> uint (nf_capacity f)" using assms by (auto simp: acquire_enter_def split: if_splits)
  moreover have "uint (nf_capacity f) < 2 ^ 64" using lt2p_lem [of 64 "nf_capacity f"] by simp
  ultimately have "uint (word_of_int w :: usize) = w" by (intro word_of_int_inverse [where 'a = 64, OF refl]) simp_all
  then obtain v :: usize where v: "w = uint v" by metis
  then show thesis using assms that by (auto simp: abs_enter split: sum.splits)
qed

lemma nf_step_backward:
  assumes "fc_step (abs_sys s) l a" "fc_inv (abs_sys s)"
  shows "\<exists>s'. nf_step s l s' \<and> abs_sys s' = a"
  using assms(1)
proof cases
  case (enter_granted blocking w owner fc)
  then show ?thesis by (fastforce elim!: enter_weight_word simp: abs_sys_update dest: nf_step.enter_granted)
next
  case (enter_refused blocking w owner fc)
  then show ?thesis by (fastforce elim!: enter_weight_word simp: abs_sys_update dest: nf_step.enter_refused)
next
  case (enter_queued blocking w owner t fc)
  then show ?thesis by (fastforce elim!: enter_weight_word simp: abs_sys_update dest: nf_step.enter_queued)
next
  case (resume_granted t fc)
  then show ?thesis using nf_step.finish_granted [of t s] by (fastforce simp: abs_finish abs_sys_update split: prod.splits)
next
  case (resume_failed t fc)
  then show ?thesis using nf_step.finish_failed [of t s] by (fastforce simp: abs_finish abs_sys_update split: prod.splits)
next
  case (abort t)
  then show ?thesis using nf_step.dropped [of t s] no_overflow(2) [OF assms(2), of t] by (auto simp: abs_drop abs_sys_update)
next
  case (released w fc)
  then obtain v where v: "w = uint v" "v \<in> set (ns_holds s)" by auto
  then obtain f where "nf_release (ns_fair s) v = Inr f" "fc = abs_fair f"
    using released no_overflow(1) [OF assms(2)] by (cases "nf_release (ns_fair s) v") (auto simp: abs_release)
  then show ?thesis using released v nf_step.released [of v s f] by (auto simp: abs_sys_update map_uint_remove1)
next
  case (cancelled owner n fc)
  have "distinct (nf_waiters (ns_fair s))" using assms(2) by (simp add: fc_inv_def fc_core_def Let_def)
  then show ?thesis using cancelled nf_step.cancelled [of s owner] by (fastforce simp: abs_cancel abs_sys_update split: prod.splits)
qed

lemma nf_reachable_abs: "nf_reachable capacity s \<Longrightarrow> fc_reachable (uint capacity) (abs_sys s)"
proof (induction rule: nf_reachable.induct)
  case (start f)
  have "uint capacity < 1 \<longleftrightarrow> capacity < 1" by (simp add: word_less_def)
  then have "new_capacity (uint capacity) = Inr (abs_fair f)"
    using start by (auto simp: nf_new_def new_capacity_def abs_fair_def split: if_splits)
  then show ?case using fc_reachable.start by (fastforce simp: init_sys_def abs_sys_def)
next
  case (step s l s')
  then show ?case using fc_reachable_inv nf_step_forward by (blast intro: fc_reachable.step)
qed

lemma abs_granted_sum:
  "granted_sum (fc_tickets (abs_fair f)) ts = (\<Sum>t \<leftarrow> ts. if nt_granted (nf_tickets f t) then uint (nt_weight (nf_tickets f t)) else 0)"
  by (simp add: granted_sum_def cong: if_cong)

section \<open>Properties\<close>

text \<open>
  C16. The node daemon's capacity queue is the agent's queue. Read with its machine words as numbers, a reachable state of the
  port is a reachable state of \<open>FairCapacity\<close>, and from it the two take exactly the same steps, in both directions. So
  the port loses no capacity either: what is free, what callers hold and what is granted and not yet accepted add up to
  the capacity. The sum in the guard of \<open>release\<close> stays within the machine width for every weight that a
  caller holds, and such a release never fails.
\<close>

theorem noded_fair_bisimilar:
  assumes "nf_reachable capacity s"
  shows "fc_reachable (uint capacity) (abs_sys s)
    \<and> (\<forall>l s'. nf_step s l s' \<longrightarrow> fc_step (abs_sys s) l (abs_sys s'))
    \<and> (\<forall>l a. fc_step (abs_sys s) l a \<longrightarrow> (\<exists>s'. nf_step s l s' \<and> abs_sys s' = a))
    \<and> uint (nf_available (ns_fair s)) + (\<Sum>w \<leftarrow> ns_holds s. uint w)
        + (\<Sum>t \<leftarrow> ns_pending s. if nt_granted (nf_tickets (ns_fair s) t) then uint (nt_weight (nf_tickets (ns_fair s) t)) else 0)
        = uint capacity
    \<and> (\<forall>w \<in> set (ns_holds s). uint (nf_available (ns_fair s)) + uint w < 2 ^ 64 \<and> (\<exists>f. nf_release (ns_fair s) w = Inr f))"
proof -
  have r: "fc_reachable (uint capacity) (abs_sys s)" by (rule nf_reachable_abs [OF assms])
  then have i: "fc_inv (abs_sys s)" and c: "nf_capacity (ns_fair s) = capacity"
    using fc_reachable_inv by (fastforce simp: word_uint_eq_iff)+
  have "\<exists>f. nf_release (ns_fair s) w = Inr f" if "w \<in> set (ns_holds s)" for w
    using release_held [OF i, of "uint w"] that no_overflow(1) [OF i that]
    by (cases "nf_release (ns_fair s) w") (auto simp: abs_release)
  moreover have "uint (nf_available (ns_fair s)) + sum_list (map uint (ns_holds s)) + granted_sum (fc_tickets (abs_fair (ns_fair s))) (ns_pending s)
      = uint capacity"
    using i c by (simp add: fc_inv_def fc_core_def Let_def)
  ultimately show ?thesis
    using r nf_step_forward [OF _ i] nf_step_backward [OF _ i] no_overflow(1) [OF i] unfolding abs_granted_sum by blast
qed

text \<open>A caller takes both units of a capacity of two and a second caller queues.\<close>

definition sample_port :: NFair where
  "sample_port = \<lparr>nf_capacity = 2, nf_available = 2, nf_waiters = [], nf_tickets = (\<lambda>_. nt_new 1 None), nf_next = 0\<rparr>"

definition sample_port_queued :: nf_sys where
  "sample_port_queued = \<lparr>ns_fair = sample_port\<lparr>nf_available := 0, nf_waiters := [0], nf_tickets := (nf_tickets sample_port)(0 := nt_new 1 None),
     nf_next := 1\<rparr>, ns_pending = [0], ns_holds = [2]\<rparr>"

text \<open>Outside that bound the two differ: with one unit held, a release of the largest word, which nobody holds, wraps in the guard
  and is accepted, where the agent refuses it.\<close>

lemma release_wraps:
  "nf_release (sample_port\<lparr>nf_available := 1\<rparr>) (- 1) = Inr (sample_port\<lparr>nf_available := 0\<rparr>)"
  "release (abs_fair (sample_port\<lparr>nf_available := 1\<rparr>)) (uint (- 1 :: usize)) = Inl ReleasedWithoutReservation"
  by (simp_all add: nf_release_def nf_grant_waiters_def release_def sample_port_def unsigned_minus_1_eq_mask mask_eq_exp_minus_1)

lemma sample_port_reachable: "nf_reachable 2 sample_port_queued"
proof -
  let ?s = "\<lparr>ns_fair = sample_port, ns_pending = [], ns_holds = []\<rparr>"
  let ?held = "?s\<lparr>ns_fair := sample_port\<lparr>nf_available := 0\<rparr>, ns_holds := [2]\<rparr>"
  have "nf_reachable 2 ?s" by (rule nf_reachable.start) (simp add: nf_new_def sample_port_def)
  moreover have "nf_step ?s Hand_Out ?held"
    using nf_step.enter_granted [of ?s 2 None True "sample_port\<lparr>nf_available := 0\<rparr>"] by (simp add: nf_enter_def sample_port_def)
  moreover have "nf_step ?held Internal sample_port_queued"
    using nf_step.enter_queued [of ?held 1 None True 0 "ns_fair sample_port_queued"]
    by (simp add: nf_enter_def sample_port_def sample_port_queued_def)
  ultimately show ?thesis by (blast intro: nf_reachable.step)
qed

theorem noded_fair_bisimilar_witness:
  "nf_reachable 2 sample_port_queued \<and> nf_waiters (ns_fair sample_port_queued) = [0]
   \<and> fc_reachable 2 (abs_sys sample_port_queued) \<and> (\<exists>f. nf_release (ns_fair sample_port_queued) 2 = Inr f)"
  using sample_port_reachable noded_fair_bisimilar [OF sample_port_reachable] by (simp add: sample_port_queued_def)

end
