(* ===== verification/Spec2Isabelle.thy ===== *)
theory Spec2Isabelle
  imports Fair_Capacity Admission_Decision Placement_Guarantees Consolidation Scale_Decision Wire Autoscaler_Cycle
    Singleflight_Cache Exec_Fence Durable_Batch Noded_Decide Noded_Fair
begin

text \<open>
  A verification development for the decisions and the coordination of \<open>ucloud-sandboxes\<close>.

  \<^bold>\<open>The program.\<close> A control plane runs sandboxes on a fleet of workers. An autoscaler looks at the fleet in cycles, decides
  how many workers to create, which to empty and which to stop, journals each provider call before it is made and replays
  what a crash left over. A gateway places each new sandbox on a worker, from heartbeats that lag behind. On a worker, an
  agent in Python and a daemon in Rust (\<open>noded\<close>) admit launches and restores against the free memory, fence
  transitions of a sandbox against its running commands, and write their records in batches.
  File names are below \<open>src/ucloud_sandboxes\<close> unless they start with \<open>src\<close>.

  \<^bold>\<open>Shared vocabulary.\<close> \<open>Prelude\<close>: numbers, time, strings and dicts of Python. \<open>Models\<close>: the records
  of \<open>models.py\<close>. \<open>Wire\<close>: the JSON forms of inventory entries; a decoded entry is well formed and decoding inverts encoding.

  \<^bold>\<open>Admission on a worker.\<close>
  \<^item> \<open>Fair_Capacity\<close> (\<open>admission.py\<close>): the sections of \<open>FairCapacity\<close> interleaved by any number of callers; capacity is
    conserved, the queue is first in, first out, and the lock \<open>FairRLock\<close> built on it excludes. The lock is proved
    against the locale \<open>unit_gate\<close>, which the queue interprets.
  \<^item> \<open>Transition_Ledger\<close> (\<open>transition_admission.py\<close>): the ledger of memory promised to transitions. Its running totals are
    the sum over owners of their largest demand; a claim is released exactly once.
  \<^item> \<open>Resource_Admission\<close> and \<open>Admission_Decision\<close> (\<open>resource_admission.py\<close>, \<open>admission_decision.py\<close>,
    the guard loop of \<open>direct_service.py\<close>): what is reserved fits the sampled headroom, refusals fail closed, and the guard answers by its deadline.
  \<^item> \<open>Noded_Ledger\<close>, \<open>Noded_Decide\<close>, \<open>Noded_Fair\<close> (\<open>src/runtime/noded/src/admission\<close>: \<open>ledger.rs\<close>, \<open>decide.rs\<close>,
    \<open>fair.rs\<close>): the ports to Rust at machine width, with their wrapping sums. Each is shown to do what the Python
    original does: by a refinement over sequences of calls, an equality of decisions, and a bisimulation.

  \<^bold>\<open>Coordination on a worker.\<close>
  \<^item> \<open>Exec_Fence\<close> (\<open>exec_fence.py\<close>, the coordinator of \<open>sandbox.py\<close>, \<open>node_runtime.py\<close>, \<open>exec_fence.rs\<close>
    and \<open>fence.rs\<close> of the daemon): one step per system call on the two lock files; a transition excludes commands, and nobody deadlocks.
  \<^item> \<open>Durable_Batch\<close> (\<open>durable_batch.py\<close>): many operations in one SQLite transaction; what is acknowledged is committed,
    and the committed database is that of running the operations one by one in order of arrival.
  \<^item> \<open>Singleflight_Cache\<close> (\<open>singleflight_cache.py\<close>): no value from before an invalidation is served, and loads are shared.

  \<^bold>\<open>Placement.\<close> \<open>Placement_Accounting\<close> (\<open>placement_accounting.py\<close>), \<open>Placement_Choice\<close> (\<open>placement_choice.py\<close>) with its
  theorems in \<open>Placement_Guarantees\<close>, and \<open>Consolidation\<close> (\<open>consolidation.py\<close>): the record index charges what a scan charges, creates in flight
  stay charged, the choice of k workers and the packing of groups are sound and end, and a sandbox moved at its wakes never returns.

  \<^bold>\<open>The autoscaler.\<close>
  \<^item> \<open>Scale_Capacity\<close>, \<open>Scale_Packing\<close>, \<open>Scale_Drain\<close>, \<open>Scale_Policy\<close> (\<open>policy.py\<close>) with the theorems in
    \<open>Scale_Decision\<close>: the limits of a decision, that stops are justified and leave room for the demand, and that one worker is
    emptied at a time. The phases that create workers share the locale \<open>create_phase\<close>.
  \<^item> \<open>Networking\<close> and \<open>Reconcile\<close> (\<open>networking.py\<close>, \<open>reconcile.py\<close>): hostnames, create intents, the builder pool.
  \<^item> \<open>Autoscaler_Journal\<close> (\<open>autoscaler_state.py\<close>) and \<open>Provider_Calls\<close> (parts of \<open>cli.py\<close>, \<open>providers/base.py\<close>), with
    \<open>Journal_Laws\<close>, \<open>Journal_Guarantees\<close> and \<open>Provider_Guarantees\<close>: over any history no create is called twice, a slot has one open create,
    recovery moves each row to the state its evidence supports, and a batch calls exactly what is authorised.
  \<^item> \<open>Autoscaler_Cycle\<close>: the path of one cycle from the decisions to the provider calls.

  The properties below span components: what a cycle may ask of the provider, and what a grant of the daemon is worth.

  \<^bold>\<open>Choices.\<close> Concurrent code is a step relation whose steps are the sections under a lock or single system calls; timeouts
  may fire at any time. Loops are structural or have a termination proof, and no definition uses fuel. Clocks, random
  numbers, UUIDs, the provider's answers, the loader of the cache and the effect of an SQL statement are arguments.
  Floats are rationals, so rounding is not modelled. Sums of the daemon wrap at \<open>2 ^ 64\<close>, as its release build does;
  where a theorem needs that a quantity fits, it says so.

  \<^bold>\<open>Not modelled.\<close> The HTTP services (\<open>control_plane.py\<close>, \<open>dashboard.py\<close>, \<open>http_server.py\<close>, the gateway), the model relay
  and telemetry: streams and pages around decisions that are modelled here. The routing and storage databases (\<open>routing.py\<close>,
  \<open>storage_native*.py\<close>, \<open>direct_registry.py\<close>): their behaviour is that of SQL text in an engine outside the
  sources. The runtime (\<open>direct_runtime.py\<close>, \<open>direct_warden.py\<close>, \<open>direct_oci.py\<close>, \<open>vm_init.py\<close>, most of
  \<open>noded\<close>), images, environments and chunk stores: sequences of calls to the kernel, runsc, mount, buildkit and S3, whose effect
  the sources do not define. Of \<open>cli.py\<close> only the journalled provider calls of a cycle are modelled; what fills a
  stop's request is observation. Of \<open>admission.py\<close> the header parser \<open>parse_admission_wait\<close> is left out, of
  \<open>ledger.rs\<close> the status rows of \<open>snapshot\<close>. Scripts and benchmarks drive a live system and are used by no other part.
\<close>

section \<open>One cycle of the autoscaler\<close>

text \<open>
  C19. What one whole cycle of the autoscaler hands to the provider, over both of its batches: the replay at its start and the
  planned batch at its end. The cycle always gets through the inventory pass. No operation is handed over twice in it. The
  replay calls creates only, and only ones that were prepared by an earlier cycle. The planned batch creates, for each pool, at
  most what the policy allows per cycle, and nothing for a pool that has a create in doubt or accepted but not yet seen, the ones
  just replayed included: every open create of the pool that the cycle leaves is then one of the planned batch itself. It stops
  at most as many workers as were planned. A cycle without \<open>--execute\<close> or without the controller lock calls nothing, and
  when the planned batch ran no create is left prepared.
\<close>

theorem cycle_calls_bounded:
  assumes "keyed_rows j" "list_all drain_call drains"
  shows "\<exists>j' replayed planned.
    provider_cycle execution_authorized execute uuid5 render deployment clock jobs recovery_clock replay_ctx
      (cycle_create_intents deployment version uuid builder_uuid (evaluate_scale parse nodes demand policy now signals)
        (evaluate_builder_scale parse builder_nodes pending_builds prepared_builders policy max_builder_nodes builder_now) seed_prefix)
      drains plans ctx j = Inr (j', replayed, planned)
    \<and> distinct (map po_operation_id (replayed @ planned))
    \<and> (\<forall>c \<in> set replayed. po_kind c = CreateOp \<and> po_operation_id c \<in> prepared_ids CreateOp j)
    \<and> (\<forall>role. int (length (filter (\<lambda>c. po_kind c = CreateOp \<and> po_role c = role) planned)) \<le> max 0 (max_create_per_cycle policy))
    \<and> (\<forall>c \<in> set planned. po_kind c = CreateOp \<longrightarrow>
         (\<forall>i op. dict_get (jn_operations j') i = Some op \<longrightarrow> po_kind op = CreateOp \<longrightarrow> po_state op \<in> {Uncertain, Accepted}
            \<longrightarrow> po_role op = po_role c \<longrightarrow> i \<in> po_operation_id ` set planned))
    \<and> length (filter (\<lambda>c. po_kind c = StopOp) planned) \<le> length plans
    \<and> (\<not> (execution_authorized \<and> execute) \<longrightarrow> replayed = [] \<and> planned = [])
    \<and> (planned \<noteq> [] \<longrightarrow> prepared_ids CreateOp j' = {})"
proof (cases execution_authorized)
  case False
  then show ?thesis by (simp add: provider_cycle_def)
next
  case auth: True
  define d where "d = evaluate_scale parse nodes demand policy now signals"
  define b where "b = evaluate_builder_scale parse builder_nodes pending_builds prepared_builders policy max_builder_nodes builder_now"
  define intents where "intents = cycle_create_intents deployment version uuid builder_uuid d b seed_prefix"
  obtain pass where pass: "reconcile_provider_operation_inventory replay_ctx execute jobs recovery_clock j = Inr pass"
    "keyed_rows (ar_journal (ip_run pass))" "distinct (map po_operation_id (ar_calls (ip_run pass)))"
    "\<forall>c \<in> set (ar_calls (ip_run pass)). po_kind c = CreateOp \<and> po_operation_id c \<in> prepared_ids CreateOp j"
    "\<forall>i \<in> po_operation_id ` set (ar_calls (ip_run pass)). \<exists>op. dict_get (jn_operations (ar_journal (ip_run pass))) i = Some op \<and> po_state op \<noteq> Prepared"
    "execute \<Longrightarrow> prepared_ids CreateOp (ar_journal (ip_run pass)) = {}" "\<not> execute \<Longrightarrow> ar_calls (ip_run pass) = []"
    "\<forall>i op. dict_get (jn_operations (ar_journal (ip_run pass))) i = Some op \<longrightarrow> po_kind op = CreateOp \<longrightarrow> po_state op \<in> {Uncertain, Accepted}
       \<longrightarrow> po_role op \<in> set (ip_blocked_roles pass)"
    by (rule inventory_pass [OF assms(1)]) (rule that)
  define replayed where "replayed = ar_calls (ip_run pass)"
  define j1 where "j1 = fold (journal_step uuid5 render) (if execute then drains else []) (ar_journal (ip_run pass))"
  have j1: "jn_operations j1 = jn_operations (ar_journal (ip_run pass))" unfolding j1_def using assms(2) by (simp add: drain_calls_keep)
  note after = pass(2,5,6,8) [unfolded keyed_rows_def prepared_ids_def, folded j1, folded keyed_rows_def prepared_ids_def]
  define blocked where "blocked = ip_blocked_roles pass"
  obtain j' planned where plan: "planned_phase True execute uuid5 render deployment clock (intents blocked) plans ctx j1 = (j', planned)" by fastforce
  have run: "provider_cycle execution_authorized execute uuid5 render deployment clock jobs recovery_clock replay_ctx intents drains plans ctx j
      = Inr (j', replayed, planned)"
    unfolding provider_cycle_def pass(1) using plan auth by (simp add: Let_def j1_def blocked_def replayed_def)
  have limit: "int (length (filter (\<lambda>p. fst p = role) (intents blocked))) \<le> max 0 (max_create_per_cycle policy)" for role
    using scale_creates_bound [of parse nodes demand policy now signals]
      builder_scale_limits [OF refl, of parse builder_nodes pending_builds prepared_builders policy max_builder_nodes builder_now]
    unfolding intents_def cycle_intents_role d_def b_def by (cases role) auto
  show ?thesis
  proof (cases "planned = []")
    case True
    then show ?thesis using run pass(3,4,7) auth unfolding intents_def d_def b_def replayed_def by (intro exI conjI) auto
  next
    case False
    note batch = planned_batch [OF plan after(1,3) False]
    have roles: "po_role c \<notin> set blocked" if "c \<in> set planned" "po_kind c = CreateOp" for c
      using batch(7) that by (fastforce simp: intents_def cycle_create_intents_def Let_def split: if_splits)
    have "set (map po_operation_id replayed) \<inter> set (map po_operation_id planned) = {}"
      using after(2) batch(2) unfolding replayed_def by fastforce
    then have ids: "distinct (map po_operation_id (replayed @ planned))" using pass(3) batch(1) by (simp add: replayed_def)
    have fresh: "i \<in> po_operation_id ` set planned"
      if "c \<in> set planned" "po_kind c = CreateOp" "dict_get (jn_operations j') i = Some op" "po_kind op = CreateOp"
        "po_state op \<in> {Uncertain, Accepted}" "po_role op = po_role c" for c i op
    proof (rule ccontr)
      assume "i \<notin> po_operation_id ` set planned"
      then have "dict_get (jn_operations j1) i = Some op" using batch(8) that(3,5) by fastforce
      then have "po_role op \<in> set blocked" using after(4) that(4,5) unfolding blocked_def by blast
      with roles [OF that(1,2)] that(6) show False by simp
    qed
    have count: "int (length (filter (\<lambda>c. po_kind c = CreateOp \<and> po_role c = role) planned)) \<le> max 0 (max_create_per_cycle policy)" for role
      using limit [of role] batch(3) [of role] by linarith
    show ?thesis
      using run pass(4) batch(4,5,6) ids fresh count auth unfolding intents_def d_def b_def replayed_def
      by (intro exI [of _ j'] exI [of _ replayed] exI [of _ planned] conjI) (auto simp: replayed_def)
  qed
qed

text \<open>A fleet that must have two workers, a journal with one prepared create of an earlier cycle whose replay the provider
  rejects, and a provider that does not answer the planned creates.\<close>

definition left_over :: Journal where
  "left_over = fst (plan_create_operation (\<lambda>s. s) (\<lambda>_. []) ''dep'' Sandbox_Role sample_intent 1 2 empty_journal)"

definition rejecting_context :: ApplyContext where
  "rejecting_context = sample_context\<lparr>ac_answer := (\<lambda>_ _. Inr (Mutation_Rejected ''no quota'' []))\<rparr>"

definition sample_cycle :: "journal_error + Journal \<times> ProviderOperation list \<times> ProviderOperation list" where
  "sample_cycle = provider_cycle True True (\<lambda>s. s) (\<lambda>_. []) ''dep'' int [] (\<lambda>_. 3) rejecting_context
     (cycle_create_intents ''dep'' ''1'' ''0123456789'' ''9876543210''
       (evaluate_scale (\<lambda>_. None) [] new_demand (default_policy\<lparr>min_nodes := 2\<rparr>) 3600000000 None)
       (evaluate_builder_scale (\<lambda>_. None) [] 0 0 (default_policy\<lparr>min_nodes := 2\<rparr>) 0 3600000000) None)
     [] [] sample_context left_over"

theorem cycle_calls_bounded_witness:
  "\<exists>j' replayed planned. sample_cycle = Inr (j', replayed, planned) \<and> length replayed = 1
     \<and> length (filter (\<lambda>c. po_kind c = CreateOp \<and> po_role c = Sandbox_Role) planned) = 2
     \<and> distinct (map po_operation_id (replayed @ planned)) \<and> prepared_ids CreateOp j' = {}"
proof -
  have k: "keyed_rows left_over" by code_simp
  have dr: "list_all drain_call []" by simp
  have n: "case sample_cycle of Inl e \<Rightarrow> False | Inr (j', replayed, planned) \<Rightarrow> length replayed = 1
     \<and> length (filter (\<lambda>c. po_kind c = CreateOp \<and> po_role c = Sandbox_Role) planned) = 2" by code_simp
  note cycle = cycle_calls_bounded [OF k dr, where execution_authorized = True and execute = True and ?uuid5.0 = "\<lambda>s. s"
      and render = "\<lambda>_. []" and deployment = "''dep''" and clock = int and jobs = "[]" and recovery_clock = "\<lambda>_. 3"
      and replay_ctx = rejecting_context and version = "''1''" and uuid = "''0123456789''" and builder_uuid = "''9876543210''"
      and parse = "\<lambda>_. None" and nodes = "[]" and demand = new_demand and policy = "default_policy\<lparr>min_nodes := 2\<rparr>"
      and now = 3600000000 and signals = None and builder_nodes = "[]" and pending_builds = 0 and prepared_builders = 0
      and max_builder_nodes = 0 and builder_now = 3600000000 and seed_prefix = None and plans = "[]" and ctx = sample_context,
      folded sample_cycle_def]
  obtain j' replayed planned where run: "sample_cycle = Inr (j', replayed, planned)"
    and rest: "distinct (map po_operation_id (replayed @ planned))" "planned \<noteq> [] \<longrightarrow> prepared_ids CreateOp j' = {}"
    using cycle by (elim exE conjE) (rule that)
  have len: "length replayed = 1" "length (filter (\<lambda>c. po_kind c = CreateOp \<and> po_role c = Sandbox_Role) planned) = 2"
    using n [unfolded run sum.case prod.case] by blast+
  then have "planned \<noteq> []" by auto
  with run len rest show ?thesis by blast
qed

section \<open>A grant of the node daemon\<close>

text \<open>
  C40. What a grant of the node daemon is worth. The decision and the ledger are separate parts of the daemon: when, on a node with a
  capacity shape, the decision grants a transition with a cost, and the caller then claims it, the memory that the ledger promises
  to all transitions in flight fits the sampled headroom above the floor, and the RAM backing fits what the sample
  reports. The ledger is that of any history of calls; no bound on the sample is needed, since a product that wraps only
  makes the headroom smaller.
\<close>

theorem noded_grant_within_headroom:
  fixes shape :: "Shape option"
  assumes "n_decide nm (snd (nl_run calls Ledger_new)) request = NGrant"
    and "nr_cost request = Some cost" "nn_capacity (nr_node request) \<noteq> None"
    and "Suc (length calls) < 2 ^ 64" "projections_fit (ledger_run (map abs_call calls) new_ledger) request"
  defines "l' \<equiv> snd (nl_claim (snd (nl_run calls Ledger_new)) (nr_owner request) cost shape)"
  shows "nn_admission_open (nr_node request)
    \<and> (\<exists>m. nm = Some m \<and> 0 < nm_memory_total_mb m
        \<and> uint (nl_known_memory_bytes l') \<le> max 0 (uint (nm_memory_available_mb m) - 2048) * 1048576
        \<and> (\<forall>a. n_ram_available m request = Some a \<longrightarrow> nl_total l' NRamBacking [] \<le> a))"
proof -
  note grant = n_decide_grantD [OF assms(1,3)]
  note after = n_total_after_claim [OF assms(4,5,2), of shape, folded l'_def]
  obtain m where m: "nm = Some m" using grant(3) by auto
  have "0 < nm_memory_total_mb m" and mem: "nl_projected_memory_bytes (snd (nl_run calls Ledger_new)) (nr_owner request) cost NMemory \<le> n_headroom m"
    and ram: "n_ram_available m request = Some a \<Longrightarrow> nl_projected_memory_bytes (snd (nl_run calls Ledger_new)) (nr_owner request) cost NRamBacking \<le> a" for a
    using grant(2) assms(2) m by (auto simp: n_projection_error_def Let_def word_neq_0_conv not_less split: if_splits option.splits)
  moreover have "uint (nl_known_memory_bytes l') \<le> uint (n_headroom m)"
    using order_trans [OF after mem] by (simp add: nl_known_memory_bytes_def word_le_def)
  ultimately show ?thesis
    using grant(1) m n_headroom_le [of m] order_trans [OF after ram] by (auto intro: order_trans)
qed

theorem noded_grant_within_headroom_witness:
  "n_decide (Some sample_nmetrics) (snd (nl_run sample_calls Ledger_new)) sample_request = NGrant
   \<and> uint (nl_known_memory_bytes (snd (nl_claim (snd (nl_run sample_calls Ledger_new)) (''c'', 1) (Cost_new Startup (Some 2)) None)))
       \<le> 2147483648"
proof -
  let ?l = "ledger_run (map abs_call sample_calls) new_ledger" and ?c = "abs_cost (Cost_new Startup (Some 2))"
  have g: "n_decide (Some sample_nmetrics) (snd (nl_run sample_calls Ledger_new)) sample_request = NGrant" by code_simp
  have r: "nr_cost sample_request = Some (Cost_new Startup (Some 2))" "nn_capacity (nr_node sample_request) \<noteq> None" by (simp_all add: sample_request_def)
  have len: "Suc (length sample_calls) < 2 ^ 64" by (simp add: sample_calls_def)
  have "projected_memory_bytes ?l (abs_owner (''c'', 1)) ?c Memory = 12" "projected_memory_bytes ?l (abs_owner (''c'', 1)) ?c Ram_Backing = 0"
    by code_simp+
  then have "projected_memory_bytes ?l (abs_owner (''c'', 1)) ?c x < 2 ^ 64" for x by (cases x) simp_all
  then have p: "projections_fit ?l sample_request" by (simp add: projections_fit_def sample_request_def)
  show ?thesis
    using g noded_grant_within_headroom [OF g r len p, of None] by (simp add: sample_request_def sample_nmetrics_def)
qed

end
